(* ===== verification/Prelude.thy ===== *)
theory Prelude
  imports Main "HOL-Library.Word" "HOL-Library.AList" "HOL-Library.Char_ord"
    "HOL-Library.List_Lexorder" "HOL-Library.Sublist"
begin

text \<open>
  Shared vocabulary of the development: the machine integers and byte strings of Go, results
  with errors, 64-bit signed wrap-around, big-endian words, and the generic facts about lists,
  folds and association lists that the component theories use.

  A Go \<^verbatim>\<open>string\<close> is a sequence of bytes, modelled as a HOL \<open>string\<close> (a \<open>char\<close> is one byte); a
  \<^verbatim>\<open>[]byte\<close> that carries binary data is a list of 8-bit words.  An \<^verbatim>\<open>error\<close> return is a
  sum: \<open>Inl\<close> carries the error, \<open>Inr\<close> the value.
\<close>

unbundle bit_operations_syntax

section \<open>Types\<close>

type_synonym byte = "8 word"
type_synonym bytes = "byte list"
type_synonym u32 = "32 word"
type_synonym u64 = "64 word"

text \<open>A Go \<^verbatim>\<open>error\<close> built from a text; a formatted error keeps its fixed prefix.\<close>

type_synonym goerror = string

type_synonym 'a result = "goerror + 'a"

text \<open>
  Errors of reads, writes and dials, as far as the program tells them apart: \<^verbatim>\<open>io.EOF\<close>,
  \<^verbatim>\<open>net.ErrClosed\<close>, \<^verbatim>\<open>*websocket.CloseError\<close>, \<^verbatim>\<open>*http.MaxBytesError\<close>, the stream's own
  \<^verbatim>\<open>ErrStreamTimeout\<close>, and any other error with its text.
\<close>

datatype ioerr = EOF | ErrClosed | CloseErr int string | MaxBytesErr | ErrStreamTimeout | OtherErr string

named_theorems go_eval \<open>equations that evaluate the models of the Go standard library\<close>
named_theorems inv_intros \<open>introduction rules of the components' invariants\<close>

section \<open>Bytes and strings\<close>

definition bytes_of :: "string \<Rightarrow> bytes" where
  "bytes_of s = map (\<lambda>c. of_nat (of_char c)) s"

definition string_of :: "bytes \<Rightarrow> string" where
  "string_of b = map (\<lambda>x. char_of (unat x)) b"

section \<open>64-bit signed arithmetic\<close>

text \<open>
  \<^verbatim>\<open>int\<close>, \<^verbatim>\<open>int64\<close> and \<^verbatim>\<open>time.Duration\<close> are signed 64-bit integers on the supported
  platforms: a value is an \<open>int\<close> in \<open>i64_range\<close>, and arithmetic that may leave the range
  goes through \<open>wrap64\<close>.
\<close>

definition i64_min :: int where "i64_min = - (2 ^ 63)"
definition i64_max :: int where "i64_max = 2 ^ 63 - 1"

definition i64_range :: "int \<Rightarrow> bool" where
  "i64_range x \<longleftrightarrow> i64_min \<le> x \<and> x \<le> i64_max"

definition wrap64 :: "int \<Rightarrow> int" where
  "wrap64 x = (x + 2 ^ 63) mod 2 ^ 64 - 2 ^ 63"

section \<open>Big-endian words\<close>

definition put_u32 :: "u32 \<Rightarrow> bytes" where
  "put_u32 w = [ucast (drop_bit 24 w), ucast (drop_bit 16 w), ucast (drop_bit 8 w), ucast w]"

fun get_u32 :: "bytes \<Rightarrow> u32" where
  "get_u32 [a, b, c, d] =
     ucast d OR push_bit 8 (ucast c) OR push_bit 16 (ucast b) OR push_bit 24 (ucast a)"
| "get_u32 _ = 0"

section \<open>Generic lemmas\<close>

lemma length_bytes_of [simp]: "length (bytes_of s) = length s"
  by (simp add: bytes_of_def)

lemma string_of_bytes_of [simp]: "string_of (bytes_of s) = s"
proof -
  have "char_of (unat (of_nat (of_char c) :: byte)) = c" for c
  proof -
    have "(of_char c :: nat) < 256" by (rule nat_of_char_less_256)
    then have "unat (of_nat (of_char c) :: byte) = of_char c"
      by (simp add: unat_of_nat)
    then show ?thesis by simp
  qed
  then show ?thesis by (simp add: bytes_of_def string_of_def map_idI)
qed

lemma bytes_of_inject [simp]: "bytes_of s = bytes_of t \<longleftrightarrow> s = t"
  by (metis string_of_bytes_of)

lemma wrap64_range [simp]: "i64_range (wrap64 x)"
proof -
  have "0 \<le> (x + 2 ^ 63) mod 2 ^ 64" "(x + 2 ^ 63) mod 2 ^ 64 < (2 :: int) ^ 64"
    by simp_all
  then show ?thesis by (simp add: i64_range_def i64_min_def i64_max_def wrap64_def)
qed

lemma wrap64_id: "i64_range x \<Longrightarrow> wrap64 x = x"
  by (simp add: i64_range_def i64_min_def i64_max_def wrap64_def)

lemma wrap64_nonneg_id: "0 \<le> x \<Longrightarrow> x < 2 ^ 63 \<Longrightarrow> wrap64 x = x"
  by (rule wrap64_id) (simp add: i64_range_def i64_min_def i64_max_def)

lemma length_put_u32 [simp]: "length (put_u32 w) = 4"
  by (simp add: put_u32_def)

lemma get_put_u32 [simp]: "get_u32 (put_u32 w) = w"
proof (rule bit_word_eqI)
  fix n assume "n < LENGTH(32)"
  then show "bit (get_u32 (put_u32 w)) n = bit w n"
    by (cases "24 \<le> n"; cases "16 \<le> n") (auto simp: put_u32_def bit_simps)
qed

lemma put_get_u32_list: "put_u32 (get_u32 [a, b, c, d]) = [a, b, c, d]"
  by (simp add: put_u32_def)
    (intro conjI; rule bit_word_eqI; auto simp: bit_simps dest: bit_imp_le_length)

lemma put_get_u32: "length b = 4 \<Longrightarrow> put_u32 (get_u32 b) = b"
  by (auto simp: put_get_u32_list length_Suc_conv numeral_eq_Suc simp del: get_u32.simps)

text \<open>Folding deletions over a list of keys, as the header filters do.\<close>

lemma map_of_fold_delete:
  "map_of (fold AList.delete ks al) = (\<lambda>k. if k \<in> set ks then None else map_of al k)"
  by (induction ks arbitrary: al) (auto simp: fun_eq_iff AList.delete_conv')

lemma distinct_fold_delete:
  "distinct (map fst al) \<Longrightarrow> distinct (map fst (fold AList.delete ks al))"
  by (induction ks arbitrary: al) (auto simp: AList.distinct_delete)


section \<open>Invariants of transition systems\<close>

text \<open>
  The contract of a safety argument: an invariant that holds initially and is kept by every step.  The
  components with concurrent or repeated steps interpret it on their own step relation.
\<close>

locale safety =
  fixes init :: "'s \<Rightarrow> bool"
    and step :: "'s \<Rightarrow> 's \<Rightarrow> bool"
    and inv :: "'s \<Rightarrow> bool"
  assumes inv_init: "init s \<Longrightarrow> inv s"
    and inv_step: "step s t \<Longrightarrow> inv s \<Longrightarrow> inv t"
begin

definition reach :: "'s \<Rightarrow> bool" where
  "reach t \<longleftrightarrow> (\<exists>s. init s \<and> step\<^sup>*\<^sup>* s t)"

lemma inv_steps: "step\<^sup>*\<^sup>* s t \<Longrightarrow> inv s \<Longrightarrow> inv t"
  by (induction rule: rtranclp_induct) (auto intro: inv_step)

lemma reach_inv: "reach s \<Longrightarrow> inv s"
  by (auto simp: reach_def intro: inv_steps inv_init)

lemma reach_init: "init s \<Longrightarrow> reach s"
  by (auto simp: reach_def)

lemma reach_step: "reach s \<Longrightarrow> step s t \<Longrightarrow> reach t"
  by (auto simp: reach_def intro: rtranclp.rtrancl_into_rtrancl)

end


section \<open>Bounded receive queues\<close>

text \<open>
  Gateway and agent both give each stream a bounded queue that is filled without blocking: with room the
  element is appended, without room the stream is closed.  The contract is stated on an abstract state
  with one queue in view; \<open>offer\<close> takes the choice of a select between the queue and the closed channel.
\<close>

datatype 'f qevent = Offer bool 'f | Take

fun offered :: "'f qevent list \<Rightarrow> 'f list" where
  "offered [] = []"
| "offered (Offer b f # es) = f # offered es"
| "offered (Take # es) = offered es"

locale bounded_rx =
  fixes cap :: nat
    and queue :: "'s \<Rightarrow> 'f list"
    and isclosed :: "'s \<Rightarrow> bool"
    and invar :: "'s \<Rightarrow> bool"
    and offer :: "bool \<Rightarrow> 's \<Rightarrow> 'f \<Rightarrow> 's"
    and poll :: "'s \<Rightarrow> ('f \<times> 's) option"
  assumes offer_room: "invar s \<Longrightarrow> \<not> isclosed s \<Longrightarrow> length (queue s) < cap \<Longrightarrow>
      queue (offer b s f) = queue s @ [f] \<and> \<not> isclosed (offer b s f)"
    and offer_full: "invar s \<Longrightarrow> \<not> isclosed s \<Longrightarrow> \<not> length (queue s) < cap \<Longrightarrow>
      queue (offer b s f) = queue s \<and> isclosed (offer b s f)"
    and offer_closed: "invar s \<Longrightarrow> isclosed s \<Longrightarrow> isclosed (offer b s f) \<and>
      (queue (offer b s f) = queue s \<or> length (queue s) < cap \<and> queue (offer b s f) = queue s @ [f])"
    and poll_Nil: "queue s = [] \<Longrightarrow> poll s = None"
    and poll_Cons: "invar s \<Longrightarrow> queue s = f # fs \<Longrightarrow>
      \<exists>s'. poll s = Some (f, s') \<and> queue s' = fs \<and> isclosed s' = isclosed s \<and> invar s'"
    and invar_offer: "invar s \<Longrightarrow> invar (offer b s f)"
    and invar_cap: "invar s \<Longrightarrow> length (queue s) \<le> cap"
begin

text \<open>A run of offers and polls: the elements taken, and the state reached.\<close>

fun qrun :: "'s \<Rightarrow> 'f qevent list \<Rightarrow> 'f list \<times> 's" where
  "qrun s [] = ([], s)"
| "qrun s (Offer b f # es) = qrun (offer b s f) es"
| "qrun s (Take # es) =
     (case poll s of None \<Rightarrow> qrun s es | Some (f, s') \<Rightarrow> (case qrun s' es of (fs, t) \<Rightarrow> (f # fs, t)))"

lemma isclosed_offer: "invar s \<Longrightarrow> isclosed s \<Longrightarrow> isclosed (offer b s f)"
  using offer_closed by blast

lemma qrun_Take:
  assumes "invar s" and "qrun s (Take # es) = (fs, t)"
  obtains (none) "queue s = []" "qrun s es = (fs, t)"
  | (some) f fs' s' where "queue s = f # queue s'" "fs = f # fs'" "qrun s' es = (fs', t)" "invar s'"
      "isclosed s' = isclosed s"
proof (cases "queue s")
  case Nil
  with assms none show ?thesis by (simp add: poll_Nil)
next
  case (Cons f gs)
  then obtain s' where s': "poll s = Some (f, s')" "queue s' = gs" "isclosed s' = isclosed s" "invar s'"
    using poll_Cons assms(1) by blast
  then obtain fs' where "fs = f # fs'" "qrun s' es = (fs', t)"
    using assms(2) by (cases "qrun s' es") auto
  with Cons s' some show ?thesis by blast
qed

lemma qrun_invar: "invar s \<Longrightarrow> qrun s es = (fs, t) \<Longrightarrow> invar t"
proof (induction es arbitrary: s fs)
  case (Cons e es)
  show ?case
  proof (cases e)
    case (Offer b f)
    then show ?thesis using Cons.IH [OF invar_offer] Cons.prems by simp
  next
    case Take
    show ?thesis
      by (rule qrun_Take [OF Cons.prems(1) Cons.prems(2) [unfolded Take]]) (use Cons in blast)+
  qed
qed simp

lemma qrun_closed: "invar s \<Longrightarrow> qrun s es = (fs, t) \<Longrightarrow> isclosed s \<Longrightarrow> isclosed t"
proof (induction es arbitrary: s fs)
  case (Cons e es)
  show ?case
  proof (cases e)
    case (Offer b f)
    then show ?thesis using Cons.IH [OF invar_offer _ isclosed_offer] Cons.prems by simp
  next
    case Take
    show ?thesis
      by (rule qrun_Take [OF Cons.prems(1) Cons.prems(2) [unfolded Take]]) (use Cons in blast)+
  qed
qed simp

text \<open>While the stream is open nothing is lost, duplicated or reordered.\<close>

lemma qrun_fifo:
  "invar s \<Longrightarrow> qrun s es = (fs, t) \<Longrightarrow> \<not> isclosed t \<Longrightarrow> queue s @ offered es = fs @ queue t"
proof (induction es arbitrary: s fs)
  case (Cons e es)
  show ?case
  proof (cases e)
    case (Offer b f)
    have run: "qrun (offer b s f) es = (fs, t)" and inv: "invar (offer b s f)"
      using Cons.prems Offer invar_offer by simp_all
    then have "\<not> isclosed (offer b s f)" using qrun_closed Cons.prems(3) by blast
    then have "queue (offer b s f) = queue s @ [f]"
      using Cons.prems(1) offer_room offer_full isclosed_offer by metis
    then show ?thesis using Cons.IH [OF inv run Cons.prems(3)] Offer by simp
  next
    case Take
    show ?thesis
    proof (rule qrun_Take [OF Cons.prems(1) Cons.prems(2) [unfolded Take]])
      assume "queue s = []" "qrun s es = (fs, t)"
      then show ?thesis using Cons.IH [of s fs] Cons.prems(1,3) Take by simp
    next
      fix f fs' s'
      assume "queue s = f # queue s'" "fs = f # fs'" "qrun s' es = (fs', t)" "invar s'"
      then show ?thesis using Cons.IH Cons.prems(3) Take by simp
    qed
  qed
qed simp

text \<open>In any case what is taken is part of what was offered, in order.\<close>

lemma offer_subseq: "invar s \<Longrightarrow> subseq (queue (offer b s f)) (queue s @ [f])"
  using offer_room [of s b f] offer_full [of s b f] offer_closed [of s b f]
  by (cases "isclosed s"; cases "length (queue s) < cap") auto

lemma qrun_subseq: "invar s \<Longrightarrow> qrun s es = (fs, t) \<Longrightarrow> subseq (fs @ queue t) (queue s @ offered es)"
proof (induction es arbitrary: s fs)
  case (Cons e es)
  show ?case
  proof (cases e)
    case (Offer b f)
    have "subseq (queue (offer b s f) @ offered es) (queue s @ offered (e # es))"
      using list_emb_append_mono [OF offer_subseq [OF Cons.prems(1)] subseq_order.refl, of b f "offered es"]
      by (simp add: Offer)
    moreover have "subseq (fs @ queue t) (queue (offer b s f) @ offered es)"
      using Cons.IH Cons.prems invar_offer Offer by simp
    ultimately show ?thesis by (rule subseq_order.trans [rotated])
  next
    case Take
    show ?thesis
    proof (rule qrun_Take [OF Cons.prems(1) Cons.prems(2) [unfolded Take]])
      assume "queue s = []" "qrun s es = (fs, t)"
      then show ?thesis using Cons.IH [of s fs] Cons.prems(1) Take by simp
    next
      fix f fs' s'
      assume "queue s = f # queue s'" "fs = f # fs'" "qrun s' es = (fs', t)" "invar s'"
      then show ?thesis using Cons.IH [of s' fs'] Take by simp
    qed
  qed
qed simp

end

section \<open>Relays\<close>

text \<open>
  One direction of a relay, as the framed, raw and TCP relays of gateway and agent all have it: a goroutine
  that is \<open>active\<close> passes on what an event brings in (\<open>input\<close>); it may stop half way; a stopped one passes on
  nothing more.  The laws are asked for events that the goroutine can perform (\<open>enabled\<close>).
\<close>

locale relay =
  fixes step :: "'s \<Rightarrow> 'e \<Rightarrow> 's"
    and out :: "'s \<Rightarrow> 'm list"
    and active :: "'s \<Rightarrow> bool"
    and input :: "'e \<Rightarrow> 'm list"
    and enabled :: "'s \<Rightarrow> 'e \<Rightarrow> bool"
  assumes step_active: "enabled s e \<Longrightarrow> active (step s e) \<Longrightarrow> active s \<and> out (step s e) = out s @ input e"
    and step_stop: "enabled s e \<Longrightarrow> active s \<Longrightarrow> prefix (out (step s e)) (out s @ input e)"
    and step_idle: "\<not> active s \<Longrightarrow> out (step s e) = out s"
begin

fun enabled_run :: "'s \<Rightarrow> 'e list \<Rightarrow> bool" where
  "enabled_run s [] = True"
| "enabled_run s (e # es) \<longleftrightarrow> enabled s e \<and> enabled_run (step s e) es"

definition run :: "'e list \<Rightarrow> 's \<Rightarrow> 's" where
  "run es s = fold (\<lambda>e s. step s e) es s"

lemma run_simps [simp]: "run [] s = s" "run (e # es) s = run es (step s e)"
  by (simp_all add: run_def)

lemma run_idle: "\<not> active s \<Longrightarrow> enabled_run s es \<Longrightarrow> out (run es s) = out s \<and> \<not> active (run es s)"
proof (induction es arbitrary: s)
  case (Cons e es)
  have "\<not> active (step s e)" using step_active [of s e] Cons.prems by auto
  with Cons.IH [of "step s e"] Cons.prems step_idle [of s e] show ?case by simp
qed simp

lemma run_relays:
  "active s \<Longrightarrow> enabled_run s es \<Longrightarrow>
     prefix (out (run es s)) (out s @ concat (map input es)) \<and>
     (active (run es s) \<longrightarrow> out (run es s) = out s @ concat (map input es))"
proof (induction es arbitrary: s)
  case (Cons e es)
  show ?case
  proof (cases "active (step s e)")
    case True
    with Cons.IH [of "step s e"] Cons.prems step_active [of s e] show ?thesis by simp
  next
    case False
    have "prefix (out (step s e)) (out s @ input e)" using Cons.prems step_stop by auto
    moreover have "out (run es (step s e)) = out (step s e) \<and> \<not> active (run es (step s e))"
      using run_idle [OF False] Cons.prems by simp
    ultimately show ?thesis using prefix_prefix [of _ "out s @ input e" "concat (map input es)"] by simp
  qed
qed simp

end

end
