(* ===== verification/Go_Strings.thy ===== *)
theory Go_Strings
  imports Prelude
begin

text \<open>
  The parts of the Go standard library that the program applies to strings: \<^verbatim>\<open>strings\<close>
  (\<^verbatim>\<open>TrimSpace\<close>, \<^verbatim>\<open>ToLower\<close>, \<^verbatim>\<open>EqualFold\<close>, prefix, suffix, split and join functions),
  \<^verbatim>\<open>strconv.ParseInt\<close> in base 10, \<^verbatim>\<open>textproto.CanonicalMIMEHeaderKey\<close> and
  \<^verbatim>\<open>net.SplitHostPort\<close>/\<^verbatim>\<open>net.JoinHostPort\<close>.

  \<^verbatim>\<open>TrimSpace\<close> removes Unicode white space, so the model recognises the UTF-8 encodings of the
  non-ASCII spaces too.  \<^verbatim>\<open>ToLower\<close> is used by the program only to compare with ASCII
  constants: besides A-Z, the only runes that Go lowers to ASCII are U+212A (to \<^verbatim>\<open>k\<close>) and U+0130
  (to \<^verbatim>\<open>i\<close>); every other byte of the input is left as it is, and no such byte is ASCII in Go's
  result either.  \<^verbatim>\<open>EqualFold\<close> against an ASCII constant folds U+212A to \<^verbatim>\<open>k\<close> and U+017F to
  \<^verbatim>\<open>s\<close>.
\<close>

section \<open>Definitions\<close>

abbreviation ord_of :: "char \<Rightarrow> nat" where
  "ord_of c \<equiv> of_char c"

subsection \<open>White space\<close>

definition ascii_space :: "char \<Rightarrow> bool" where
  "ascii_space c \<longleftrightarrow> 9 \<le> ord_of c \<and> ord_of c \<le> 13 \<or> ord_of c = 32"

definition uspace2 :: "char \<Rightarrow> char \<Rightarrow> bool" where
  "uspace2 a b \<longleftrightarrow> ord_of a = 0xC2 \<and> (ord_of b = 0x85 \<or> ord_of b = 0xA0)"

definition uspace3 :: "char \<Rightarrow> char \<Rightarrow> char \<Rightarrow> bool" where
  "uspace3 a b c \<longleftrightarrow>
     ord_of a = 0xE1 \<and> ord_of b = 0x9A \<and> ord_of c = 0x80
   \<or> ord_of a = 0xE2 \<and> ord_of b = 0x80 \<and>
       (0x80 \<le> ord_of c \<and> ord_of c \<le> 0x8A \<or> ord_of c = 0xA8 \<or> ord_of c = 0xA9 \<or> ord_of c = 0xAF)
   \<or> ord_of a = 0xE2 \<and> ord_of b = 0x81 \<and> ord_of c = 0x9F
   \<or> ord_of a = 0xE3 \<and> ord_of b = 0x80 \<and> ord_of c = 0x80"

text \<open>The number of bytes of the white-space rune a string starts (ends) with, 0 if none.\<close>

fun space_len :: "string \<Rightarrow> nat" where
  "space_len [] = 0"
| "space_len [a] = (if ascii_space a then 1 else 0)"
| "space_len [a, b] = (if ascii_space a then 1 else if uspace2 a b then 2 else 0)"
| "space_len (a # b # c # r) =
     (if ascii_space a then 1 else if uspace2 a b then 2 else if uspace3 a b c then 3 else 0)"

fun space_len_rev :: "string \<Rightarrow> nat" where
  "space_len_rev [] = 0"
| "space_len_rev [a] = (if ascii_space a then 1 else 0)"
| "space_len_rev [b, a] = (if ascii_space b then 1 else if uspace2 a b then 2 else 0)"
| "space_len_rev (c # b # a # r) =
     (if ascii_space c then 1 else if uspace2 b c then 2 else if uspace3 a b c then 3 else 0)"

lemma space_len_le: "space_len s \<le> length s"
  by (induction s rule: space_len.induct) auto

lemma space_len_rev_le: "space_len_rev s \<le> length s"
  by (induction s rule: space_len_rev.induct) auto

function trimLeft :: "string \<Rightarrow> string" where
  "trimLeft s = (if space_len s = 0 then s else trimLeft (drop (space_len s) s))"
  by pat_completeness auto
termination
proof (relation "measure length")
  fix s :: string
  assume "space_len s \<noteq> 0"
  then show "(drop (space_len s) s, s) \<in> measure length"
    using space_len_le [of s] by auto
qed simp

function trimRev :: "string \<Rightarrow> string" where
  "trimRev s = (if space_len_rev s = 0 then s else trimRev (drop (space_len_rev s) s))"
  by pat_completeness auto
termination
proof (relation "measure length")
  fix s :: string
  assume "space_len_rev s \<noteq> 0"
  then show "(drop (space_len_rev s) s, s) \<in> measure length"
    using space_len_rev_le [of s] by auto
qed simp

declare trimLeft.simps [simp del] trimRev.simps [simp del]

definition trimRight :: "string \<Rightarrow> string" where
  "trimRight s = rev (trimRev (rev s))"

definition trimSpace :: "string \<Rightarrow> string" where
  "trimSpace s = trimRight (trimLeft s)"

subsection \<open>Case\<close>

definition is_upper :: "char \<Rightarrow> bool" where
  "is_upper c \<longleftrightarrow> 65 \<le> ord_of c \<and> ord_of c \<le> 90"

definition is_lower :: "char \<Rightarrow> bool" where
  "is_lower c \<longleftrightarrow> 97 \<le> ord_of c \<and> ord_of c \<le> 122"

definition is_digit :: "char \<Rightarrow> bool" where
  "is_digit c \<longleftrightarrow> 48 \<le> ord_of c \<and> ord_of c \<le> 57"

definition lower_byte :: "char \<Rightarrow> char" where
  "lower_byte c = (if is_upper c then char_of (ord_of c + 32) else c)"

definition upper_byte :: "char \<Rightarrow> char" where
  "upper_byte c = (if is_lower c then char_of (ord_of c - 32) else c)"

fun toLower :: "string \<Rightarrow> string" where
  "toLower [] = []"
| "toLower (a # r) =
     (if ord_of a = 0xE2 \<and> take 2 r = [CHR 0x84, CHR 0xAA] then CHR ''k'' # toLower (drop 2 r)
      else if ord_of a = 0xC4 \<and> take 1 r = [CHR 0xB0] then CHR ''i'' # toLower (drop 1 r)
      else lower_byte a # toLower r)"

fun foldCase :: "string \<Rightarrow> string" where
  "foldCase [] = []"
| "foldCase (a # r) =
     (if ord_of a = 0xE2 \<and> take 2 r = [CHR 0x84, CHR 0xAA] then CHR ''k'' # foldCase (drop 2 r)
      else if ord_of a = 0xC5 \<and> take 1 r = [CHR 0xBF] then CHR ''s'' # foldCase (drop 1 r)
      else lower_byte a # foldCase r)"

text \<open>\<open>equalFold s t\<close> is \<^verbatim>\<open>strings.EqualFold(s, t)\<close> for an ASCII \<open>t\<close>.\<close>

definition equalFold :: "string \<Rightarrow> string \<Rightarrow> bool" where
  "equalFold s t \<longleftrightarrow> foldCase s = foldCase t"

subsection \<open>Prefixes, splitting, joining\<close>

definition hasPrefix :: "string \<Rightarrow> string \<Rightarrow> bool" where
  "hasPrefix s p \<longleftrightarrow> take (length p) s = p"

definition hasSuffix :: "string \<Rightarrow> string \<Rightarrow> bool" where
  "hasSuffix s p \<longleftrightarrow> length p \<le> length s \<and> drop (length s - length p) s = p"

definition trimPrefix :: "string \<Rightarrow> string \<Rightarrow> string" where
  "trimPrefix s p = (if hasPrefix s p then drop (length p) s else s)"

definition trimSuffix :: "string \<Rightarrow> string \<Rightarrow> string" where
  "trimSuffix s p = (if hasSuffix s p then take (length s - length p) s else s)"

fun containsSub :: "string \<Rightarrow> string \<Rightarrow> bool" where
  "containsSub [] p \<longleftrightarrow> p = []"
| "containsSub (c # s) p \<longleftrightarrow> hasPrefix (c # s) p \<or> containsSub s p"

text \<open>\<^verbatim>\<open>strings.Split\<close> on a one-byte separator, and \<^verbatim>\<open>strings.SplitN(s, sep, 2)\<close>.\<close>

fun splitOn :: "char \<Rightarrow> string \<Rightarrow> string list" where
  "splitOn c [] = [[]]"
| "splitOn c (x # xs) =
     (if x = c then [] # splitOn c xs
      else case splitOn c xs of [] \<Rightarrow> [[x]] | w # ws \<Rightarrow> (x # w) # ws)"

fun cutAt :: "char \<Rightarrow> string \<Rightarrow> string \<times> string option" where
  "cutAt c [] = ([], None)"
| "cutAt c (x # xs) =
     (if x = c then ([], Some xs) else case cutAt c xs of (a, r) \<Rightarrow> (x # a, r))"

definition splitN2 :: "char \<Rightarrow> string \<Rightarrow> string list" where
  "splitN2 c s = (case cutAt c s of (a, None) \<Rightarrow> [a] | (a, Some r) \<Rightarrow> [a, r])"

fun joinWith :: "string \<Rightarrow> string list \<Rightarrow> string" where
  "joinWith sep [] = []"
| "joinWith sep [x] = x"
| "joinWith sep (x # y # r) = x @ sep @ joinWith sep (y # r)"

subsection \<open>Numbers\<close>

fun digits_val :: "int \<Rightarrow> string \<Rightarrow> int" where
  "digits_val acc [] = acc"
| "digits_val acc (c # r) = digits_val (10 * acc + (of_char c - 48)) r"

text \<open>\<^verbatim>\<open>strconv.ParseInt(s, 10, 64)\<close>, and \<^verbatim>\<open>strconv.Atoi\<close> on a 64-bit platform; \<open>None\<close> is an error.\<close>

definition parseInt :: "string \<Rightarrow> int option" where
  "parseInt s =
     (let neg = hasPrefix s ''-'';
          ds = (if hasPrefix s ''-'' \<or> hasPrefix s ''+'' then tl s else s);
          n = digits_val 0 ds
      in if ds = [] \<or> \<not> list_all is_digit ds then None
         else if neg then (if n \<le> 2 ^ 63 then Some (- n) else None)
         else if n < 2 ^ 63 then Some n else None)"

text \<open>\<^verbatim>\<open>strconv.Itoa\<close>.\<close>

fun itoa_nat :: "nat \<Rightarrow> string" where
  "itoa_nat n =
     (if n < 10 then [char_of (48 + n)] else itoa_nat (n div 10) @ [char_of (48 + n mod 10)])"

declare itoa_nat.simps [simp del]

definition itoa :: "int \<Rightarrow> string" where
  "itoa n = (if n < 0 then CHR ''-'' # itoa_nat (nat (- n)) else itoa_nat (nat n))"

subsection \<open>Header keys\<close>

definition validHeaderFieldByte :: "char \<Rightarrow> bool" where
  "validHeaderFieldByte c \<longleftrightarrow>
     is_digit c \<or> is_lower c \<or> is_upper c \<or> c \<in> set ''!#$%&*+-.^_|~'' \<or> ord_of c = 39 \<or> ord_of c = 96"

fun canon_bytes :: "bool \<Rightarrow> string \<Rightarrow> string" where
  "canon_bytes upper [] = []"
| "canon_bytes upper (c # r) =
     (let c' = (if upper \<and> is_lower c then upper_byte c
                else if \<not> upper \<and> is_upper c then lower_byte c else c)
      in c' # canon_bytes (c' = CHR ''-'') r)"

definition canonicalHeaderKey :: "string \<Rightarrow> string" where
  "canonicalHeaderKey s = (if list_all validHeaderFieldByte s then canon_bytes True s else s)"

lemmas go_string_defs [go_eval] =
  ascii_space_def uspace2_def uspace3_def trimLeft.simps trimRev.simps trimRight_def trimSpace_def
  is_upper_def is_lower_def is_digit_def lower_byte_def upper_byte_def equalFold_def hasPrefix_def
  hasSuffix_def trimPrefix_def trimSuffix_def splitN2_def parseInt_def validHeaderFieldByte_def
  canonicalHeaderKey_def char_of_def bit_0 Let_def

section \<open>Lemmas\<close>

subsection \<open>Trimming\<close>

lemma space_len_prefix: "prefix p s \<Longrightarrow> space_len p \<noteq> 0 \<Longrightarrow> space_len s \<noteq> 0"
proof -
  assume "prefix p s" and nz: "space_len p \<noteq> 0"
  then obtain t where "s = p @ t" by (auto simp: prefix_def)
  with nz show "space_len s \<noteq> 0"
    by (cases p rule: space_len.cases; cases t rule: space_len.cases) (auto split: if_splits)
qed

lemma trimLeft_suffix: "suffix (trimLeft s) s"
proof (induction s rule: trimLeft.induct)
  case (1 s)
  then show ?case
    by (cases "space_len s = 0")
      (auto simp: trimLeft.simps [of s] intro: suffix_order.trans [OF _ suffix_drop])
qed

lemma trimRev_suffix: "suffix (trimRev s) s"
proof (induction s rule: trimRev.induct)
  case (1 s)
  then show ?case
    by (cases "space_len_rev s = 0")
      (auto simp: trimRev.simps [of s] intro: suffix_order.trans [OF _ suffix_drop])
qed

lemma space_len_trimLeft [simp]: "space_len (trimLeft s) = 0"
proof (induction s rule: trimLeft.induct)
  case (1 s)
  then show ?case by (cases "space_len s = 0") (auto simp: trimLeft.simps [of s])
qed

lemma space_len_rev_trimRev [simp]: "space_len_rev (trimRev s) = 0"
proof (induction s rule: trimRev.induct)
  case (1 s)
  then show ?case by (cases "space_len_rev s = 0") (auto simp: trimRev.simps [of s])
qed

lemma trimLeft_id: "space_len s = 0 \<Longrightarrow> trimLeft s = s"
  by (simp add: trimLeft.simps)

lemma trimRight_prefix: "prefix (trimRight s) s"
  using trimRev_suffix [of "rev s"] by (simp add: trimRight_def suffix_to_prefix)

lemma trimSpace_idem [simp]: "trimSpace (trimSpace s) = trimSpace s"
proof -
  have "space_len (trimSpace s) = 0"
    unfolding trimSpace_def using space_len_prefix [OF trimRight_prefix] space_len_trimLeft by blast
  moreover have "trimRight (trimRight t) = trimRight t" for t
    by (simp add: trimRight_def trimRev.simps [of "trimRev (rev t)"])
  ultimately show ?thesis
    by (metis trimSpace_def trimLeft_id)
qed

lemma trimSpace_Nil [simp]: "trimSpace [] = []"
  by (simp add: trimSpace_def trimRight_def trimLeft.simps trimRev.simps)

lemma set_trimSpace: "set (trimSpace s) \<subseteq> set s"
  using set_mono_prefix [OF trimRight_prefix] set_mono_suffix [OF trimLeft_suffix]
  by (metis order_trans trimSpace_def)

subsection \<open>Splitting and joining\<close>

lemma splitOn_nonempty [simp]: "splitOn c s \<noteq> []"
  by (induction s) (auto split: list.splits)

lemma joinWith_splitOn: "joinWith [c] (splitOn c s) = s"
proof (induction s)
  case (Cons x xs)
  obtain w ws where sp: "splitOn c xs = w # ws" by (meson splitOn_nonempty neq_Nil_conv)
  with Cons show ?case by (cases ws) auto
qed simp

lemma splitOn_no_sep: "w \<in> set (splitOn c s) \<Longrightarrow> c \<notin> set w"
proof (induction s arbitrary: w)
  case (Cons x xs)
  obtain v vs where "splitOn c xs = v # vs" by (meson splitOn_nonempty neq_Nil_conv)
  with Cons show ?case by (auto split: if_splits)
qed simp

lemma splitOn_single: "c \<notin> set s \<Longrightarrow> splitOn c s = [s]"
  by (induction s) auto

lemma splitOn_append: "c \<notin> set w \<Longrightarrow> splitOn c (w @ c # r) = w # splitOn c r"
  by (induction w) auto

lemma splitOn_joinWith:
  "ws \<noteq> [] \<Longrightarrow> \<forall>w \<in> set ws. c \<notin> set w \<Longrightarrow> splitOn c (joinWith [c] ws) = ws"
  by (induction "[c]" ws rule: joinWith.induct) (auto simp: splitOn_single splitOn_append)

lemma cutAt_None: "cutAt c s = (a, None) \<Longrightarrow> a = s \<and> c \<notin> set s"
  by (induction s arbitrary: a) (auto split: if_splits prod.splits)

lemma cutAt_Some: "cutAt c s = (a, Some r) \<Longrightarrow> s = a @ c # r \<and> c \<notin> set a"
  by (induction s arbitrary: a) (auto split: if_splits prod.splits)

lemma cutAt_append: "c \<notin> set a \<Longrightarrow> cutAt c (a @ c # r) = (a, Some r)"
  by (induction a) auto

lemma cutAt_notin: "c \<notin> set a \<Longrightarrow> cutAt c a = (a, None)"
  by (induction a) auto

lemma hasPrefix_iff: "hasPrefix s p \<longleftrightarrow> prefix p s"
  by (metis append_take_drop_id hasPrefix_def prefix_def take_is_prefix append_eq_conv_conj)

lemma hasSuffix_iff: "hasSuffix s p \<longleftrightarrow> suffix p s"
  by (auto simp: hasSuffix_def suffix_def) (metis append_take_drop_id)

subsection \<open>Header keys\<close>

lemma ord_lower_byte: "ord_of (lower_byte c) = (if is_upper c then ord_of c + 32 else ord_of c)"
  by (simp add: lower_byte_def is_upper_def)

lemma ord_upper_byte: "ord_of (upper_byte c) = (if is_lower c then ord_of c - 32 else ord_of c)"
  by (auto simp: upper_byte_def is_lower_def)

lemma lower_byte_not_upper [simp]: "\<not> is_upper (lower_byte c)"
  by (simp add: is_upper_def ord_lower_byte)

lemma upper_byte_not_lower [simp]: "\<not> is_lower (upper_byte c)"
  by (auto simp: is_lower_def ord_upper_byte)

lemma validHeaderFieldByte_case [simp]:
  "is_upper c \<Longrightarrow> validHeaderFieldByte (lower_byte c)"
  "is_lower c \<Longrightarrow> validHeaderFieldByte (upper_byte c)"
  by (auto simp: validHeaderFieldByte_def is_upper_def is_lower_def ord_lower_byte ord_upper_byte)

lemma canon_bytes_valid:
  "list_all validHeaderFieldByte s \<Longrightarrow> list_all validHeaderFieldByte (canon_bytes u s)"
  by (induction u s rule: canon_bytes.induct) (auto simp: Let_def)

lemma canon_bytes_idem [simp]: "canon_bytes u (canon_bytes u s) = canon_bytes u s"
  by (induction u s rule: canon_bytes.induct) (auto simp: Let_def)

lemma canonicalHeaderKey_idem [simp]: "canonicalHeaderKey (canonicalHeaderKey s) = canonicalHeaderKey s"
  by (simp add: canonicalHeaderKey_def canon_bytes_valid)

lemma canonicalHeaderKey_Nil [simp]: "canonicalHeaderKey [] = []"
  by (simp add: canonicalHeaderKey_def)

lemma canonicalHeaderKey_eq_Nil [simp]: "canonicalHeaderKey s = [] \<longleftrightarrow> s = []"
  by (cases s) (auto simp: canonicalHeaderKey_def Let_def)

subsection \<open>Numbers\<close>

lemma is_digit_char_of: "n < 10 \<Longrightarrow> is_digit (char_of (48 + n :: nat))"
  by (simp add: is_digit_def of_char_of)

lemma of_char_digit: "n < 10 \<Longrightarrow> (of_char (char_of (48 + n :: nat)) :: int) = 48 + int n"
proof -
  assume "n < 10"
  then have "(of_char (char_of (48 + n :: nat)) :: nat) = 48 + n" by (simp add: of_char_of)
  then have "int (of_char (char_of (48 + n :: nat))) = 48 + int n" by simp
  then show ?thesis by (simp only: of_nat_of_char)
qed

lemma digits_val_snoc: "digits_val acc (s @ [c]) = 10 * digits_val acc s + (of_char c - 48)"
  by (induction acc s rule: digits_val.induct) auto

lemma itoa_nat_digits: "itoa_nat n \<noteq> [] \<and> list_all is_digit (itoa_nat n) \<and> digits_val 0 (itoa_nat n) = int n"
proof (induction n rule: itoa_nat.induct)
  case (1 n)
  show ?case
  proof (cases "n < 10")
    case True
    then show ?thesis by (simp add: itoa_nat.simps [of n] is_digit_char_of of_char_digit)
  next
    case False
    then have "digits_val 0 (itoa_nat n) = 10 * int (n div 10) + int (n mod 10)"
      using 1 by (simp add: itoa_nat.simps [of n] digits_val_snoc of_char_digit)
    then have "digits_val 0 (itoa_nat n) = int n" by presburger
    with 1 False show ?thesis by (simp add: itoa_nat.simps [of n] is_digit_char_of)
  qed
qed

lemma length_itoa_nat: "n < 10 ^ Suc k \<Longrightarrow> length (itoa_nat n) \<le> Suc k"
proof (induction k arbitrary: n)
  case 0
  then show ?case by (simp add: itoa_nat.simps [of n])
next
  case (Suc k)
  then have "n div 10 < 10 ^ Suc k" by (simp add: div_less_iff_less_mult mult.commute)
  with Suc.IH show ?case by (simp add: itoa_nat.simps [of n])
qed

lemma itoa_nat_hd: "n \<noteq> 0 \<Longrightarrow> hd (itoa_nat n) \<noteq> CHR ''0''"
proof (induction n rule: itoa_nat.induct)
  case (1 n)
  show ?case
  proof (cases "n < 10")
    case True
    have "(of_char (char_of (48 + n)) :: nat) \<noteq> of_char CHR ''0''" using True "1.prems" by (simp add: of_char_of)
    then have "char_of (48 + n) \<noteq> CHR ''0''" by metis
    with True show ?thesis by (simp add: itoa_nat.simps [of n])
  next
    case False
    with 1 itoa_nat_digits [of "n div 10"] show ?thesis by (auto simp: itoa_nat.simps [of n])
  qed
qed

lemma hasPrefix_single: "hasPrefix s [c] \<longleftrightarrow> s \<noteq> [] \<and> hd s = c"
  by (cases s) (auto simp: hasPrefix_def)

lemma is_digit_not_sign: "is_digit c \<Longrightarrow> c \<noteq> CHR ''-'' \<and> c \<noteq> CHR ''+''"
  by (auto simp: is_digit_def)

lemma parseInt_itoa: "i64_range n \<Longrightarrow> parseInt (itoa n) = Some n"
proof (cases "n < 0")
  case True
  assume "i64_range n"
  with True itoa_nat_digits [of "nat (- n)"] show ?thesis
    by (simp add: parseInt_def itoa_def Let_def hasPrefix_single i64_range_def i64_min_def)
next
  case False
  assume "i64_range n"
  moreover have "hd (itoa_nat (nat n)) \<noteq> CHR ''-'' \<and> hd (itoa_nat (nat n)) \<noteq> CHR ''+''"
    using itoa_nat_digits [of "nat n"] is_digit_not_sign by (cases "itoa_nat (nat n)") auto
  ultimately show ?thesis using False itoa_nat_digits [of "nat n"]
    by (simp add: parseInt_def itoa_def Let_def hasPrefix_single i64_range_def i64_max_def)
qed

subsection \<open>Printable ASCII\<close>

definition graphic :: "char \<Rightarrow> bool" where
  "graphic c \<longleftrightarrow> 33 \<le> ord_of c \<and> ord_of c < 127"

lemma graphic_no_space:
  assumes "graphic c"
  shows "\<not> ascii_space c" "\<not> uspace2 c b" "\<not> uspace2 a c" "\<not> uspace3 c a b" "\<not> uspace3 a b c"
proof -
  have lo: "33 \<le> ord_of c" and hi: "ord_of c < 127" using assms by (simp_all add: graphic_def)
  show "\<not> ascii_space c" using lo by (simp add: ascii_space_def)
  have neq: "ord_of c \<noteq> n" if "127 \<le> n" for n using hi that by simp
  show "\<not> uspace2 c b" by (simp add: uspace2_def neq)
  show "\<not> uspace2 a c" by (simp add: uspace2_def neq)
  show "\<not> uspace3 c a b" by (simp add: uspace3_def neq)
  show "\<not> uspace3 a b c" using hi by (simp add: uspace3_def neq)
qed

lemma graphic_space_len: "graphic c \<Longrightarrow> space_len (c # s) = 0 \<and> space_len_rev (c # s) = 0"
  by (cases s; cases "tl s") (auto simp: graphic_no_space)

lemma trimSpace_graphic:
  assumes "s \<noteq> []" and "graphic (hd s)" and "graphic (last s)"
  shows "trimSpace s = s"
proof -
  have "space_len s = 0" using assms(1,2) graphic_space_len [of "hd s" "tl s"] by simp
  moreover have "space_len_rev (rev s) = 0"
    using assms(1,3) graphic_space_len [of "last s" "rev (butlast s)"]
    by (metis append_butlast_last_id rev.simps(2) rev_append rev_rev_ident append_Cons append_Nil rev_singleton_conv)
  ultimately show ?thesis by (simp add: trimSpace_def trimRight_def trimLeft_id trimRev.simps [of "rev s"])
qed

end
