(* ===== verification/Go_Http.thy ===== *)
theory Go_Http
  imports Go_Strings
begin

text \<open>
  The operations of \<^verbatim>\<open>http.Header\<close> the program uses.  A header is an association list from keys to
  value lists; the order of the list stands for the (unspecified) iteration order of the Go map, so a
  theorem about every list holds for every iteration order.  \<open>header_ok\<close> says that no key occurs
  twice, which every operation keeps.
\<close>

section \<open>Definitions\<close>

type_synonym header = "(string \<times> string list) list"

definition header_ok :: "header \<Rightarrow> bool" where
  "header_ok h \<longleftrightarrow> distinct (map fst h)"

definition hlookup :: "header \<Rightarrow> string \<Rightarrow> string list" where
  "hlookup h k = (case map_of h k of None \<Rightarrow> [] | Some vs \<Rightarrow> vs)"

text \<open>\<^verbatim>\<open>Values\<close>, \<^verbatim>\<open>Get\<close>, \<^verbatim>\<open>Set\<close>, \<^verbatim>\<open>Add\<close>, \<^verbatim>\<open>Del\<close>: the key is made canonical first.\<close>

definition hvalues :: "header \<Rightarrow> string \<Rightarrow> string list" where
  "hvalues h k = hlookup h (canonicalHeaderKey k)"

definition hget :: "header \<Rightarrow> string \<Rightarrow> string" where
  "hget h k = (case hvalues h k of [] \<Rightarrow> [] | v # _ \<Rightarrow> v)"

definition hset :: "header \<Rightarrow> string \<Rightarrow> string \<Rightarrow> header" where
  "hset h k v = AList.update (canonicalHeaderKey k) [v] h"

definition hadd :: "header \<Rightarrow> string \<Rightarrow> string \<Rightarrow> header" where
  "hadd h k v = AList.update (canonicalHeaderKey k) (hvalues h k @ [v]) h"

definition hdel :: "header \<Rightarrow> string \<Rightarrow> header" where
  "hdel h k = AList.delete (canonicalHeaderKey k) h"

text \<open>The index assignment \<^verbatim>\<open>h[k] = vs\<close> on the underlying map.\<close>

definition hput :: "header \<Rightarrow> string \<Rightarrow> string list \<Rightarrow> header" where
  "hput h k vs = AList.update k vs h"

fun hadds :: "header \<Rightarrow> string \<Rightarrow> string list \<Rightarrow> header" where
  "hadds h k [] = h"
| "hadds h k (v # vs) = hadds (hadd h k v) k vs"

lemmas go_header_defs [go_eval] =
  hlookup_def hvalues_def hget_def hset_def hadd_def hdel_def hput_def AList.delete_eq

section \<open>Lemmas\<close>

lemma map_of_hdel: "map_of (hdel h k) = (map_of h)(canonicalHeaderKey k := None)"
  by (simp add: hdel_def AList.delete_conv')

lemma map_of_hset: "map_of (hset h k v) = (map_of h)(canonicalHeaderKey k \<mapsto> [v])"
  by (simp add: hset_def AList.update_conv')

lemma map_of_hput: "map_of (hput h k vs) = (map_of h)(k \<mapsto> vs)"
  by (simp add: hput_def AList.update_conv')

lemma hlookup_hadd:
  "hlookup (hadd h k v) k' =
     (if k' = canonicalHeaderKey k then hlookup h k' @ [v] else hlookup h k')"
  by (simp add: hlookup_def hadd_def hvalues_def AList.update_conv')

lemma hlookup_hadds:
  "hlookup (hadds h k vs) k' =
     (if k' = canonicalHeaderKey k then hlookup h k' @ vs else hlookup h k')"
  by (induction h k vs rule: hadds.induct) (auto simp: hlookup_hadd)

lemma hlookup_hdel: "hlookup (hdel h k) k' = (if k' = canonicalHeaderKey k then [] else hlookup h k')"
  by (simp add: hlookup_def map_of_hdel)

lemma hlookup_hset:
  "hlookup (hset h k v) k' = (if k' = canonicalHeaderKey k then [v] else hlookup h k')"
  by (simp add: hlookup_def map_of_hset)

lemma hget_hset: "hget (hset h k v) k = v"
  by (simp add: hget_def hvalues_def hlookup_hset)

lemma header_ok_ops [simp]:
  "header_ok h \<Longrightarrow> header_ok (hset h k v)"
  "header_ok h \<Longrightarrow> header_ok (hadd h k v)"
  "header_ok h \<Longrightarrow> header_ok (hdel h k)"
  "header_ok h \<Longrightarrow> header_ok (hput h k vs)"
  by (simp_all add: header_ok_def hset_def hadd_def hdel_def hput_def AList.distinct_update
      AList.distinct_delete)

lemma header_ok_hadds [simp]: "header_ok h \<Longrightarrow> header_ok (hadds h k vs)"
  by (induction h k vs rule: hadds.induct) auto

lemma fold_hdel: "fold (\<lambda>k h. hdel h k) ks h = fold AList.delete (map canonicalHeaderKey ks) h"
  by (induction ks arbitrary: h) (auto simp: hdel_def)

lemma header_ok_fold_hdel: "header_ok h \<Longrightarrow> header_ok (fold (\<lambda>k h. hdel h k) ks h)"
  by (simp add: header_ok_def fold_hdel distinct_fold_delete)

lemma keys_hadds:
  "fst ` set (hadds h k vs) = (if vs = [] then fst ` set h else insert (canonicalHeaderKey k) (fst ` set h))"
proof (induction h k vs rule: hadds.induct)
  case (2 h k v vs)
  then show ?case by (simp add: hadd_def AList.dom_update)
qed simp

end
