(* ===== verification/Proto.thy ===== *)
theory Proto
  imports Go_Http
begin

text \<open>
  Package \<^verbatim>\<open>internal/proto\<close>: the frames that gateway and agent exchange over one WebSocket
  connection (\<^verbatim>\<open>frame.go\<close>, \<^verbatim>\<open>types.go\<close>) and the structures carried in frame payloads
  (\<^verbatim>\<open>wire.go\<close>).  The locale \<open>frame_codec\<close> is the contract both read loops rely on; it is
  interpreted on \<open>EncodeFrame\<close> and \<open>DecodeFrame\<close>.
\<close>

section \<open>Frames\<close>

definition TReqStart :: byte where "TReqStart = 0x01"
definition TReqData :: byte where "TReqData = 0x02"
definition TReqEnd :: byte where "TReqEnd = 0x03"
definition TReqTrailer :: byte where "TReqTrailer = 0x04"
definition TResStart :: byte where "TResStart = 0x11"
definition TResData :: byte where "TResData = 0x12"
definition TResEnd :: byte where "TResEnd = 0x13"
definition TResTrailer :: byte where "TResTrailer = 0x14"
definition TWsOpenOK :: byte where "TWsOpenOK = 0x20"
definition TWsOpenErr :: byte where "TWsOpenErr = 0x21"
definition TWsC2A :: byte where "TWsC2A = 0x22"
definition TWsA2C :: byte where "TWsA2C = 0x23"
definition TWsClose :: byte where "TWsClose = 0x24"
definition TRst :: byte where "TRst = 0x30"

lemmas frame_types =
  TReqStart_def TReqData_def TReqEnd_def TReqTrailer_def TResStart_def TResData_def TResEnd_def
  TResTrailer_def TWsOpenOK_def TWsOpenErr_def TWsC2A_def TWsA2C_def TWsClose_def TRst_def

definition headerBytes :: nat where "headerBytes = 1 + 4 + 4"

definition WebSocketFrameOverhead :: nat where
  "WebSocketFrameOverhead = headerBytes + 1"

record Frame =
  Type :: byte
  Stream :: u32
  Payload :: bytes

definition EncodeFrame :: "byte \<Rightarrow> u32 \<Rightarrow> bytes \<Rightarrow> bytes" where
  "EncodeFrame t stream payload =
     [t] @ put_u32 stream @ put_u32 (of_nat (length payload)) @ payload"

definition DecodeFrame :: "bytes \<Rightarrow> Frame result" where
  "DecodeFrame b =
     (if length b < headerBytes then Inl ''frame too short''
      else
        let t = b ! 0;
            stream = get_u32 (take 4 (drop 1 b));
            n = get_u32 (take 4 (drop 5 b))
        in if int (unat n) < 0 \<or> length b \<noteq> headerBytes + unat n
           then Inl ''frame length mismatch''
           else Inr \<lparr>Type = t, Stream = stream, Payload = drop 9 b\<rparr>)"

section \<open>Payload structures\<close>

record ReqStart =
  Method :: string
  Path :: string
  RawQuery :: string
  Host :: string
  Header :: header
  TrailerKeys :: "string list"
  IsWebSocket :: bool

record ResStart =
  Status :: int
  ResHeader :: header
  ResTrailerKeys :: "string list"
  Interim :: bool

record WsOpenErr =
  Message :: string

record WsOpenOK =
  Subprotocol :: string
  RelayMode :: string
  Extensions :: "string list"

definition WsRelayModeFramed :: string where "WsRelayModeFramed = ''framed''"
definition WsRelayModeRaw :: string where "WsRelayModeRaw = ''raw''"

record WsClose =
  Code :: int
  Reason :: string

section \<open>The contract of the frame codec\<close>

locale frame_codec =
  fixes enc :: "'f \<Rightarrow> 'w"
    and dec :: "'w \<Rightarrow> 'f result"
    and ok :: "'f \<Rightarrow> bool"
  assumes dec_enc: "ok f \<Longrightarrow> dec (enc f) = Inr f"
    and enc_dec: "dec w = Inr f \<Longrightarrow> w = enc f"
    and dec_ok: "dec w = Inr f \<Longrightarrow> ok f"
begin

text \<open>What a read loop that skips undecodable messages sees of a sequence of messages.\<close>

primrec received :: "'w list \<Rightarrow> 'f list" where
  "received [] = []"
| "received (w # ws) = (case dec w of Inl _ \<Rightarrow> received ws | Inr f \<Rightarrow> f # received ws)"

lemma enc_inject: "ok f \<Longrightarrow> ok g \<Longrightarrow> enc f = enc g \<Longrightarrow> f = g"
  by (metis dec_enc sum.inject(2))

lemma dec_iff: "dec w = Inr f \<longleftrightarrow> ok f \<and> w = enc f"
  using dec_enc enc_dec dec_ok by blast

lemma received_enc: "list_all ok fs \<Longrightarrow> received (map enc fs) = fs"
  by (induction fs) (auto simp: dec_enc)

lemma received_append: "received (ws @ vs) = received ws @ received vs"
  by (induction ws) (auto split: sum.splits)

lemma received_ok: "list_all ok (received ws)"
  by (induction ws) (auto split: sum.splits dest: dec_ok)

lemma received_skips: "(\<And>f. w \<noteq> enc f) \<Longrightarrow> received (us @ w # vs) = received (us @ vs)"
  by (auto simp: received_append split: sum.splits dest: enc_dec)

end

definition frame_fits :: "Frame \<Rightarrow> bool" where
  "frame_fits f \<longleftrightarrow> length (Payload f) < 2 ^ 32"

definition encode :: "Frame \<Rightarrow> bytes" where
  "encode f = EncodeFrame (Type f) (Stream f) (Payload f)"

section \<open>Lemmas\<close>

lemma headerBytes_eq: "headerBytes = 9"
  by (simp add: headerBytes_def)

lemma length_EncodeFrame [simp]: "length (EncodeFrame t s p) = headerBytes + length p"
  by (simp add: EncodeFrame_def headerBytes_def)

lemma EncodeFrame_fields:
  "EncodeFrame t s p ! 0 = t"
  "take 4 (drop (Suc 0) (EncodeFrame t s p)) = put_u32 s"
  "take 4 (drop 5 (EncodeFrame t s p)) = put_u32 (of_nat (length p))"
  "drop 9 (EncodeFrame t s p) = p"
  by (simp_all add: EncodeFrame_def put_u32_def)

lemma Decode_EncodeFrame:
  assumes "length p < 2 ^ 32"
  shows "DecodeFrame (EncodeFrame t s p) = Inr \<lparr>Type = t, Stream = s, Payload = p\<rparr>"
proof -
  have "unat (of_nat (length p) :: u32) = length p"
    using assms by (simp add: unat_of_nat)
  then show ?thesis by (simp add: DecodeFrame_def EncodeFrame_fields Let_def)
qed

lemma Decode_EncodeFrame_oversize:
  assumes "2 ^ 32 \<le> length p"
  shows "DecodeFrame (EncodeFrame t s p) = Inl ''frame length mismatch''"
proof -
  have "unat (of_nat (length p) :: u32) < 2 ^ 32"
    using unsigned_less [of "of_nat (length p) :: u32"] by simp
  with assms show ?thesis
    by (simp add: DecodeFrame_def EncodeFrame_fields Let_def)
qed

lemma DecodeFrame_cases:
  "DecodeFrame b = Inr f \<longleftrightarrow>
     9 \<le> length b \<and> length b = 9 + unat (get_u32 (take 4 (drop 5 b))) \<and>
     f = \<lparr>Type = b ! 0, Stream = get_u32 (take 4 (drop 1 b)), Payload = drop 9 b\<rparr>"
proof -
  define n where "n = unat (get_u32 (take 4 (drop 5 b)))"
  define g where "g = \<lparr>Type = b ! 0, Stream = get_u32 (take 4 (drop 1 b)), Payload = drop 9 b\<rparr>"
  have "DecodeFrame b =
      (if length b < 9 then Inl ''frame too short''
       else if int n < 0 \<or> length b \<noteq> 9 + n then Inl ''frame length mismatch'' else Inr g)"
    by (simp only: DecodeFrame_def Let_def headerBytes_eq n_def g_def)
  then show ?thesis unfolding n_def [symmetric] g_def [symmetric] by auto
qed

lemma DecodeFrame_Inr:
  assumes "DecodeFrame b = Inr f"
  shows "b = encode f" and "frame_fits f"
proof -
  note dec = assms [unfolded DecodeFrame_cases]
  have len: "9 \<le> length b" and n: "length b = 9 + unat (get_u32 (take 4 (drop 5 b)))"
    using dec by blast+
  have t: "Type f = b ! 0" and s: "Stream f = get_u32 (take 4 (drop 1 b))"
    and p: "Payload f = drop 9 b"
    by (simp_all add: dec [THEN conjunct2, THEN conjunct2])
  have plen: "length (Payload f) = unat (get_u32 (take 4 (drop 5 b)))"
    unfolding p length_drop by (subst n) (rule diff_add_inverse)
  show "frame_fits f"
    using plen unsigned_less [of "get_u32 (take 4 (drop 5 b))"] by (simp add: frame_fits_def)
  have "put_u32 (Stream f) = take 4 (drop 1 b)"
    unfolding s using len by (intro put_get_u32) simp
  moreover have "put_u32 (of_nat (length (Payload f))) = take 4 (drop 5 b)"
    unfolding plen using len by (simp add: put_get_u32)
  ultimately have "encode f = [b ! 0] @ take 4 (drop 1 b) @ take 4 (drop 5 b) @ drop 9 b"
    by (simp add: encode_def EncodeFrame_def t p)
  also have "\<dots> = take 1 b @ take 4 (drop 1 b) @ take 4 (drop 5 b) @ drop 9 b"
    using len by (cases b) auto
  also have "\<dots> = b"
    using append_take_drop_id [of 1 b] append_take_drop_id [of 4 "drop 1 b"]
      append_take_drop_id [of 4 "drop 5 b"] by simp
  finally show "b = encode f" by simp
qed

interpretation frames: frame_codec encode DecodeFrame frame_fits
  by unfold_locales
    (auto simp: encode_def frame_fits_def Decode_EncodeFrame dest: DecodeFrame_Inr)


section \<open>Properties\<close>

text \<open>C10. Decoding accepts a message exactly when it is the encoding of a frame whose payload length
  fits 32 bits, and then yields that frame: encoding and decoding are inverse, and no truncated,
  extended or oversized message is mistaken for a frame.\<close>

theorem DecodeFrame_exact:
  "DecodeFrame b = Inr f \<longleftrightarrow>
     length (Payload f) < 2 ^ 32 \<and> b = EncodeFrame (Type f) (Stream f) (Payload f)"
  using frames.dec_iff [of b f] by (simp add: frame_fits_def encode_def)

text \<open>A sequence of frames written by one side is read back by the other side's loop in order and
  complete, and messages that are no frames, wherever they occur in between, are skipped.\<close>

theorem frames_received_in_order:
  assumes "list_all frame_fits fs" and "list_all frame_fits gs" and "\<And>f. junk \<noteq> encode f"
  shows "frames.received (map encode fs @ junk # map encode gs) = fs @ gs"
proof -
  have "frames.received (map encode fs @ junk # map encode gs) =
    frames.received (map encode fs @ map encode gs)"
    by (rule frames.received_skips [OF assms(3)])
  also have "\<dots> = fs @ gs"
    using assms by (simp add: frames.received_append frames.received_enc)
  finally show ?thesis .
qed

theorem frames_received_in_order_witness:
  "frames.received
     (map encode [\<lparr>Type = TReqStart, Stream = 1, Payload = [7]\<rparr>] @ [] #
      map encode [\<lparr>Type = TReqEnd, Stream = 1, Payload = []\<rparr>]) =
   [\<lparr>Type = TReqStart, Stream = 1, Payload = [7]\<rparr>, \<lparr>Type = TReqEnd, Stream = 1, Payload = []\<rparr>]"
  using frames_received_in_order [of "[\<lparr>Type = TReqStart, Stream = 1, Payload = [7]\<rparr>]"
      "[\<lparr>Type = TReqEnd, Stream = 1, Payload = []\<rparr>]" "[]"]
  by (simp add: frame_fits_def encode_def EncodeFrame_def)

end
