(* ===== verification/Go_Url.thy ===== *)
theory Go_Url
  imports Go_Strings
begin

text \<open>
  \<^verbatim>\<open>url.URL\<close> and the functions of \<^verbatim>\<open>path\<close> the program applies to URL paths.  \<^verbatim>\<open>path.Clean\<close>
  is modelled on path elements: empty and \<^verbatim>\<open>.\<close> elements vanish, \<^verbatim>\<open>..\<close> removes the element
  before it, and at the root it vanishes too.
\<close>

section \<open>Definitions\<close>

text \<open>The user information is a name and possibly a password.\<close>

record URL =
  uScheme :: string
  uOpaque :: string
  uUser :: "(string \<times> string option) option"
  uHost :: string
  uPath :: string
  uRawPath :: string
  uForceQuery :: bool
  uRawQuery :: string
  uFragment :: string

definition emptyURL :: URL where
  "emptyURL = \<lparr>uScheme = [], uOpaque = [], uUser = None, uHost = [], uPath = [], uRawPath = [], uForceQuery = False,
     uRawQuery = [], uFragment = []\<rparr>"

definition rooted :: "string \<Rightarrow> bool" where
  "rooted p \<longleftrightarrow> hasPrefix p ''/''"

fun clean_elems :: "bool \<Rightarrow> string list \<Rightarrow> string list \<Rightarrow> string list" where
  "clean_elems r out [] = rev out"
| "clean_elems r out (e # es) =
     (if e = [] \<or> e = ''.'' then clean_elems r out es
      else if e = ''..'' then
        (case out of
           [] \<Rightarrow> clean_elems r (if r then [] else [''..'']) es
         | x # xs \<Rightarrow> if x = ''..'' then clean_elems r (''..'' # out) es else clean_elems r xs es)
      else clean_elems r (e # out) es)"

definition pathClean :: "string \<Rightarrow> string" where
  "pathClean p =
     (if p = [] then ''.''
      else let body = joinWith ''/'' (clean_elems (rooted p) [] (splitOn CHR ''/'' p))
           in if rooted p then ''/'' @ body else if body = [] then ''.'' else body)"

definition pathJoin :: "string list \<Rightarrow> string" where
  "pathJoin es =
     (let ne = filter (\<lambda>e. e \<noteq> []) es
      in if ne = [] then [] else pathClean (joinWith ''/'' ne))"

text \<open>The non-empty elements of a path, the view under which paths are compared below.\<close>

definition path_elems :: "string \<Rightarrow> string list" where
  "path_elems p = filter (\<lambda>e. e \<noteq> []) (splitOn CHR ''/'' p)"

definition normal_elem :: "string \<Rightarrow> bool" where
  "normal_elem e \<longleftrightarrow> e \<noteq> [] \<and> e \<noteq> ''.'' \<and> e \<noteq> ''..''"

section \<open>Lemmas\<close>

lemma splitOn_append_sep: "splitOn c (a @ c # b) = splitOn c a @ splitOn c b"
proof (induction a)
  case (Cons x xs)
  obtain w ws where "splitOn c xs = w # ws" by (meson splitOn_nonempty neq_Nil_conv)
  with Cons show ?case by auto
qed simp

lemma path_elems_append: "path_elems (a @ CHR ''/'' # b) = path_elems a @ path_elems b"
  by (simp add: path_elems_def splitOn_append_sep)

lemma path_elems_Nil [simp]: "path_elems [] = []"
  by (simp add: path_elems_def)

lemma path_elems_slash [simp]: "path_elems (CHR ''/'' # p) = path_elems p"
  by (simp add: path_elems_def)

lemma path_elems_elem: "e \<in> set (path_elems p) \<Longrightarrow> e \<noteq> [] \<and> CHR ''/'' \<notin> set e"
  by (auto simp: path_elems_def dest: splitOn_no_sep)

lemma clean_elems_filter: "clean_elems r out (filter (\<lambda>e. e \<noteq> []) es) = clean_elems r out es"
  by (induction r out es rule: clean_elems.induct) (auto split: list.splits)

lemma clean_elems_no_dotdot:
  "''..'' \<notin> set es \<Longrightarrow>
   clean_elems r out es = rev out @ filter (\<lambda>e. e \<noteq> [] \<and> e \<noteq> ''.'') es"
  by (induction r out es rule: clean_elems.induct) auto

lemma set_clean_elems: "set (clean_elems r out es) \<subseteq> set out \<union> set es"
  by (induction r out es rule: clean_elems.induct) (auto split: list.splits if_splits)

lemma clean_elems_normal:
  assumes "list_all normal_elem out"
  shows "list_all normal_elem (clean_elems True out es)"
  using assms
proof (induction es arbitrary: out)
  case (Cons e es)
  show ?case
  proof (cases "e = [] \<or> e = ''.'' \<or> e = ''..''")
    case True
    with Cons show ?thesis by (cases out) (auto simp: normal_elem_def)
  next
    case False
    then have "normal_elem e" by (simp add: normal_elem_def)
    with Cons.prems have "list_all normal_elem (e # out)" by simp
    with False Cons.IH show ?thesis by simp
  qed
qed (simp add: list_all_iff)

lemma path_elems_join:
  assumes "\<forall>e \<in> set es. e \<noteq> [] \<and> CHR ''/'' \<notin> set e"
  shows "path_elems (joinWith ''/'' es) = es"
proof (cases "es = []")
  case False
  with assms have "splitOn CHR ''/'' (joinWith ''/'' es) = es"
    by (intro splitOn_joinWith) auto
  with assms show ?thesis by (simp add: path_elems_def)
qed simp

lemma path_elems_pathClean_rooted:
  assumes "rooted p"
  shows "path_elems (pathClean p) = clean_elems True [] (path_elems p)"
proof -
  let ?es = "clean_elems True [] (splitOn CHR ''/'' p)"
  have "p \<noteq> []" using assms by (auto simp: rooted_def hasPrefix_def)
  then have "path_elems (pathClean p) = path_elems (joinWith ''/'' ?es)"
    using assms by (simp add: pathClean_def Let_def)
  also have "\<dots> = ?es"
  proof (rule path_elems_join, intro ballI)
    fix e assume e: "e \<in> set ?es"
    then have "normal_elem e" using clean_elems_normal [of "[]"] by (auto simp: list_all_iff)
    then have "e \<noteq> []" by (simp add: normal_elem_def)
    moreover have "CHR ''/'' \<notin> set e"
      using e set_clean_elems [of True "[]"] splitOn_no_sep by fastforce
    ultimately show "e \<noteq> [] \<and> CHR ''/'' \<notin> set e" ..
  qed
  also have "\<dots> = clean_elems True [] (path_elems p)"
    by (simp add: path_elems_def clean_elems_filter)
  finally show ?thesis .
qed

lemma rooted_pathClean: "rooted p \<Longrightarrow> rooted (pathClean p)"
  by (auto simp: pathClean_def rooted_def hasPrefix_def Let_def)

end
