(* ===== verification/Shared.thy ===== *)
theory Shared
  imports Go_Http Go_Url
begin

text \<open>
  Package \<^verbatim>\<open>internal/shared\<close>: proxy modes and target kinds (\<^verbatim>\<open>proxymode.go\<close>), the hop-by-hop
  header filters and header copies (\<^verbatim>\<open>httpheaders.go\<close>), WebSocket close codes (\<^verbatim>\<open>wsclose.go\<close>)
  and URL joining (\<^verbatim>\<open>urljoin.go\<close>).
\<close>

section \<open>WebSocket constants\<close>

text \<open>Message types and close codes of RFC 6455, as \<^verbatim>\<open>gorilla/websocket\<close> names them.\<close>

definition TextMessage :: int where "TextMessage = 1"
definition BinaryMessage :: int where "BinaryMessage = 2"
definition CloseMessage :: int where "CloseMessage = 8"
definition PingMessage :: int where "PingMessage = 9"
definition PongMessage :: int where "PongMessage = 10"

definition CloseNormalClosure :: int where "CloseNormalClosure = 1000"
definition CloseGoingAway :: int where "CloseGoingAway = 1001"
definition CloseProtocolError :: int where "CloseProtocolError = 1002"
definition CloseNoStatusReceived :: int where "CloseNoStatusReceived = 1005"
definition CloseAbnormalClosure :: int where "CloseAbnormalClosure = 1006"
definition CloseTLSHandshake :: int where "CloseTLSHandshake = 1015"

lemmas ws_consts =
  TextMessage_def BinaryMessage_def CloseMessage_def PingMessage_def PongMessage_def
  CloseNormalClosure_def CloseGoingAway_def CloseProtocolError_def CloseNoStatusReceived_def
  CloseAbnormalClosure_def CloseTLSHandshake_def

section \<open>wsclose.go\<close>

definition WSReadLimitBytes :: int where "WSReadLimitBytes = 40 * 2 ^ 20"

fun CloseFromErr :: "ioerr option \<Rightarrow> int \<times> string \<times> bool" where
  "CloseFromErr None = (0, [], False)"
| "CloseFromErr (Some (CloseErr code text)) = (code, text, True)"
| "CloseFromErr (Some _) = (0, [], False)"

definition SanitizeCloseCode :: "int \<Rightarrow> int" where
  "SanitizeCloseCode code =
     (if code = 0 then CloseNormalClosure
      else if code < 1000 \<or> code \<ge> 5000 then CloseNormalClosure
      else if code = CloseNoStatusReceived \<or> code = CloseAbnormalClosure \<or> code = CloseTLSHandshake
      then CloseNormalClosure
      else code)"

section \<open>urljoin.go\<close>

definition JoinURL :: "URL \<Rightarrow> string \<Rightarrow> URL" where
  "JoinURL base suffixPath =
     (let basePath = (if uPath base = [] then ''/'' else uPath base);
          suffix = (if suffixPath = [] then ''/'' else suffixPath);
          p = pathJoin [trimSuffix basePath ''/'', suffix]
      in base\<lparr>uPath := (if hasSuffix suffix ''/'' \<and> \<not> hasSuffix p ''/'' then p @ ''/'' else p)\<rparr>)"

definition ToWebSocketURL :: "URL \<Rightarrow> URL" where
  "ToWebSocketURL u =
     (let s = toLower (uScheme u)
      in if s = ''http'' then u\<lparr>uScheme := ''ws''\<rparr>
         else if s = ''https'' then u\<lparr>uScheme := ''wss''\<rparr>
         else u)"

section \<open>proxymode.go\<close>

definition ProxyModeLegacyFramed :: string where "ProxyModeLegacyFramed = ''legacy_framed''"
definition ProxyModeTransparentTunnel :: string where
  "ProxyModeTransparentTunnel = ''transparent_tunnel''"

definition HeaderProxyMode :: string where "HeaderProxyMode = ''X-Clockbridge-Proxy-Mode''"
definition HeaderProxyModeReason :: string where
  "HeaderProxyModeReason = ''X-Clockbridge-Proxy-Mode-Reason''"

definition TargetKindUnknown :: string where "TargetKindUnknown = ''unknown''"
definition TargetKindHTTP :: string where "TargetKindHTTP = ''http''"
definition TargetKindTCP :: string where "TargetKindTCP = ''tcp''"
definition TargetKindWebSocket :: string where "TargetKindWebSocket = ''ws''"

lemmas mode_consts =
  ProxyModeLegacyFramed_def ProxyModeTransparentTunnel_def HeaderProxyMode_def
  HeaderProxyModeReason_def TargetKindUnknown_def TargetKindHTTP_def TargetKindTCP_def
  TargetKindWebSocket_def

definition NormalizeProxyMode :: "string \<Rightarrow> string result" where
  "NormalizeProxyMode raw =
     (let value = toLower (trimSpace raw)
      in if value \<in> {[], ''legacy'', ProxyModeLegacyFramed} then Inr ProxyModeLegacyFramed
         else if value \<in> {''transparent'', ProxyModeTransparentTunnel}
         then Inr ProxyModeTransparentTunnel
         else Inl ''unsupported proxy mode'')"

definition NormalizeTargetKind :: "string \<Rightarrow> string result" where
  "NormalizeTargetKind raw =
     (let value = toLower (trimSpace raw)
      in if value \<in> {[], TargetKindUnknown} then Inr TargetKindUnknown
         else if value \<in> {TargetKindHTTP, ''https''} then Inr TargetKindHTTP
         else if value = TargetKindTCP then Inr TargetKindTCP
         else if value \<in> {TargetKindWebSocket, ''wss''} then Inr TargetKindWebSocket
         else Inl ''unsupported target kind'')"

section \<open>httpheaders.go\<close>

text \<open>The keys of the Go map, spelled as the source spells them.\<close>

definition hopByHopHeaderKeys :: "string list" where
  "hopByHopHeaderKeys =
     [''Connection'', ''Proxy-Connection'', ''Keep-Alive'', ''Proxy-Authenticate'',
      ''Proxy-Authorization'', ''TE'', ''Trailer'', ''Transfer-Encoding'', ''Upgrade'']"

definition wsRequestStripKeys :: "string list" where
  "wsRequestStripKeys =
     map canonicalHeaderKey
       [''Sec-WebSocket-Key'', ''Sec-WebSocket-Version'', ''Sec-WebSocket-Extensions'',
        ''Sec-WebSocket-Accept'']"

definition IsHopByHopHeaderKey :: "string \<Rightarrow> bool" where
  "IsHopByHopHeaderKey k \<longleftrightarrow> canonicalHeaderKey k \<in> set hopByHopHeaderKeys"

definition IsWSStripHeaderKey :: "string \<Rightarrow> bool" where
  "IsWSStripHeaderKey k \<longleftrightarrow> canonicalHeaderKey k \<in> set wsRequestStripKeys"

definition header_tokens :: "string list \<Rightarrow> string list" where
  "header_tokens vs =
     filter (\<lambda>k. k \<noteq> [])
       (map (\<lambda>t. canonicalHeaderKey (trimSpace t)) (concat (map (splitOn CHR '','') vs)))"

definition StripConnectionHeaders :: "header \<Rightarrow> header" where
  "StripConnectionHeaders h =
     fold (\<lambda>k h. hdel h k) hopByHopHeaderKeys
       (fold (\<lambda>k h. hdel h k) (header_tokens (hvalues h ''Connection'')) h)"

text \<open>The keys in the order of first occurrence, as the \<^verbatim>\<open>seen\<close> loop collects them.\<close>

fun collect_unseen :: "string list \<Rightarrow> string list \<Rightarrow> string list" where
  "collect_unseen seen [] = []"
| "collect_unseen seen (k # ks) =
     (if k = [] \<or> k \<in> set seen then collect_unseen seen ks
      else k # collect_unseen (k # seen) ks)"

definition TrailerKeysFromHeader :: "header \<Rightarrow> string list" where
  "TrailerKeysFromHeader h =
     (let vals = hvalues h ''Trailer''
      in if vals = [] then []
         else let keys = collect_unseen []
                  (map (\<lambda>t. canonicalHeaderKey (trimSpace t)) (concat (map (splitOn CHR '','') vals)))
              in if length keys > 1 then sort keys else keys)"

definition HeaderKeys :: "header \<Rightarrow> string list" where
  "HeaderKeys h =
     (let keys = collect_unseen [] (map (\<lambda>(k, _). canonicalHeaderKey k) h)
      in if length keys > 1 then sort keys else keys)"

fun CopyHeaders :: "header \<Rightarrow> header \<Rightarrow> header" where
  "CopyHeaders dst [] = dst"
| "CopyHeaders dst ((k, vv) # src) =
     (if IsHopByHopHeaderKey k then CopyHeaders dst src
      else CopyHeaders (hadds dst k vv) src)"

fun CopyHeadersForWebSocket :: "header \<Rightarrow> header \<Rightarrow> header" where
  "CopyHeadersForWebSocket dst [] = dst"
| "CopyHeadersForWebSocket dst ((k, vv) # src) =
     (if IsHopByHopHeaderKey k \<or> IsWSStripHeaderKey k then CopyHeadersForWebSocket dst src
      else CopyHeadersForWebSocket (hadds dst k vv) src)"


section \<open>Header copies and filters\<close>

text \<open>
  Both header copies are the same loop with a different skip test.  The contract: the copy of an empty
  source is the destination, and each entry is either skipped or added value by value.
\<close>

locale header_copy =
  fixes skip :: "string \<Rightarrow> bool"
    and copy :: "header \<Rightarrow> header \<Rightarrow> header"
  assumes copy_Nil: "copy dst [] = dst"
    and copy_Cons: "copy dst ((k, vv) # src) = (if skip k then copy dst src else copy (hadds dst k vv) src)"
begin

definition copied :: "string \<Rightarrow> header \<Rightarrow> string list" where
  "copied k src = concat (map snd (filter (\<lambda>(k', _). canonicalHeaderKey k' = k \<and> \<not> skip k') src))"

lemma hlookup_copy: "hlookup (copy dst src) k = hlookup dst k @ copied k src"
proof (induction src arbitrary: dst)
  case (Cons e src)
  obtain k' vv where e: "e = (k', vv)" by (cases e)
  show ?case
  proof (cases "skip k'")
    case True
    with Cons show ?thesis by (simp add: e copy_Cons copied_def)
  next
    case False
    with Cons show ?thesis by (auto simp: e copy_Cons copied_def hlookup_hadds)
  qed
qed (simp add: copy_Nil copied_def)

lemma header_ok_copy: "header_ok dst \<Longrightarrow> header_ok (copy dst src)"
proof (induction src arbitrary: dst)
  case (Cons e src)
  then show ?case by (cases e) (simp add: copy_Cons)
qed (simp add: copy_Nil)

lemma copied_canonical:
  assumes "header_ok src" and "\<forall>k' \<in> fst ` set src. canonicalHeaderKey k' = k'"
  shows "copied k src = (if skip k then [] else hlookup src k)"
  using assms
proof (induction src)
  case (Cons e src)
  obtain k' vv where e: "e = (k', vv)" by (cases e)
  have k': "canonicalHeaderKey k' = k'" using Cons.prems(2) e by simp
  have IH: "copied k src = (if skip k then [] else hlookup src k)"
    using Cons by (simp add: header_ok_def)
  have new: "k' = k \<Longrightarrow> hlookup src k = []"
    using Cons.prems(1) e by (auto simp: header_ok_def hlookup_def map_of_eq_None_iff [THEN iffD2])
  show ?case
  proof (cases "k' = k")
    case True
    then have "hlookup ((k', vv) # src) k = vv" by (simp add: hlookup_def)
    then show ?thesis using True IH new k' by (auto simp: e copied_def)
  next
    case False
    then have "hlookup ((k', vv) # src) k = hlookup src k" by (simp add: hlookup_def)
    then show ?thesis using IH False k' by (simp add: e copied_def)
  qed
qed (simp add: copied_def hlookup_def)

lemma copied_none: "(\<And>k'. canonicalHeaderKey k' = k \<Longrightarrow> skip k') \<Longrightarrow> copied k src = []"
  by (auto simp: copied_def)

end

interpretation plain_copy: header_copy IsHopByHopHeaderKey CopyHeaders
  by unfold_locales auto

interpretation ws_copy: header_copy "\<lambda>k. IsHopByHopHeaderKey k \<or> IsWSStripHeaderKey k" CopyHeadersForWebSocket
  by unfold_locales auto

lemma canonical_header_tokens: "k \<in> set (header_tokens vs) \<Longrightarrow> canonicalHeaderKey k = k"
  by (auto simp: header_tokens_def)

text \<open>The elements of a separated list: the stretches without separator that start and end at one.\<close>

lemma splitOn_iff:
  "w \<in> set (splitOn c s) \<longleftrightarrow>
     (\<exists>a b. s = a @ w @ b \<and> c \<notin> set w \<and> (a = [] \<or> last a = c) \<and> (b = [] \<or> hd b = c))"
proof
  assume "w \<in> set (splitOn c s)"
  then show "\<exists>a b. s = a @ w @ b \<and> c \<notin> set w \<and> (a = [] \<or> last a = c) \<and> (b = [] \<or> hd b = c)"
  proof (induction "length s" arbitrary: s rule: less_induct)
    case less
    show ?case
    proof (cases "c \<in> set s")
      case True
      then obtain x y where s: "s = x @ c # y" "c \<notin> set x" by (meson split_list_first)
      with less.prems consider "w = x" | "w \<in> set (splitOn c y)" by (auto simp: splitOn_append)
      then show ?thesis
      proof cases
        case 1
        then show ?thesis using s by (intro exI [of _ "[]"] exI [of _ "c # y"]) simp
      next
        case 2
        with less.hyps [of y] s obtain a b
          where ab: "y = a @ w @ b" "c \<notin> set w" "a = [] \<or> last a = c" "b = [] \<or> hd b = c" by auto
        then show ?thesis using s by (intro exI [of _ "x @ c # a"] exI [of _ b]) auto
      qed
    next
      case False
      then show ?thesis using less.prems by (intro exI [of _ "[]"]) (simp add: splitOn_single)
    qed
  qed
next
  assume "\<exists>a b. s = a @ w @ b \<and> c \<notin> set w \<and> (a = [] \<or> last a = c) \<and> (b = [] \<or> hd b = c)"
  then obtain a b where s: "s = a @ w @ b" "c \<notin> set w" "a = [] \<or> last a = c" "b = [] \<or> hd b = c" by blast
  have "w \<in> set (splitOn c (w @ b))" using s(2,4) by (cases b) (auto simp: splitOn_single splitOn_append)
  then show "w \<in> set (splitOn c s)"
    using s(1,3) by (cases a rule: rev_cases) (auto simp: splitOn_append_sep)
qed

lemma header_tokens_iff:
  "k \<in> set (header_tokens vs) \<longleftrightarrow>
     (\<exists>v \<in> set vs. \<exists>w \<in> set (splitOn CHR '','' v). trimSpace w \<noteq> [] \<and> canonicalHeaderKey (trimSpace w) = k)"
  by (auto simp: header_tokens_def) blast

lemma map_of_StripConnectionHeaders:
  "map_of (StripConnectionHeaders h) k =
     (if k \<in> canonicalHeaderKey ` set hopByHopHeaderKeys
        \<or> k \<in> set (header_tokens (hvalues h ''Connection''))
      then None else map_of h k)"
proof -
  have "canonicalHeaderKey ` set (header_tokens vs) = set (header_tokens vs)" for vs
    using canonical_header_tokens by force
  then show ?thesis
    by (auto simp: StripConnectionHeaders_def fold_hdel map_of_fold_delete)
qed

lemma header_ok_StripConnectionHeaders [simp]:
  "header_ok h \<Longrightarrow> header_ok (StripConnectionHeaders h)"
  by (simp add: StripConnectionHeaders_def header_ok_fold_hdel)

lemma collect_unseen_set: "set (collect_unseen seen ks) = set ks - set seen - {[]}"
  by (induction seen ks rule: collect_unseen.induct) auto

lemma collect_unseen_distinct: "distinct (collect_unseen seen ks)"
  by (induction seen ks rule: collect_unseen.induct) (auto simp: collect_unseen_set)

lemma sort_if_many: "(if length ks > 1 then sort ks else ks) = sort (ks :: string list)"
  by (cases ks rule: list.exhaust [case_names Nil Cons]; cases "tl ks") auto

section \<open>Joined paths\<close>

lemma path_elems_trimSuffix_slash: "path_elems (trimSuffix p ''/'') = path_elems p"
proof (cases "hasSuffix p ''/''")
  case True
  then obtain q where "p = q @ ''/''" by (auto simp: hasSuffix_iff suffix_def)
  then show ?thesis using path_elems_append [of q "[]"]
    by (simp add: trimSuffix_def hasSuffix_def)
qed (simp add: trimSuffix_def)

lemma rooted_trimSuffix: "rooted p \<Longrightarrow> trimSuffix p ''/'' = [] \<or> rooted (trimSuffix p ''/'')"
  by (cases p) (auto simp: rooted_def trimSuffix_def hasPrefix_def hasSuffix_def take_Cons')

lemma pathJoin_rooted:
  assumes "a = [] \<or> rooted a" and "rooted b"
  shows "rooted (pathJoin [a, b]) \<and>
    path_elems (pathJoin [a, b]) = clean_elems True [] (path_elems a @ path_elems b)"
proof -
  have b: "b \<noteq> []" using assms(2) by (auto simp: rooted_def hasPrefix_def)
  show ?thesis
  proof (cases "a = []")
    case True
    with assms b show ?thesis
      by (simp add: pathJoin_def rooted_pathClean path_elems_pathClean_rooted)
  next
    case False
    with assms have "rooted (a @ CHR ''/'' # b)"
      by (cases a) (auto simp: rooted_def hasPrefix_def)
    with False b show ?thesis
      by (simp add: pathJoin_def rooted_pathClean path_elems_pathClean_rooted path_elems_append)
  qed
qed

lemma JoinURL_path:
  assumes "uPath u = [] \<or> rooted (uPath u)" and "s = [] \<or> rooted s"
  shows "rooted (uPath (JoinURL u s))"
    and "path_elems (uPath (JoinURL u s)) = clean_elems True [] (path_elems (uPath u) @ path_elems s)"
proof -
  let ?b = "if uPath u = [] then ''/'' else uPath u" and ?s = "if s = [] then ''/'' else s"
  let ?p = "pathJoin [trimSuffix ?b ''/'', ?s]"
  have "rooted ?b" "rooted ?s" using assms by (auto simp: rooted_def hasPrefix_def)
  then have p: "rooted ?p" "path_elems ?p = clean_elems True [] (path_elems ?b @ path_elems ?s)"
    using pathJoin_rooted rooted_trimSuffix path_elems_trimSuffix_slash by metis+
  have el: "path_elems ?b = path_elems (uPath u)" "path_elems ?s = path_elems s"
    using path_elems_slash [of "[]"] by simp_all
  have sl: "path_elems (q @ ''/'') = path_elems q" "rooted q \<Longrightarrow> rooted (q @ ''/'')" for q
    using path_elems_append [of q "[]"] by (auto simp: rooted_def hasPrefix_iff)
  show "rooted (uPath (JoinURL u s))"
    using p sl by (simp add: JoinURL_def Let_def)
  show "path_elems (uPath (JoinURL u s)) = clean_elems True [] (path_elems (uPath u) @ path_elems s)"
    using p el sl by (simp add: JoinURL_def Let_def)
qed

section \<open>Properties\<close>

text \<open>C40. \<^verbatim>\<open>StripConnectionHeaders\<close> removes exactly these entries: the nine hop-by-hop headers of RFC 7230 (\<^verbatim>\<open>Te\<close> among them,
  although the table spells it \<^verbatim>\<open>TE\<close>), and every header that some \<^verbatim>\<open>Connection\<close> value names, that is, whose canonical
  key is that of an element of the comma-separated value, surrounding space removed; every other entry keeps
  its values.\<close>

theorem StripConnectionHeaders_exact:
  "map_of (StripConnectionHeaders h) k =
     (if k \<in> {''Connection'', ''Proxy-Connection'', ''Keep-Alive'', ''Proxy-Authenticate'', ''Proxy-Authorization'', ''Te'',
             ''Trailer'', ''Transfer-Encoding'', ''Upgrade''} \<or>
         (\<exists>v \<in> set (hvalues h ''Connection''). \<exists>before name after.
            v = before @ name @ after \<and> CHR '','' \<notin> set name \<and> (before = [] \<or> last before = CHR '','') \<and>
            (after = [] \<or> hd after = CHR '','') \<and> trimSpace name \<noteq> [] \<and> canonicalHeaderKey (trimSpace name) = k)
      then None else map_of h k)"
proof -
  have keys: "canonicalHeaderKey ` set hopByHopHeaderKeys =
      {''Connection'', ''Proxy-Connection'', ''Keep-Alive'', ''Proxy-Authenticate'', ''Proxy-Authorization'', ''Te'',
       ''Trailer'', ''Transfer-Encoding'', ''Upgrade''}"
    by code_simp
  have "k \<in> set (header_tokens (hvalues h ''Connection'')) \<longleftrightarrow>
      (\<exists>v \<in> set (hvalues h ''Connection''). \<exists>before name after.
         v = before @ name @ after \<and> CHR '','' \<notin> set name \<and> (before = [] \<or> last before = CHR '','') \<and>
         (after = [] \<or> hd after = CHR '','') \<and> trimSpace name \<noteq> [] \<and> canonicalHeaderKey (trimSpace name) = k)"
    unfolding header_tokens_iff Bex_def [of "set (splitOn _ _)"] splitOn_iff by blast
  then show ?thesis unfolding map_of_StripConnectionHeaders keys by presburger
qed

text \<open>\<^verbatim>\<open>CopyHeaders\<close> appends to the values of each canonical key of the destination the values of
  all source entries with that canonical key, in source order, except those whose key is hop-by-hop.\<close>

theorem CopyHeaders_values:
  "hlookup (CopyHeaders dst src) k =
     hlookup dst k @
     concat (map snd (filter (\<lambda>(k', _). canonicalHeaderKey k' = k \<and> \<not> IsHopByHopHeaderKey k') src))"
  using plain_copy.hlookup_copy by (simp add: plain_copy.copied_def)

text \<open>The headers an upstream WebSocket dial gets carry none of the handshake headers that the
  dialer sets itself, and none of the hop-by-hop headers but \<^verbatim>\<open>Te\<close>.\<close>

theorem CopyHeadersForWebSocket_strips:
  assumes "k \<in> set wsRequestStripKeys \<or> k \<in> set hopByHopHeaderKeys"
  shows "hlookup (CopyHeadersForWebSocket [] src) k = []"
  unfolding ws_copy.hlookup_copy ws_copy.copied_def using assms
  by (auto simp: hlookup_def IsHopByHopHeaderKey_def IsWSStripHeaderKey_def)

theorem CopyHeadersForWebSocket_strips_witness:
  "hlookup (CopyHeadersForWebSocket [] [(''upgrade'', [''websocket'']), (''Sec-WebSocket-Key'', [''x''])])
     ''Upgrade'' = []"
  by (rule CopyHeadersForWebSocket_strips) (simp add: hopByHopHeaderKeys_def)

text \<open>The hop-by-hop table spells \<^verbatim>\<open>TE\<close> as no canonical key does, so the \<^verbatim>\<open>TE\<close> header of a
  client is never recognised as hop-by-hop and is copied to the upstream WebSocket dial.\<close>

theorem CopyHeadersForWebSocket_keeps_TE:
  "\<not> IsHopByHopHeaderKey ''TE'' \<and> hlookup (CopyHeadersForWebSocket [] [(''Te'', vs)]) ''Te'' = vs"
proof -
  have c: "canonicalHeaderKey ''TE'' = ''Te''" "canonicalHeaderKey ''Te'' = ''Te''" by code_simp+
  have "''Te'' \<notin> set hopByHopHeaderKeys" by code_simp
  moreover have "''Te'' \<notin> set wsRequestStripKeys" by code_simp
  ultimately show ?thesis
    unfolding ws_copy.hlookup_copy ws_copy.copied_def
    by (simp add: hlookup_def IsHopByHopHeaderKey_def IsWSStripHeaderKey_def c)
qed

text \<open>The declared trailer keys are the non-empty canonical tokens of the \<^verbatim>\<open>Trailer\<close> values, each
  once, in increasing order.\<close>

theorem TrailerKeysFromHeader_sorted_set:
  "sorted (TrailerKeysFromHeader h) \<and> distinct (TrailerKeysFromHeader h) \<and>
   set (TrailerKeysFromHeader h) = set (header_tokens (hvalues h ''Trailer''))"
proof -
  have "TrailerKeysFromHeader h =
      sort (collect_unseen [] (map (\<lambda>t. canonicalHeaderKey (trimSpace t))
        (concat (map (splitOn CHR '','') (hvalues h ''Trailer'')))))"
    unfolding TrailerKeysFromHeader_def Let_def sort_if_many by simp
  then show ?thesis
    by (auto simp: collect_unseen_distinct collect_unseen_set header_tokens_def)
qed

text \<open>A sanitised close code is one that may be sent in a close frame (1000 to 4999, without the
  three reserved codes), and exactly such codes are left unchanged.\<close>

theorem SanitizeCloseCode_sendable:
  "SanitizeCloseCode c \<in> {1000..<5000} - {1005, 1006, 1015} \<and>
   (SanitizeCloseCode c = c \<longleftrightarrow> c \<in> {1000..<5000} - {1005, 1006, 1015})"
  by (auto simp: SanitizeCloseCode_def ws_consts)


text \<open>C38. For a request path without a \<^verbatim>\<open>..\<close> element the joined path stays below the base path: its
  elements are the base path's elements followed by the request's, empty and \<^verbatim>\<open>.\<close> elements dropped.\<close>

theorem JoinURL_confined:
  assumes "uPath base = [] \<or> rooted (uPath base)" and "rooted s"
    and "''..'' \<notin> set (path_elems (uPath base)) \<union> set (path_elems s)"
  shows "path_elems (uPath (JoinURL base s)) =
    filter (\<lambda>e. e \<noteq> ''.'') (path_elems (uPath base)) @ filter (\<lambda>e. e \<noteq> ''.'') (path_elems s)"
proof -
  have "filter (\<lambda>e. e \<noteq> [] \<and> e \<noteq> ''.'') (path_elems p) = filter (\<lambda>e. e \<noteq> ''.'') (path_elems p)" for p
    by (auto simp: path_elems_def intro: filter_cong)
  then show ?thesis
    using assms by (simp add: JoinURL_path clean_elems_no_dotdot)
qed

theorem JoinURL_confined_witness:
  "path_elems (uPath (JoinURL
       \<lparr>uScheme = ''http'', uOpaque = [], uUser = None, uHost = ''h'', uPath = ''/aaa'', uRawPath = [],
        uForceQuery = False, uRawQuery = [], uFragment = []\<rparr> ''/x/./y'')) = [''aaa'', ''x'', ''y'']"
  using JoinURL_confined [of "\<lparr>uScheme = ''http'', uOpaque = [], uUser = None, uHost = ''h'', uPath = ''/aaa'',
      uRawPath = [], uForceQuery = False, uRawQuery = [], uFragment = []\<rparr>" "''/x/./y''"]
  by (simp add: rooted_def hasPrefix_def path_elems_def)

text \<open>A request path with \<^verbatim>\<open>..\<close> elements leaves the base path: for every base path and every
  target path there is a request path, starting with a slash, that is joined to the target path.\<close>

theorem JoinURL_escapes:
  assumes "uPath base = [] \<or> rooted (uPath base)"
    and "\<forall>e \<in> set (path_elems (uPath base)) \<union> set tgt. normal_elem e \<and> CHR ''/'' \<notin> set e"
  shows "\<exists>s. rooted s \<and> path_elems (uPath (JoinURL base s)) = tgt"
proof -
  let ?up = "replicate (length (path_elems (uPath base))) ''..''"
  let ?s = "''/'' @ joinWith ''/'' (?up @ tgt)"
  have "\<forall>e \<in> set (?up @ tgt). e \<noteq> [] \<and> CHR ''/'' \<notin> set e"
    using assms(2) unfolding normal_elem_def by (simp add: ball_Un)
  then have es: "path_elems ?s = ?up @ tgt"
    by (simp only: path_elems_join append_Cons append_Nil path_elems_slash)
  have down: "clean_elems True out (xs @ ys) = clean_elems True (rev xs @ out) ys"
    if "\<forall>x \<in> set xs. normal_elem x" for out xs ys
    using that
  proof (induction xs arbitrary: out)
    case (Cons x xs)
    then have "x \<noteq> []" "x \<noteq> ''.''" "x \<noteq> ''..''" by (simp_all add: normal_elem_def)
    with Cons show ?case by simp
  qed simp
  have up: "clean_elems True xs (replicate (length xs) ''..'' @ ys) = clean_elems True [] ys"
    if "\<forall>x \<in> set xs. normal_elem x" for xs ys
    using that
  proof (induction xs)
    case (Cons x xs)
    then have "x \<noteq> ''..''" by (simp add: normal_elem_def)
    with Cons show ?case by simp
  qed simp
  have "clean_elems True [] (path_elems (uPath base) @ ?up @ tgt) = tgt"
    using assms(2) down [of "path_elems (uPath base)" "[]"] up [of "rev (path_elems (uPath base))"]
      down [of tgt "[]" "[]"] by simp
  then have "path_elems (uPath (JoinURL base ?s)) = tgt"
    using assms(1) by (simp add: JoinURL_path es [simplified] rooted_def hasPrefix_def)
  then show ?thesis by (intro exI [of _ ?s]) (simp add: rooted_def hasPrefix_def)
qed

theorem JoinURL_escapes_witness:
  "\<exists>s. rooted s \<and> path_elems (uPath (JoinURL
       \<lparr>uScheme = ''http'', uOpaque = [], uUser = None, uHost = ''h'', uPath = ''/aaa'', uRawPath = [],
        uForceQuery = False, uRawQuery = [], uFragment = []\<rparr> s)) = [''etc'']"
  by (rule JoinURL_escapes) (auto simp: rooted_def hasPrefix_def path_elems_def normal_elem_def)

text \<open>The proxy-mode normalisation accepts a spelling only to map it to one of the two canonical
  modes, and a canonical mode is mapped to itself.\<close>

theorem NormalizeProxyMode_canonical:
  "NormalizeProxyMode raw = Inr m \<Longrightarrow>
   m \<in> {ProxyModeLegacyFramed, ProxyModeTransparentTunnel} \<and> NormalizeProxyMode m = Inr m"
proof -
  have "NormalizeProxyMode ProxyModeLegacyFramed = Inr ProxyModeLegacyFramed"
    "NormalizeProxyMode ProxyModeTransparentTunnel = Inr ProxyModeTransparentTunnel" by code_simp+
  then show "NormalizeProxyMode raw = Inr m \<Longrightarrow>
    m \<in> {ProxyModeLegacyFramed, ProxyModeTransparentTunnel} \<and> NormalizeProxyMode m = Inr m"
    by (auto simp: NormalizeProxyMode_def [of raw] Let_def split: if_splits)
qed

theorem NormalizeProxyMode_canonical_witness:
  "NormalizeProxyMode '' Transparent'' = Inr ''transparent_tunnel'' \<and>
   NormalizeProxyMode ''transparent_tunnel'' = Inr ''transparent_tunnel''"
proof -
  have h: "NormalizeProxyMode '' Transparent'' = Inr ''transparent_tunnel''" by code_simp
  show ?thesis using h NormalizeProxyMode_canonical [OF h] by simp
qed

end
