(* ===== verification/Gateway_Conn.thy ===== *)
theory Gateway_Conn
  imports Proto Shared
begin

text \<open>
  \<^verbatim>\<open>internal/gateway/stream.go\<close> and \<^verbatim>\<open>internal/gateway/agentconn.go\<close>: one agent connection of the
  gateway and the streams multiplexed on it.

  Stream objects live in the list \<open>objs\<close> and are referred to by their position, the way the
  handlers hold pointers to them; \<open>streams\<close> is the map from stream identifiers to stream objects.
  A Go \<^verbatim>\<open>select\<close> with several ready cases may take any of them, so such an operation takes the choice
  as an argument.  The goroutine that \<^verbatim>\<open>sendReset\<close> starts is an entry of \<open>asyncq\<close> until it runs.

  Every operation is first defined as the whole call.  \<open>conn_step\<close> interleaves what may run concurrently and is
  finer: each step is what the code does under one lock, or one channel operation.  Closing a stream is two
  steps, the closing of its channel and its removal from the map, and between them its goroutine is an entry
  of \<open>closing\<close>; the teardown of the connection is split at its lock boundaries (\<open>closePhase\<close>); the read loop
  may deliver to a stream it looked up before other goroutines closed or removed it.  The whole calls are
  shown to be runs of these steps.
\<close>

section \<open>stream.go\<close>

definition streamReceiveQueueFrames :: nat where "streamReceiveQueueFrames = 640"

record stream =
  sid :: u32
  rx :: "Frame list"
  sclosed :: bool
  serr :: "string option"

datatype close_phase = NotClosing | ChClosed | Draining "nat list"

record agentConn =
  uuid :: string
  proxyModeRequested :: string
  proxyModeEffective :: string
  proxyModeReason :: string
  targetKind :: string
  nextStream :: u32
  streams :: "(u32 \<times> nat) list"
  maxStreams :: int
  connClosed :: bool
  closePhase :: close_phase
  closeReasonVal :: "string option"
  bornAt :: int
  lastActive :: int
  objs :: "stream list"
  wire :: "bytes list"
  asyncq :: "(byte \<times> u32 \<times> bytes) list"
  closing :: "(u32 \<times> string option) list"
  pongsSent :: "string list"

definition newStreamObj :: "u32 \<Rightarrow> stream" where
  "newStreamObj ident = \<lparr>sid = ident, rx = [], sclosed = False, serr = None\<rparr>"

definition updStream :: "agentConn \<Rightarrow> nat \<Rightarrow> (stream \<Rightarrow> stream) \<Rightarrow> agentConn" where
  "updStream c r g = c\<lparr>objs := (objs c)[r := g (objs c ! r)]\<rparr>"

definition forgetStream :: "agentConn \<Rightarrow> u32 \<Rightarrow> agentConn" where
  "forgetStream c ident = c\<lparr>streams := AList.delete ident (streams c)\<rparr>"

definition getStream :: "agentConn \<Rightarrow> u32 \<Rightarrow> nat option" where
  "getStream c ident = map_of (streams c) ident"

text \<open>\<open>ok\<close> is the outcome of \<^verbatim>\<open>ws.WriteMessage\<close>.\<close>

definition writeFrame :: "agentConn \<Rightarrow> byte \<Rightarrow> u32 \<Rightarrow> bytes \<Rightarrow> bool \<Rightarrow> string option \<times> agentConn" where
  "writeFrame c t ident payload ok =
     (if ok then (None, c\<lparr>wire := wire c @ [EncodeFrame t ident payload]\<rparr>)
      else (Some ''write failed'', c))"

text \<open>What \<^verbatim>\<open>closeOnce\<close> protects: the error is stored and the channel closed, then the stream is forgotten.\<close>

definition closeChannel :: "agentConn \<Rightarrow> nat \<Rightarrow> string option \<Rightarrow> agentConn" where
  "closeChannel c r err = updStream c r (\<lambda>s. s\<lparr>serr := err, sclosed := True\<rparr>)"

definition stream_closeWithErr :: "agentConn \<Rightarrow> nat \<Rightarrow> string option \<Rightarrow> agentConn" where
  "stream_closeWithErr c r err =
     (if sclosed (objs c ! r) then c else forgetStream (closeChannel c r err) (sid (objs c ! r)))"

definition sendReset :: "agentConn \<Rightarrow> u32 \<Rightarrow> string \<Rightarrow> agentConn" where
  "sendReset c ident reason = c\<lparr>asyncq := asyncq c @ [(TRst, ident, bytes_of reason)]\<rparr>"

definition stream_resetWithErr :: "agentConn \<Rightarrow> nat \<Rightarrow> string \<Rightarrow> agentConn" where
  "stream_resetWithErr c r reason =
     (if sclosed (objs c ! r) then c
      else sendReset (forgetStream (closeChannel c r (Some reason)) (sid (objs c ! r))) (sid (objs c ! r)) reason)"

text \<open>\<open>pickClosed\<close>: when both cases of the select are ready, the closed channel is taken.\<close>

definition stream_deliver :: "bool \<Rightarrow> agentConn \<Rightarrow> nat \<Rightarrow> Frame \<Rightarrow> agentConn" where
  "stream_deliver pickClosed c r f =
     (let s = objs c ! r; room = length (rx s) < streamReceiveQueueFrames
      in if room \<and> \<not> (sclosed s \<and> pickClosed) then updStream c r (\<lambda>s. s\<lparr>rx := rx s @ [f]\<rparr>)
         else if sclosed s then c
         else stream_resetWithErr c r ''stream rx overflow'')"

definition stream_send :: "agentConn \<Rightarrow> nat \<Rightarrow> byte \<Rightarrow> bytes \<Rightarrow> bool \<Rightarrow> string option \<times> agentConn" where
  "stream_send c r t payload ok =
     (if sclosed (objs c ! r) then (Some ''stream closed'', c)
      else writeFrame c t (sid (objs c ! r)) payload ok)"

definition stream_closeErr :: "stream \<Rightarrow> string" where
  "stream_closeErr s = (case serr s of Some e \<Rightarrow> e | None \<Rightarrow> ''stream closed'')"

datatype recv_case = SelRx | SelTimer | SelClosed

text \<open>The outcome of \<^verbatim>\<open>recv\<close> when its select takes a given case; \<open>None\<close> when that case is not ready.\<close>

fun stream_recv ::
  "agentConn \<Rightarrow> nat \<Rightarrow> int \<Rightarrow> recv_case \<Rightarrow> ((ioerr + Frame) \<times> agentConn) option" where
  "stream_recv c r deadline SelRx =
     (case rx (objs c ! r) of
        [] \<Rightarrow> None
      | f # fs \<Rightarrow> Some (Inr f, updStream c r (\<lambda>s. s\<lparr>rx := fs\<rparr>)))"
| "stream_recv c r deadline SelTimer =
     (if deadline > 0 then Some (Inl ErrStreamTimeout, c) else None)"
| "stream_recv c r deadline SelClosed =
     (if sclosed (objs c ! r) then Some (Inl (OtherErr (stream_closeErr (objs c ! r))), c) else None)"

section \<open>agentconn.go\<close>

definition markActive :: "agentConn \<Rightarrow> int \<Rightarrow> agentConn" where
  "markActive c now = c\<lparr>lastActive := now - bornAt c\<rparr>"

definition newAgentConn ::
  "string \<Rightarrow> string \<Rightarrow> string \<Rightarrow> string \<Rightarrow> string \<Rightarrow> int \<Rightarrow> int \<Rightarrow> agentConn" where
  "newAgentConn u requested effective reason kind maxS now =
     markActive
       \<lparr>uuid = u, proxyModeRequested = requested, proxyModeEffective = effective,
        proxyModeReason = reason, targetKind = kind, nextStream = 0, streams = [], maxStreams = maxS,
        connClosed = False, closePhase = NotClosing, closeReasonVal = None, bornAt = now,
        lastActive = 0, objs = [], wire = [], asyncq = [], closing = [], pongsSent = []\<rparr> now"

definition idleFor :: "agentConn \<Rightarrow> int \<Rightarrow> int" where
  "idleFor c now = (let idle = (now - bornAt c) - lastActive c in if idle < 0 then 0 else idle)"

definition activeStreamCount :: "agentConn \<Rightarrow> nat" where
  "activeStreamCount c = length (streams c)"

definition closeReason :: "agentConn \<Rightarrow> string" where
  "closeReason c =
     (case closeReasonVal c of
        Some s \<Rightarrow> if s \<noteq> [] then s else ''connection closed''
      | None \<Rightarrow> ''connection closed'')"

definition newStream :: "agentConn \<Rightarrow> (nat \<times> agentConn) result" where
  "newStream c =
     (if connClosed c then Inl ''agent disconnected''
      else if maxStreams c > 0 \<and> int (length (streams c)) \<ge> maxStreams c
      then Inl ''too many streams''
      else
        let ident1 = nextStream c + 1;
            ident = (if ident1 = 0 then ident1 + 1 else ident1);
            r = length (objs c)
        in Inr (r, c\<lparr>nextStream := ident, objs := objs c @ [newStreamObj ident],
                    streams := AList.update ident r (streams c)\<rparr>))"

text \<open>The three lock regions of the connection's \<^verbatim>\<open>closeWithErr\<close>.\<close>

definition close_begin :: "agentConn \<Rightarrow> string option \<Rightarrow> agentConn" where
  "close_begin c err =
     (if closePhase c \<noteq> NotClosing then c
      else c\<lparr>closeReasonVal := Some (case err of None \<Rightarrow> ''connection closed'' | Some e \<Rightarrow> e),
             connClosed := True, closePhase := ChClosed\<rparr>)"

definition close_snapshot :: "agentConn \<Rightarrow> agentConn" where
  "close_snapshot c =
     (case closePhase c of
        ChClosed \<Rightarrow> c\<lparr>closePhase := Draining (map snd (streams c)), streams := []\<rparr>
      | _ \<Rightarrow> c)"

definition close_drain1 :: "agentConn \<Rightarrow> agentConn" where
  "close_drain1 c =
     (case closePhase c of
        Draining (r # rs) \<Rightarrow>
          (stream_closeWithErr c r (Some ''agent disconnected''))\<lparr>closePhase := Draining rs\<rparr>
      | _ \<Rightarrow> c)"

fun drain_all :: "nat list \<Rightarrow> agentConn \<Rightarrow> agentConn" where
  "drain_all [] c = c"
| "drain_all (r # rs) c = drain_all rs (close_drain1 c)"

definition agentConn_closeWithErr :: "agentConn \<Rightarrow> string option \<Rightarrow> agentConn" where
  "agentConn_closeWithErr c err =
     (if closePhase c \<noteq> NotClosing then c
      else drain_all (map snd (streams c)) (close_snapshot (close_begin c err)))"

text \<open>
  One message read by \<^verbatim>\<open>readLoop\<close>: \<open>mt\<close> and \<open>msg\<close> as \<^verbatim>\<open>ReadMessage\<close> returns them.  The loop ends
  when a read fails.
\<close>

definition readLoop_msg :: "bool \<Rightarrow> agentConn \<Rightarrow> int \<Rightarrow> int \<Rightarrow> bytes \<Rightarrow> agentConn" where
  "readLoop_msg pickClosed c now mt msg =
     (let c = markActive c now
      in if mt \<noteq> BinaryMessage then c
         else case DecodeFrame msg of
                Inl _ \<Rightarrow> c
              | Inr f \<Rightarrow> (case getStream c (Stream f) of
                           None \<Rightarrow> c
                         | Some r \<Rightarrow> stream_deliver pickClosed c r f))"

text \<open>
  The ping handler installed by \<^verbatim>\<open>readLoop\<close> marks the connection active and answers with a pong of the same
  data; \<open>ok\<close> is the outcome of the write, whose error becomes the error of the read.
\<close>

definition ping_handler :: "agentConn \<Rightarrow> int \<Rightarrow> string \<Rightarrow> bool \<Rightarrow> string option \<times> agentConn" where
  "ping_handler c now appData ok =
     (let c = markActive c now
      in if ok then (None, c\<lparr>pongsSent := pongsSent c @ [appData]\<rparr>) else (Some ''write failed'', c))"

datatype read_event = ReadMsg bool int int bytes | ReadPing int string bool

fun readLoop :: "agentConn \<Rightarrow> read_event list \<Rightarrow> agentConn" where
  "readLoop c [] = agentConn_closeWithErr c (Some ''readLoop exit'')"
| "readLoop c (ReadMsg pick now mt msg # ms) = readLoop (readLoop_msg pick c now mt msg) ms"
| "readLoop c (ReadPing now appData ok # ms) =
     (case ping_handler c now appData ok of
        (None, c') \<Rightarrow> readLoop c' ms
      | (Some _, c') \<Rightarrow> agentConn_closeWithErr c' (Some ''readLoop exit''))"

text \<open>A goroutine of \<^verbatim>\<open>sendReset\<close> runs.\<close>

definition run_async :: "agentConn \<Rightarrow> nat \<Rightarrow> bool \<Rightarrow> agentConn" where
  "run_async c i ok =
     (case asyncq c ! i of
        (t, ident, p) \<Rightarrow>
          snd (writeFrame (c\<lparr>asyncq := take i (asyncq c) @ drop (Suc i) (asyncq c)\<rparr>) t ident p ok))"

section \<open>Interleaving\<close>

text \<open>
  The two steps of closing a stream: the first caller closes the channel, and is then about to forget the stream
  and, when it resets it, to start the goroutine that says so.
\<close>

definition closer_start :: "agentConn \<Rightarrow> nat \<Rightarrow> string option \<Rightarrow> string option \<Rightarrow> agentConn" where
  "closer_start c r err reset =
     (if sclosed (objs c ! r) then c
      else (closeChannel c r err)\<lparr>closing := closing c @ [(sid (objs c ! r), reset)]\<rparr>)"

definition closer_finish :: "agentConn \<Rightarrow> nat \<Rightarrow> agentConn" where
  "closer_finish c i =
     (case closing c ! i of
        (ident, reset) \<Rightarrow>
          let c1 = forgetStream (c\<lparr>closing := take i (closing c) @ drop (Suc i) (closing c)\<rparr>) ident
          in case reset of None \<Rightarrow> c1 | Some reason \<Rightarrow> sendReset c1 ident reason)"

definition deliver_start :: "bool \<Rightarrow> agentConn \<Rightarrow> nat \<Rightarrow> Frame \<Rightarrow> agentConn" where
  "deliver_start pickClosed c r f =
     (let s = objs c ! r; room = length (rx s) < streamReceiveQueueFrames
      in if room \<and> \<not> (sclosed s \<and> pickClosed) then updStream c r (\<lambda>s. s\<lparr>rx := rx s @ [f]\<rparr>)
         else if sclosed s then c
         else closer_start c r (Some ''stream rx overflow'') (Some ''stream rx overflow''))"

definition drain_start :: "agentConn \<Rightarrow> agentConn" where
  "drain_start c =
     (case closePhase c of
        Draining (r # rs) \<Rightarrow> (closer_start c r (Some ''agent disconnected'') None)\<lparr>closePhase := Draining rs\<rparr>
      | _ \<Rightarrow> c)"

inductive conn_step :: "agentConn \<Rightarrow> agentConn \<Rightarrow> bool" where
  open_stream: "newStream c = Inr (r, c') \<Longrightarrow> conn_step c c'"
| active: "conn_step c (markActive c now)"
| deliver: "r < length (objs c) \<Longrightarrow> sid (objs c ! r) = Stream f \<Longrightarrow> conn_step c (deliver_start pick c r f)"
| ping: "conn_step c (snd (ping_handler c now appData ok))"
| recv: "r < length (objs c) \<Longrightarrow> stream_recv c r d sel = Some (res, c') \<Longrightarrow> conn_step c c'"
| send: "r < length (objs c) \<Longrightarrow> stream_send c r t p ok = (e, c') \<Longrightarrow> conn_step c c'"
| close_stream: "r < length (objs c) \<Longrightarrow> conn_step c (closer_start c r err None)"
| forget: "i < length (closing c) \<Longrightarrow> conn_step c (closer_finish c i)"
| reset_sent: "i < length (asyncq c) \<Longrightarrow> conn_step c (run_async c i ok)"
| close_begins: "conn_step c (close_begin c err)"
| close_snapshots: "conn_step c (close_snapshot c)"
| close_drains: "conn_step c (drain_start c)"

definition conn_init :: "agentConn \<Rightarrow> bool" where
  "conn_init c \<longleftrightarrow> (\<exists>u rq ef rs k m now. c = newAgentConn u rq ef rs k m now)"

definition conn_reach :: "agentConn \<Rightarrow> bool" where
  "conn_reach c \<longleftrightarrow> (\<exists>c0. conn_init c0 \<and> conn_step\<^sup>*\<^sup>* c0 c)"

section \<open>Invariant\<close>

definition draining :: "agentConn \<Rightarrow> nat list" where
  "draining c = (case closePhase c of Draining rs \<Rightarrow> rs | _ \<Rightarrow> [])"

definition conn_inv :: "agentConn \<Rightarrow> bool" where
  "conn_inv c \<longleftrightarrow>
     distinct (map fst (streams c)) \<and>
     (\<forall>i r. map_of (streams c) i = Some r \<longrightarrow>
        r < length (objs c) \<and> sid (objs c ! r) = i \<and> (sclosed (objs c ! r) \<longrightarrow> i \<in> fst ` set (closing c))) \<and>
     (\<forall>i \<in> fst ` set (closing c). \<exists>r < length (objs c). sid (objs c ! r) = i \<and> sclosed (objs c ! r)) \<and>
     (\<forall>s \<in> set (objs c). length (rx s) \<le> streamReceiveQueueFrames \<and> sid s \<noteq> 0) \<and>
     (maxStreams c > 0 \<longrightarrow> int (length (streams c)) \<le> maxStreams c) \<and>
     (connClosed c \<longleftrightarrow> closePhase c \<noteq> NotClosing) \<and>
     (\<forall>rs. closePhase c = Draining rs \<longrightarrow> streams c = [] \<and> (\<forall>r \<in> set rs. r < length (objs c)))"

text \<open>Until stream identifiers wrap around, an open stream is in the map or about to be closed.\<close>

definition conn_noleak :: "agentConn \<Rightarrow> bool" where
  "conn_noleak c \<longleftrightarrow>
     (length (objs c) < 2 ^ 32 \<longrightarrow>
        nextStream c = of_nat (length (objs c)) \<and>
        (\<forall>r < length (objs c). sid (objs c ! r) = of_nat (Suc r)) \<and>
        (\<forall>r < length (objs c). \<not> sclosed (objs c ! r) \<longrightarrow>
           map_of (streams c) (sid (objs c ! r)) = Some r \<or> r \<in> set (draining c)))"

text \<open>Taking the next frame of a stream's queue, if there is one.\<close>

definition poll_rx :: "nat \<Rightarrow> agentConn \<Rightarrow> (Frame \<times> agentConn) option" where
  "poll_rx r c = (case stream_recv c r 0 SelRx of Some (Inr f, c') \<Rightarrow> Some (f, c') | _ \<Rightarrow> None)"

section \<open>Lemmas\<close>

lemma updStream_sel [simp]:
  "objs (updStream c r g) = (objs c)[r := g (objs c ! r)]"
  "streams (updStream c r g) = streams c"
  "maxStreams (updStream c r g) = maxStreams c"
  "connClosed (updStream c r g) = connClosed c"
  "closePhase (updStream c r g) = closePhase c"
  "nextStream (updStream c r g) = nextStream c"
  "wire (updStream c r g) = wire c"
  "asyncq (updStream c r g) = asyncq c"
  "closing (updStream c r g) = closing c"
  by (simp_all add: updStream_def)

lemma closeChannel_sel [simp]:
  "objs (closeChannel c r err) = (objs c)[r := (objs c ! r)\<lparr>serr := err, sclosed := True\<rparr>]"
  "streams (closeChannel c r err) = streams c"
  "maxStreams (closeChannel c r err) = maxStreams c"
  "connClosed (closeChannel c r err) = connClosed c"
  "closePhase (closeChannel c r err) = closePhase c"
  "nextStream (closeChannel c r err) = nextStream c"
  "asyncq (closeChannel c r err) = asyncq c"
  "closing (closeChannel c r err) = closing c"
  by (simp_all add: closeChannel_def)

lemma conn_inv_cong:
  assumes "conn_inv c" "streams c' = streams c" "objs c' = objs c" "maxStreams c' = maxStreams c"
    "connClosed c' = connClosed c" "closePhase c' = closePhase c" "closing c' = closing c"
  shows "conn_inv c'"
  using assms by (simp add: conn_inv_def)

lemma conn_inv_objD:
  assumes "conn_inv c" and "r < length (objs c)"
  shows "length (rx (objs c ! r)) \<le> streamReceiveQueueFrames" and "sid (objs c ! r) \<noteq> 0"
  using assms by (auto simp: conn_inv_def)

lemma conn_inv_mapD:
  assumes "conn_inv c" and "map_of (streams c) i = Some r"
  shows "r < length (objs c)" and "sid (objs c ! r) = i" and "sclosed (objs c ! r) \<Longrightarrow> i \<in> fst ` set (closing c)"
  using assms by (auto simp: conn_inv_def)

lemma conn_inv_closingD:
  assumes "conn_inv c" and "(i, w) \<in> set (closing c)"
  obtains r where "r < length (objs c)" "sid (objs c ! r) = i" "sclosed (objs c ! r)"
  using assms unfolding conn_inv_def by (metis fst_conv image_eqI)

text \<open>A change of one stream object that keeps its identifier and its bound, and may close it once its removal is due.\<close>

lemma conn_inv_upd:
  assumes "conn_inv c" and "r < length (objs c)"
    and "sid (g (objs c ! r)) = sid (objs c ! r)" and "sclosed (objs c ! r) \<Longrightarrow> sclosed (g (objs c ! r))"
    and "length (rx (g (objs c ! r))) \<le> streamReceiveQueueFrames"
    and "set (closing c) \<subseteq> set cs" and "\<forall>i \<in> fst ` set cs. i \<notin> fst ` set (closing c) \<longrightarrow> i = sid (objs c ! r) \<and> sclosed (g (objs c ! r))"
    and "sclosed (g (objs c ! r)) \<Longrightarrow> sclosed (objs c ! r) \<or> sid (objs c ! r) \<in> fst ` set cs"
  shows "conn_inv ((updStream c r g)\<lparr>closing := cs\<rparr>)" (is "conn_inv ?c")
proof -
  have map: "q < length (objs ?c) \<and> sid (objs ?c ! q) = i \<and> (sclosed (objs ?c ! q) \<longrightarrow> i \<in> fst ` set (closing ?c))"
    if "map_of (streams ?c) i = Some q" for i q
    using that conn_inv_mapD [OF assms(1), of i q] assms(2,3,6,8) by (cases "q = r") (auto simp: image_iff)
  have cl: "\<exists>q < length (objs ?c). sid (objs ?c ! q) = i \<and> sclosed (objs ?c ! q)" if i: "i \<in> fst ` set cs" for i
  proof (cases "i \<in> fst ` set (closing c)")
    case True
    then obtain w where "(i, w) \<in> set (closing c)" by auto
    then obtain q where "q < length (objs c)" "sid (objs c ! q) = i" "sclosed (objs c ! q)"
      by (rule conn_inv_closingD [OF assms(1)])
    then show ?thesis using assms(2-4) by (intro exI [of _ q]) (cases "q = r", auto)
  next
    case False
    then show ?thesis using assms(2,3,7) i by (intro exI [of _ r]) auto
  qed
  have "\<forall>s \<in> set (objs ?c). length (rx s) \<le> streamReceiveQueueFrames \<and> sid s \<noteq> 0"
    using assms(1-3,5) conn_inv_objD [OF assms(1,2)]
    by (auto simp: conn_inv_def dest!: set_update_subset_insert [THEN subsetD])
  then show ?thesis using assms(1) map cl by (auto simp: conn_inv_def)
qed

lemma conn_inv_updRx:
  assumes "conn_inv c" and "r < length (objs c)" and "length (h (objs c ! r)) \<le> streamReceiveQueueFrames"
  shows "conn_inv (updStream c r (\<lambda>s. s\<lparr>rx := h s\<rparr>))"
  using conn_inv_upd [OF assms(1,2), of "\<lambda>s. s\<lparr>rx := h s\<rparr>" "closing c"] assms(3) by (auto elim: conn_inv_cong)

lemma conn_inv_closer_start:
  assumes "conn_inv c" and "r < length (objs c)"
  shows "conn_inv (closer_start c r err w)"
proof (cases "sclosed (objs c ! r)")
  case False
  have "conn_inv ((updStream c r (\<lambda>s. s\<lparr>serr := err, sclosed := True\<rparr>))\<lparr>closing := closing c @ [(sid (objs c ! r), w)]\<rparr>)"
    using assms conn_inv_objD [OF assms] by (intro conn_inv_upd) auto
  then show ?thesis using False by (simp add: closer_start_def closeChannel_def)
qed (simp add: closer_start_def assms)

lemma conn_inv_sendReset: "conn_inv c \<Longrightarrow> conn_inv (sendReset c i reason)"
  by (erule conn_inv_cong) (simp_all add: sendReset_def)

lemma conn_inv_closer_finish:
  assumes "conn_inv c" and "i < length (closing c)"
  shows "conn_inv (closer_finish c i)"
proof -
  obtain k w where k: "closing c ! i = (k, w)" by (cases "closing c ! i")
  let ?cs = "take i (closing c) @ drop (Suc i) (closing c)"
  let ?c = "forgetStream (c\<lparr>closing := ?cs\<rparr>) k"
  have "closing c = take i (closing c) @ (k, w) # drop (Suc i) (closing c)"
    using k assms(2) by (metis id_take_nth_drop)
  then have cs: "set (closing c) = insert (k, w) (set ?cs)" by (metis Un_insert_right list.simps(15) set_append)
  have len: "length (AList.delete k (streams c)) \<le> length (streams c)" by (simp add: AList.delete_eq)
  have map: "r < length (objs c) \<and> sid (objs c ! r) = j \<and> (sclosed (objs c ! r) \<longrightarrow> j \<in> fst ` set ?cs)"
    if "map_of (AList.delete k (streams c)) j = Some r" for j r
    using that conn_inv_mapD [OF assms(1), of j r] cs by (auto simp: AList.delete_conv' split: if_splits)
  have "\<exists>r < length (objs c). sid (objs c ! r) = j \<and> sclosed (objs c ! r)" if "j \<in> fst ` set ?cs" for j
    using that assms(1) cs unfolding conn_inv_def by blast
  then have "conn_inv ?c"
    using assms(1) len map by (auto simp: conn_inv_def forgetStream_def AList.distinct_delete)
  then show ?thesis using k by (auto simp: closer_finish_def Let_def conn_inv_sendReset split: option.splits)
qed

lemma conn_inv_deliver_start:
  "conn_inv c \<Longrightarrow> r < length (objs c) \<Longrightarrow> conn_inv (deliver_start pick c r f)"
  unfolding deliver_start_def Let_def
  by (auto intro: conn_inv_updRx conn_inv_closer_start)

lemma conn_inv_markActive: "conn_inv c \<Longrightarrow> conn_inv (markActive c now)"
  by (erule conn_inv_cong) (simp_all add: markActive_def)

lemma markActive_sel [simp]:
  "streams (markActive c now) = streams c" "objs (markActive c now) = objs c"
  by (simp_all add: markActive_def)

lemma conn_inv_ping: "conn_inv c \<Longrightarrow> conn_inv (snd (ping_handler c now appData ok))"
  by (erule conn_inv_cong) (simp_all add: ping_handler_def markActive_def Let_def)

lemma conn_inv_recv:
  assumes "conn_inv c" "r < length (objs c)" "stream_recv c r d sel = Some (res, c')"
  shows "conn_inv c'"
  using assms conn_inv_objD(1) [OF assms(1,2)]
  by (cases sel) (auto split: list.splits if_splits intro!: conn_inv_updRx)

lemma conn_inv_writeFrame: "conn_inv c \<Longrightarrow> writeFrame c t i p ok = (e, c') \<Longrightarrow> conn_inv c'"
  by (auto simp: writeFrame_def split: if_splits elim!: conn_inv_cong)

lemma conn_inv_send: "conn_inv c \<Longrightarrow> stream_send c r t p ok = (e, c') \<Longrightarrow> conn_inv c'"
  by (auto simp: stream_send_def split: if_splits dest: conn_inv_writeFrame)

lemma conn_inv_run_async: "conn_inv c \<Longrightarrow> conn_inv (run_async c i ok)"
  by (auto simp: run_async_def writeFrame_def split: prod.splits elim!: conn_inv_cong)

lemma conn_inv_newStream:
  assumes "conn_inv c" and "newStream c = Inr (r, c')"
  shows "conn_inv c'"
proof -
  define i where "i = (if nextStream c + 1 = 0 then nextStream c + 1 + 1 else nextStream c + 1)"
  have nz: "i \<noteq> 0" by (simp add: i_def)
  have open_c: "\<not> connClosed c" and room: "maxStreams c > 0 \<Longrightarrow> int (length (streams c)) < maxStreams c"
    and c': "c' = c\<lparr>nextStream := i, objs := objs c @ [newStreamObj i],
      streams := AList.update i (length (objs c)) (streams c)\<rparr>"
    using assms(2) by (auto simp: newStream_def Let_def i_def split: if_splits)
  have len: "length (AList.update i q xs) \<le> Suc (length xs)" for q and xs :: "(u32 \<times> nat) list"
    by (induction xs) auto
  have map: "r' < length (objs c') \<and> sid (objs c' ! r') = j \<and> (sclosed (objs c' ! r') \<longrightarrow> j \<in> fst ` set (closing c'))"
    if "map_of (streams c') j = Some r'" for j r'
    using that conn_inv_mapD [OF assms(1), of j r']
    by (auto simp: c' AList.update_conv' nth_append newStreamObj_def split: if_splits)
  have cl: "\<exists>q < length (objs c'). sid (objs c' ! q) = j \<and> sclosed (objs c' ! q)" if "j \<in> fst ` set (closing c')" for j
  proof -
    from that obtain w where "(j, w) \<in> set (closing c)" by (auto simp: c')
    then obtain q where "q < length (objs c)" "sid (objs c ! q) = j" "sclosed (objs c ! q)"
      by (rule conn_inv_closingD [OF assms(1)])
    then show ?thesis by (intro exI [of _ q]) (simp add: c' nth_append)
  qed
  have max: "maxStreams c' > 0 \<longrightarrow> int (length (streams c')) \<le> maxStreams c'"
    using room len [of "length (objs c)" "streams c"] by (auto simp: c')
  show ?thesis
    using assms(1) open_c map cl max nz
    by (auto simp: conn_inv_def c' newStreamObj_def AList.distinct_update)
qed

lemma conn_inv_close_phases:
  assumes "conn_inv c"
  shows "conn_inv (close_begin c err)" "conn_inv (close_snapshot c)" "conn_inv (drain_start c)"
proof -
  show "conn_inv (close_begin c err)"
    using assms by (auto simp: conn_inv_def close_begin_def)
  have "r < length (objs c)" if "(i, r) \<in> set (streams c)" for i r
    using that assms conn_inv_mapD(1) [OF assms, of i r] by (simp add: conn_inv_def)
  then show "conn_inv (close_snapshot c)"
    using assms by (auto simp: conn_inv_def close_snapshot_def split: close_phase.splits)
  show "conn_inv (drain_start c)"
  proof (cases "\<exists>q qs. closePhase c = Draining (q # qs)")
    case True
    then obtain q qs where ph: "closePhase c = Draining (q # qs)" by blast
    then have q: "streams c = []" "q < length (objs c)" "\<forall>r \<in> set qs. r < length (objs c)" "connClosed c"
      using assms by (auto simp: conn_inv_def)
    let ?d = "closer_start c q (Some ''agent disconnected'') None"
    have "conn_inv ?d" using assms q(2) by (rule conn_inv_closer_start)
    moreover have "streams ?d = streams c" "length (objs ?d) = length (objs c)" "connClosed ?d = connClosed c"
      by (simp_all add: closer_start_def)
    ultimately show ?thesis using q ph by (auto simp: drain_start_def conn_inv_def)
  qed (use assms in \<open>auto simp: drain_start_def split: close_phase.splits list.splits\<close>)
qed

lemma conn_inv_step: "conn_step c c' \<Longrightarrow> conn_inv c \<Longrightarrow> conn_inv c'"
  by (induction rule: conn_step.induct)
    (auto intro: conn_inv_newStream conn_inv_markActive conn_inv_deliver_start conn_inv_ping conn_inv_recv
      conn_inv_send conn_inv_closer_start conn_inv_closer_finish conn_inv_run_async conn_inv_close_phases)

subsection \<open>The whole calls are runs of the steps\<close>

lemma closer_run:
  assumes "\<not> sclosed (objs c ! r)"
  shows "closer_finish (closer_start c r err w) (length (closing c)) =
    (let c1 = forgetStream (closeChannel c r err) (sid (objs c ! r))
     in case w of None \<Rightarrow> c1 | Some reason \<Rightarrow> sendReset c1 (sid (objs c ! r)) reason)"
  using assms
  by (simp add: closer_finish_def closer_start_def closeChannel_def updStream_def forgetStream_def sendReset_def Let_def
      split: option.splits)

lemma closer_steps:
  assumes "r < length (objs c)" and "conn_step\<^sup>*\<^sup>* c0 (closer_start c r err w)" and "\<not> sclosed (objs c ! r)"
  shows "conn_step\<^sup>*\<^sup>* c0 (closer_finish (closer_start c r err w) (length (closing c)))"
proof -
  have "length (closing c) < length (closing (closer_start c r err w))" using assms(3) by (simp add: closer_start_def)
  from conn_step.forget [OF this] show ?thesis using assms(2) by (rule rtranclp.rtrancl_into_rtrancl [rotated])
qed

lemma steps_closeWithErr:
  assumes "r < length (objs c)"
  shows "conn_step\<^sup>*\<^sup>* c (stream_closeWithErr c r err)"
proof (cases "sclosed (objs c ! r)")
  case False
  have "conn_step\<^sup>*\<^sup>* c (closer_start c r err None)" using conn_step.close_stream [OF assms] by blast
  from closer_steps [OF assms this False] show ?thesis
    unfolding closer_run [OF False] using False by (simp add: stream_closeWithErr_def Let_def)
qed (simp add: stream_closeWithErr_def)

lemma steps_deliver:
  assumes "r < length (objs c)" and "sid (objs c ! r) = Stream f"
  shows "conn_step\<^sup>*\<^sup>* c (stream_deliver pick c r f)"
proof -
  have s: "conn_step\<^sup>*\<^sup>* c (deliver_start pick c r f)" using conn_step.deliver [OF assms] by blast
  show ?thesis
  proof (cases "length (rx (objs c ! r)) < streamReceiveQueueFrames \<or> sclosed (objs c ! r)")
    case True
    then have "stream_deliver pick c r f = deliver_start pick c r f" by (auto simp: stream_deliver_def deliver_start_def Let_def)
    with s show ?thesis by simp
  next
    case False
    let ?e = "Some ''stream rx overflow''"
    have "deliver_start pick c r f = closer_start c r ?e ?e" using False by (simp add: deliver_start_def Let_def)
    with s have "conn_step\<^sup>*\<^sup>* c (closer_start c r ?e ?e)" by simp
    from closer_steps [OF assms(1) this] False show ?thesis
      by (simp add: closer_run stream_deliver_def stream_resetWithErr_def Let_def)
  qed
qed

lemma steps_readLoop_msg:
  assumes "conn_inv c"
  shows "conn_step\<^sup>*\<^sup>* c (readLoop_msg pick c now mt msg)"
proof -
  have m: "conn_step\<^sup>*\<^sup>* c (markActive c now)" using conn_step.active by blast
  have "conn_step\<^sup>*\<^sup>* c (stream_deliver pick (markActive c now) r f)" if "getStream (markActive c now) (Stream f) = Some r" for f r
    using m steps_deliver [of r "markActive c now" f pick] that conn_inv_mapD [OF assms, of "Stream f" r]
    by (auto simp: getStream_def)
  with m show ?thesis by (auto simp: readLoop_msg_def Let_def split: sum.splits option.splits)
qed

lemma steps_drain1:
  assumes "conn_inv c"
  shows "conn_step\<^sup>*\<^sup>* c (close_drain1 c)"
proof (cases "\<exists>q qs. closePhase c = Draining (q # qs) \<and> \<not> sclosed (objs c ! q)")
  case True
  then obtain q qs where ph: "closePhase c = Draining (q # qs)" and op: "\<not> sclosed (objs c ! q)" by blast
  let ?d = "drain_start c"
  have d: "?d = (closer_start c q (Some ''agent disconnected'') None)\<lparr>closePhase := Draining qs\<rparr>"
    using ph by (simp add: drain_start_def)
  have "length (closing c) < length (closing ?d)" using op by (simp add: d closer_start_def)
  then have "conn_step ?d (closer_finish ?d (length (closing c)))" by (rule conn_step.forget)
  moreover have "closer_finish ?d (length (closing c)) = close_drain1 c"
    using op ph by (simp add: d close_drain1_def closer_finish_def closer_start_def closeChannel_def updStream_def
        forgetStream_def stream_closeWithErr_def Let_def)
  ultimately show ?thesis using conn_step.close_drains [of c] by (metis converse_rtranclp_into_rtranclp r_into_rtranclp)
next
  case False
  then have "close_drain1 c = drain_start c"
    by (auto simp: close_drain1_def drain_start_def stream_closeWithErr_def closer_start_def split: close_phase.splits list.splits)
  then show ?thesis using conn_step.close_drains [of c] by simp
qed

lemma conn_inv_steps: "conn_step\<^sup>*\<^sup>* c c' \<Longrightarrow> conn_inv c \<Longrightarrow> conn_inv c'"
  by (induction rule: rtranclp_induct) (auto intro: conn_inv_step)

lemma conn_inv_deliver:
  assumes "conn_inv c" and "r < length (objs c)"
  shows "conn_inv (stream_deliver pick c r f)"
  using conn_inv_steps [OF steps_deliver [of r c "f\<lparr>Stream := sid (objs c ! r)\<rparr>" pick] assms(1)] assms
  by (auto simp: stream_deliver_def Let_def split: if_splits intro: conn_inv_updRx)

lemma conn_inv_newAgentConn: "conn_inv (newAgentConn u rq ef rs k m now)"
  by (simp add: conn_inv_def newAgentConn_def markActive_def)

lemma of_nat_u32_inject:
  assumes "a < 2 ^ 32" "b < 2 ^ 32" "(of_nat a :: u32) = of_nat b"
  shows "a = b"
proof -
  have "unat (of_nat a :: u32) = a" "unat (of_nat b :: u32) = b"
    using assms(1,2) by (simp_all add: unat_of_nat)
  with assms(3) show ?thesis by metis
qed

lemma noleakD:
  assumes "conn_noleak c" "length (objs c) < 2 ^ 32"
  shows "nextStream c = of_nat (length (objs c))"
    and "r < length (objs c) \<Longrightarrow> sid (objs c ! r) = of_nat (Suc r)"
    and "r < length (objs c) \<Longrightarrow> \<not> sclosed (objs c ! r) \<Longrightarrow>
      map_of (streams c) (sid (objs c ! r)) = Some r \<or> r \<in> set (draining c)"
  using assms unfolding conn_noleak_def by blast+

lemma noleak_cong:
  assumes "conn_noleak c" "streams c' = streams c" "nextStream c' = nextStream c"
    "draining c' = draining c" "map (\<lambda>s. (sid s, sclosed s)) (objs c') = map (\<lambda>s. (sid s, sclosed s)) (objs c)"
  shows "conn_noleak c'"
proof -
  have len: "length (objs c') = length (objs c)" using assms(5) by (rule map_eq_imp_length_eq)
  have "sid (objs c' ! r) = sid (objs c ! r) \<and> sclosed (objs c' ! r) = sclosed (objs c ! r)"
    if "r < length (objs c)" for r
    using arg_cong [OF assms(5), of "\<lambda>xs. xs ! r"] that len by simp
  then show ?thesis
    unfolding conn_noleak_def using noleakD [OF assms(1)] assms(2,3,4) len by (metis (no_types))
qed

lemma noleak_updRx:
  assumes "conn_noleak c" and "sid (g (objs c ! r)) = sid (objs c ! r)"
    and "sclosed (g (objs c ! r)) = sclosed (objs c ! r)"
  shows "conn_noleak (updStream c r g)"
proof (rule noleak_cong [OF assms(1)])
  show "map (\<lambda>s. (sid s, sclosed s)) (objs (updStream c r g)) = map (\<lambda>s. (sid s, sclosed s)) (objs c)"
    using assms(2,3) by (cases "r < length (objs c)") (auto simp: map_update list_update_beyond
        intro: list_update_same_conv [THEN iffD2])
qed (simp_all add: draining_def)

lemma noleak_sendReset: "conn_noleak c \<Longrightarrow> conn_noleak (sendReset c i reason)"
  by (erule noleak_cong) (simp_all add: sendReset_def draining_def)

lemma noleak_closer_start:
  assumes nl: "conn_noleak c" and r: "r < length (objs c)"
  shows "conn_noleak (closer_start c r err w)" (is "conn_noleak ?c")
  unfolding conn_noleak_def
proof (intro impI conjI allI)
  have sel: "length (objs ?c) = length (objs c)" "nextStream ?c = nextStream c" "streams ?c = streams c" "draining ?c = draining c"
    by (simp_all add: closer_start_def draining_def)
  have o: "sid (objs ?c ! q) = sid (objs c ! q)" "\<not> sclosed (objs ?c ! q) \<Longrightarrow> \<not> sclosed (objs c ! q)" if "q < length (objs c)" for q
    using that by (cases "q = r"; auto simp: closer_start_def split: if_splits)+
  assume "length (objs ?c) < 2 ^ 32"
  then have len: "length (objs c) < 2 ^ 32" by (simp add: sel)
  note D = noleakD [OF nl len]
  show "nextStream ?c = of_nat (length (objs ?c))" using D(1) by (simp add: sel)
  fix q assume "q < length (objs ?c)"
  then have q: "q < length (objs c)" by (simp add: sel)
  show "sid (objs ?c ! q) = of_nat (Suc q)" using D(2) [OF q] o(1) [OF q] by simp
  assume "\<not> sclosed (objs ?c ! q)"
  then show "map_of (streams ?c) (sid (objs ?c ! q)) = Some q \<or> q \<in> set (draining ?c)"
    using D(3) [OF q] o [OF q] by (simp add: sel)
qed

lemma noleak_closer_finish:
  assumes nl: "conn_noleak c" and inv: "conn_inv c" and i: "i < length (closing c)"
  shows "conn_noleak (closer_finish c i)"
proof -
  obtain k w where k: "closing c ! i = (k, w)" by (cases "closing c ! i")
  then have "(k, w) \<in> set (closing c)" using i by (metis nth_mem)
  then obtain r where r: "r < length (objs c)" "sid (objs c ! r) = k" "sclosed (objs c ! r)"
    by (rule conn_inv_closingD [OF inv])
  let ?c = "forgetStream (c\<lparr>closing := take i (closing c) @ drop (Suc i) (closing c)\<rparr>) k"
  have "conn_noleak ?c" unfolding conn_noleak_def
  proof (intro impI conjI allI)
    assume "length (objs ?c) < 2 ^ 32"
    then have len: "length (objs c) < 2 ^ 32" by (simp add: forgetStream_def)
    note D = noleakD [OF nl len]
    show "nextStream ?c = of_nat (length (objs ?c))" using D(1) by (simp add: forgetStream_def)
    fix q assume "q < length (objs ?c)"
    then have q: "q < length (objs c)" by (simp add: forgetStream_def)
    then show "sid (objs ?c ! q) = of_nat (Suc q)" using D(2) [OF q] by (simp add: forgetStream_def)
    assume "\<not> sclosed (objs ?c ! q)"
    then have op: "\<not> sclosed (objs c ! q)" and "q \<noteq> r" using r by (auto simp: forgetStream_def)
    then have "sid (objs c ! q) \<noteq> k"
      using of_nat_u32_inject [of "Suc q" "Suc r"] D(2) [OF q] D(2) [OF r(1)] q r(1,2) len by auto
    then show "map_of (streams ?c) (sid (objs ?c ! q)) = Some q \<or> q \<in> set (draining ?c)"
      using D(3) [OF q op] by (auto simp: forgetStream_def AList.delete_conv' draining_def)
  qed
  then show ?thesis using k by (auto simp: closer_finish_def Let_def noleak_sendReset split: option.splits)
qed

lemma noleak_newStream:
  assumes nl: "conn_noleak c" and inv: "conn_inv c" and new: "newStream c = Inr (r, c')"
  shows "conn_noleak c'"
  unfolding conn_noleak_def
proof (intro impI conjI allI)
  assume "length (objs c') < 2 ^ 32"
  then have len': "Suc (length (objs c)) < 2 ^ 32"
    using new by (auto simp: newStream_def Let_def split: if_splits)
  then have len: "length (objs c) < 2 ^ 32" by simp
  note D = noleakD [OF nl len]
  have nx: "nextStream c + 1 = of_nat (Suc (length (objs c)))" using D(1) by simp
  have nz: "(of_nat (Suc (length (objs c))) :: u32) \<noteq> 0"
    using of_nat_u32_inject [OF len', of 0] by auto
  have c': "c' = c\<lparr>nextStream := of_nat (Suc (length (objs c))),
      objs := objs c @ [newStreamObj (of_nat (Suc (length (objs c))))],
      streams := AList.update (of_nat (Suc (length (objs c)))) (length (objs c)) (streams c)\<rparr>"
    using new nz unfolding newStream_def Let_def nx by (auto split: if_splits)
  show "nextStream c' = of_nat (length (objs c'))" by (simp add: c')
  fix q assume q: "q < length (objs c')"
  show sq: "sid (objs c' ! q) = of_nat (Suc q)"
    using q D(2) by (auto simp: c' nth_append newStreamObj_def less_Suc_eq simp del: of_nat_Suc)
  assume op: "\<not> sclosed (objs c' ! q)"
  show "map_of (streams c') (sid (objs c' ! q)) = Some q \<or> q \<in> set (draining c')"
  proof (cases "q = length (objs c)")
    case True
    then show ?thesis unfolding sq by (simp add: c' AList.update_conv')
  next
    case False
    with q have q': "q < length (objs c)" by (simp add: c')
    with op have "\<not> sclosed (objs c ! q)" by (simp add: c' nth_append)
    moreover have "(of_nat (Suc q) :: u32) \<noteq> of_nat (Suc (length (objs c)))"
      using of_nat_u32_inject [of "Suc q" "Suc (length (objs c))"] len' q' by auto
    ultimately show ?thesis
      using D(3) [OF q'] D(2) [OF q'] unfolding sq
      by (auto simp: c' AList.update_conv' draining_def simp del: of_nat_Suc)
  qed
qed

lemma noleak_drained:
  assumes "conn_noleak c" "draining c = q # qs" "sclosed (objs c ! q)"
  shows "conn_noleak (c\<lparr>closePhase := Draining qs\<rparr>)" (is "conn_noleak ?c")
  unfolding conn_noleak_def
proof (intro impI conjI allI)
  assume "length (objs ?c) < 2 ^ 32"
  then have "length (objs c) < 2 ^ 32" by simp
  note D = noleakD [OF assms(1) this]
  show "nextStream ?c = of_nat (length (objs ?c))" using D(1) by simp
  fix r assume r: "r < length (objs ?c)"
  then show "sid (objs ?c ! r) = of_nat (Suc r)" using D(2) [of r] by simp
  assume "\<not> sclosed (objs ?c ! r)"
  moreover have "draining ?c = qs" by (simp add: draining_def)
  ultimately show "map_of (streams ?c) (sid (objs ?c ! r)) = Some r \<or> r \<in> set (draining ?c)"
    using D(3) [of r] r assms(2,3) by auto
qed

lemma noleak_phases:
  assumes nl: "conn_noleak c" and inv: "conn_inv c"
  shows "conn_noleak (close_begin c err)" "conn_noleak (close_snapshot c)" "conn_noleak (drain_start c)"
proof -
  show "conn_noleak (close_begin c err)"
  proof (cases "closePhase c = NotClosing")
    case True
    then show ?thesis
      by (intro noleak_cong [OF nl]) (simp_all add: draining_def close_begin_def)
  qed (simp add: nl close_begin_def)
  show "conn_noleak (close_snapshot c)"
  proof (cases "closePhase c = ChClosed")
    case True
    have "r \<in> snd ` set (streams c)" if "map_of (streams c) i = Some r" for i r
      using map_of_SomeD [OF that] by force
    with nl True show ?thesis
      by (auto simp: conn_noleak_def close_snapshot_def draining_def)
  qed (use nl in \<open>auto simp: close_snapshot_def split: close_phase.splits\<close>)
  show "conn_noleak (drain_start c)"
  proof (cases "\<exists>q qs. closePhase c = Draining (q # qs)")
    case True
    then obtain q qs where ph: "closePhase c = Draining (q # qs)" by blast
    let ?d = "closer_start c q (Some ''agent disconnected'') None"
    have q: "q < length (objs c)" using inv ph by (auto simp: conn_inv_def)
    have nd: "conn_noleak ?d" using nl q by (rule noleak_closer_start)
    have cq: "sclosed (objs ?d ! q)" using q by (simp add: closer_start_def)
    have "closePhase ?d = closePhase c" by (simp add: closer_start_def)
    then have "draining ?d = q # qs" by (simp add: ph draining_def)
    with nd cq show ?thesis by (simp add: drain_start_def ph noleak_drained)
  qed (use nl in \<open>auto simp: drain_start_def split: close_phase.splits list.splits\<close>)
qed

lemma noleak_step: "conn_step c c' \<Longrightarrow> conn_inv c \<Longrightarrow> conn_noleak c \<Longrightarrow> conn_noleak c'"
proof (induction rule: conn_step.induct)
  case (active c now)
  then show ?case by (auto simp: markActive_def draining_def elim!: noleak_cong)
next
  case (deliver r c f pick)
  then show ?case by (simp add: deliver_start_def Let_def noleak_updRx noleak_closer_start)
next
  case (recv r c d sel res c')
  then show ?case by (cases sel) (auto split: list.splits if_splits intro!: noleak_updRx)
next
  case (send r c t p ok e c')
  then show ?case
    by (auto simp: stream_send_def writeFrame_def draining_def split: if_splits elim!: noleak_cong)
next
  case (reset_sent i c ok)
  then show ?case
    by (auto simp: run_async_def writeFrame_def draining_def split: prod.splits elim!: noleak_cong)
next
  case (ping c now appData ok)
  then show ?case by (auto simp: ping_handler_def markActive_def draining_def Let_def elim!: noleak_cong)
qed (auto intro: noleak_newStream noleak_phases noleak_closer_start noleak_closer_finish)

interpretation conn: safety conn_init conn_step "\<lambda>c. conn_inv c \<and> conn_noleak c"
proof
  show "conn_inv c \<and> conn_noleak c" if "conn_init c" for c
    using that conn_inv_newAgentConn
    by (auto simp: conn_init_def conn_noleak_def newAgentConn_def markActive_def)
  show "conn_inv c' \<and> conn_noleak c'" if "conn_step c c'" "conn_inv c \<and> conn_noleak c" for c c'
    using that conn_inv_step noleak_step by blast
qed

lemma conn_reach_invs: "conn_reach c \<Longrightarrow> conn_inv c \<and> conn_noleak c"
  using conn.reach_inv by (simp add: conn.reach_def conn_reach_def)

lemma conn_reach_new: "conn_reach (newAgentConn u rq ef rs k m now)"
  unfolding conn_reach_def conn.reach_def [symmetric]
  by (rule conn.reach_init) (unfold conn_init_def, blast)

lemma conn_reach_step: "conn_reach c \<Longrightarrow> conn_step c c' \<Longrightarrow> conn_reach c'"
  unfolding conn_reach_def conn.reach_def [symmetric] by (rule conn.reach_step)

lemma conn_reach_steps: "conn_reach c \<Longrightarrow> conn_step\<^sup>*\<^sup>* c c' \<Longrightarrow> conn_reach c'"
  unfolding conn_reach_def by (metis rtranclp_trans)

interpretation gateway_rx: bounded_rx streamReceiveQueueFrames "\<lambda>c. rx (objs c ! r)"
  "\<lambda>c. sclosed (objs c ! r)" "\<lambda>c. conn_inv c \<and> r < length (objs c)"
  "\<lambda>pick c f. stream_deliver pick c r f" "poll_rx r" for r
proof
  fix c b f
  assume inv: "conn_inv c \<and> r < length (objs c)"
  show "conn_inv (stream_deliver b c r f) \<and> r < length (objs (stream_deliver b c r f))"
    using inv conn_inv_deliver
    by (auto simp: stream_deliver_def stream_resetWithErr_def sendReset_def forgetStream_def Let_def)
  show "length (rx (objs c ! r)) \<le> streamReceiveQueueFrames"
    using inv conn_inv_objD by blast
  show "rx (objs (stream_deliver b c r f) ! r) = rx (objs c ! r) @ [f] \<and>
      \<not> sclosed (objs (stream_deliver b c r f) ! r)"
    if "\<not> sclosed (objs c ! r)" "length (rx (objs c ! r)) < streamReceiveQueueFrames"
    using that inv by (simp add: stream_deliver_def)
  show "rx (objs (stream_deliver b c r f) ! r) = rx (objs c ! r) \<and>
      sclosed (objs (stream_deliver b c r f) ! r)"
    if "\<not> sclosed (objs c ! r)" "\<not> length (rx (objs c ! r)) < streamReceiveQueueFrames"
    using that inv
    by (simp add: stream_deliver_def stream_resetWithErr_def sendReset_def forgetStream_def Let_def)
  show "sclosed (objs (stream_deliver b c r f) ! r) \<and>
      (rx (objs (stream_deliver b c r f) ! r) = rx (objs c ! r) \<or>
       length (rx (objs c ! r)) < streamReceiveQueueFrames \<and>
       rx (objs (stream_deliver b c r f) ! r) = rx (objs c ! r) @ [f])"
    if "sclosed (objs c ! r)"
    using that inv by (simp add: stream_deliver_def Let_def)
next
  fix c :: agentConn assume "rx (objs c ! r) = []"
  then show "poll_rx r c = None" by (simp add: poll_rx_def)
next
  fix c :: agentConn and f fs
  assume "conn_inv c \<and> r < length (objs c)" "rx (objs c ! r) = f # fs"
  moreover have "length fs \<le> streamReceiveQueueFrames"
    using calculation conn_inv_objD(1) [of c r] by simp
  ultimately show "\<exists>c'. poll_rx r c = Some (f, c') \<and> rx (objs c' ! r) = fs \<and>
      sclosed (objs c' ! r) = sclosed (objs c ! r) \<and> conn_inv c' \<and> r < length (objs c')"
    by (simp add: poll_rx_def conn_inv_updRx)
qed

lemma drain_all_objs:
  "closePhase c = Draining rs \<Longrightarrow> \<forall>r \<in> set rs. r < length (objs c) \<Longrightarrow>
   closePhase (drain_all rs c) = Draining [] \<and> length (objs (drain_all rs c)) = length (objs c) \<and>
   (\<forall>q < length (objs c). objs (drain_all rs c) ! q =
      (if q \<in> set rs \<and> \<not> sclosed (objs c ! q)
       then (objs c ! q)\<lparr>serr := Some ''agent disconnected'', sclosed := True\<rparr> else objs c ! q))"
proof (induction rs arbitrary: c)
  case (Cons r rs)
  let ?d = "close_drain1 c"
  have ph: "closePhase ?d = Draining rs" and len: "length (objs ?d) = length (objs c)"
    using Cons.prems(1) by (auto simp: close_drain1_def stream_closeWithErr_def forgetStream_def)
  have o: "objs ?d ! q = (if q = r \<and> \<not> sclosed (objs c ! q)
      then (objs c ! q)\<lparr>serr := Some ''agent disconnected'', sclosed := True\<rparr> else objs c ! q)"
    if "q < length (objs c)" for q
    using Cons.prems that by (auto simp: close_drain1_def stream_closeWithErr_def forgetStream_def)
  from Cons.IH [OF ph] Cons.prems(2) len o show ?case by auto
qed simp

lemma deliver_isolated:
  assumes "conn_inv c" and "getStream c (Stream f) = Some r"
  shows "(sid (objs c ! q) \<noteq> Stream f \<longrightarrow> objs (stream_deliver pick (markActive c now) r f) ! q = objs c ! q)
      \<and> (i \<noteq> Stream f \<longrightarrow> getStream (stream_deliver pick (markActive c now) r f) i = getStream c i)"
  using assms(2) conn_inv_mapD [OF assms(1), of "Stream f" r]
  by (auto simp: stream_deliver_def stream_resetWithErr_def sendReset_def forgetStream_def getStream_def
      Let_def AList.delete_conv' nth_list_update)

section \<open>Properties\<close>

text \<open>C7. In every reachable state of an agent connection, whatever the interleaving of handlers, read
  loop, resets and teardown: no receive queue exceeds its capacity, no stream has identifier 0, the
  stream map never exceeds a positive limit, and it leads an identifier to a stream with that identifier,
  which is open unless a goroutine that closed a stream of that identifier has yet to remove it from the
  map.  Such a goroutine can always go on, and with none left the map leads to open streams only and, until
  identifiers wrap around, to every open stream of a connection that is not being torn down.\<close>

theorem conn_reach_wellformed:
  assumes "conn_reach c"
  shows "(\<forall>s \<in> set (objs c). length (rx s) \<le> 640 \<and> sid s \<noteq> 0) \<and>
    (maxStreams c > 0 \<longrightarrow> int (activeStreamCount c) \<le> maxStreams c) \<and>
    (\<forall>i r. getStream c i = Some r \<longrightarrow>
       r < length (objs c) \<and> sid (objs c ! r) = i \<and> (sclosed (objs c ! r) \<longrightarrow> i \<in> fst ` set (closing c))) \<and>
    (closing c \<noteq> [] \<longrightarrow> (\<exists>c'. conn_step c c' \<and> length (closing c') < length (closing c))) \<and>
    (closing c = [] \<and> \<not> connClosed c \<and> length (objs c) < 2 ^ 32 \<longrightarrow>
       (\<forall>r < length (objs c). getStream c (sid (objs c ! r)) = Some r \<longleftrightarrow> \<not> sclosed (objs c ! r)))"
proof -
  from conn_reach_invs [OF assms] have inv: "conn_inv c" and nl: "conn_noleak c" by simp_all
  have "\<exists>c'. conn_step c c' \<and> length (closing c') < length (closing c)" if "closing c \<noteq> []"
    using that conn_step.forget [of 0 c]
    by (auto simp: closer_finish_def forgetStream_def sendReset_def Let_def split: prod.splits option.splits)
  moreover have "getStream c (sid (objs c ! r)) = Some r \<longleftrightarrow> \<not> sclosed (objs c ! r)"
    if "closing c = []" "\<not> connClosed c" "length (objs c) < 2 ^ 32" "r < length (objs c)" for r
  proof -
    have "closePhase c = NotClosing" using inv that(2) by (simp add: conn_inv_def)
    then have "draining c = []" by (simp add: draining_def)
    then show ?thesis
      using noleakD(3) [OF nl that(3,4)] conn_inv_mapD(3) [OF inv, of "sid (objs c ! r)" r] that(1) by (auto simp: getStream_def)
  qed
  ultimately show ?thesis
    using inv by (simp add: conn_inv_def activeStreamCount_def getStream_def streamReceiveQueueFrames_def)
qed

theorem conn_reach_wellformed_witness:
  "let c = newAgentConn ''u1'' [] [] [] [] 1 0 in
   case newStream c of Inr (r, c') \<Rightarrow> int (activeStreamCount c') \<le> maxStreams c' | _ \<Rightarrow> False"
proof -
  let ?c = "newAgentConn ''u1'' [] [] [] [] 1 0"
  obtain r c' where n: "newStream ?c = Inr (r, c')"
    by (simp add: newStream_def newAgentConn_def markActive_def)
  have "conn_reach c'"
    using conn_step.open_stream [OF n] by (rule conn_reach_step [OF conn_reach_new])
  from conn_reach_wellformed [OF this] have "int (activeStreamCount c') \<le> maxStreams c'"
    using n by (auto simp: newStream_def newAgentConn_def markActive_def split: if_splits)
  with n show ?thesis by simp
qed

text \<open>C6. Once the connection has been torn down completely no stream is left open and none can be
  opened, provided fewer than \<open>2 ^ 32\<close> streams were opened on it: a stream opened concurrently with the
  teardown is either closed by it or refused.\<close>

theorem closed_conn_no_open_stream:
  assumes "conn_reach c" and "closePhase c = Draining []" and "length (objs c) < 2 ^ 32"
  shows "(\<forall>s \<in> set (objs c). sclosed s) \<and> streams c = [] \<and> newStream c = Inl ''agent disconnected''"
proof -
  from conn_reach_invs [OF assms(1)] have inv: "conn_inv c" and nl: "conn_noleak c" by simp_all
  have st: "streams c = []" and cl: "connClosed c" using inv assms(2) by (auto simp: conn_inv_def)
  have "sclosed (objs c ! r)" if "r < length (objs c)" for r
    using noleakD(3) [OF nl assms(3) that] st assms(2) by (auto simp: draining_def)
  then show ?thesis using st cl by (auto simp: in_set_conv_nth newStream_def)
qed

theorem closed_conn_no_open_stream_witness:
  "let c = close_drain1 (close_snapshot (close_begin
       (projr (map_sum id snd (newStream (newAgentConn ''u1'' [] [] [] [] 0 0)))) None))
   in objs c \<noteq> [] \<and> (\<forall>s \<in> set (objs c). sclosed s)"
proof -
  let ?c0 = "newAgentConn ''u1'' [] [] [] [] 0 0"
  define c1 where "c1 = projr (map_sum id snd (newStream ?c0))"
  define c2 where "c2 = close_begin c1 None"
  define c3 where "c3 = close_snapshot c2"
  define c4 where "c4 = close_drain1 c3"
  note defs = c4_def c3_def c2_def c1_def close_drain1_def close_snapshot_def close_begin_def
    newStream_def newAgentConn_def markActive_def stream_closeWithErr_def forgetStream_def newStreamObj_def
  have "newStream ?c0 = Inr (0, c1)" by (simp add: defs)
  then have "conn_reach c1" by (intro conn_reach_step [OF conn_reach_new] conn_step.open_stream)
  then have c3: "conn_reach c3"
    unfolding c2_def c3_def
    by (intro conn_reach_step [OF _ conn_step.close_snapshots] conn_reach_step [OF _ conn_step.close_begins])
  have "conn_reach c4"
    unfolding c4_def using conn_reach_steps [OF c3 steps_drain1] conn_reach_invs [OF c3] by blast
  moreover have "closePhase c4 = Draining []" "length (objs c4) = 1" by (simp_all add: defs)
  ultimately have "\<forall>s \<in> set (objs c4). sclosed s"
    using closed_conn_no_open_stream [of c4] by simp
  moreover have "objs c4 \<noteq> []" using \<open>length (objs c4) = 1\<close> by auto
  ultimately show ?thesis unfolding c4_def c3_def c2_def c1_def Let_def by blast
qed

text \<open>A new stream gets an identifier that no earlier stream of the connection has, as long as the
  32-bit counter has not wrapped around.\<close>

theorem newStream_fresh:
  assumes "conn_reach c" and "newStream c = Inr (r, c')" and "length (objs c') < 2 ^ 32"
  shows "getStream c' (sid (objs c' ! r)) = Some r \<and> r = length (objs c) \<and>
    (\<forall>s \<in> set (objs c). sid s \<noteq> sid (objs c' ! r))"
proof -
  from conn_reach_invs [OF assms(1)] have inv: "conn_inv c" and nl: "conn_noleak c" by simp_all
  have nl': "conn_noleak c'" using noleak_newStream [OF nl inv assms(2)] .
  have r: "r = length (objs c)" and o: "objs c' = objs c @ [newStreamObj (nextStream c')]"
    and st: "streams c' = AList.update (nextStream c') r (streams c)"
    using assms(2) by (auto simp: newStream_def Let_def split: if_splits)
  have "sid (objs c ! q) \<noteq> sid (objs c' ! r)" if "q < length (objs c)" for q
  proof
    assume "sid (objs c ! q) = sid (objs c' ! r)"
    then have "(of_nat (Suc q) :: u32) = of_nat (Suc r)"
      using noleakD(2) [OF nl' assms(3), of q] noleakD(2) [OF nl' assms(3), of r] that o r
      by (simp add: nth_append)
    then show False
      using of_nat_u32_inject [of "Suc q" "Suc r"] that assms(3) o r by simp
  qed
  then show ?thesis
    using r st o by (auto simp: getStream_def in_set_conv_nth AList.update_conv' newStreamObj_def)
qed

theorem newStream_fresh_witness:
  "let c = newAgentConn ''u1'' [] [] [] [] 0 0; c1 = projr (newStream c); c2 = projr (newStream (snd c1))
   in fst c2 = 1 \<and> sid (objs (snd c2) ! 0) \<noteq> sid (objs (snd c2) ! 1)"
proof -
  let ?c0 = "newAgentConn ''u1'' [] [] [] [] 0 0"
  define c1 where "c1 = snd (projr (newStream ?c0))"
  define c2 where "c2 = snd (projr (newStream c1))"
  note defs = c2_def c1_def newStream_def newAgentConn_def markActive_def newStreamObj_def
  have n1: "newStream ?c0 = Inr (0, c1)" by (simp add: defs)
  have n2: "newStream c1 = Inr (1, c2)" by (simp add: defs)
  have "conn_reach c1" using n1 by (intro conn_reach_step [OF conn_reach_new] conn_step.open_stream)
  moreover have l: "length (objs c2) < 2 ^ 32" "objs c2 ! 0 \<in> set (objs c1)" by (simp_all add: defs)
  ultimately have "sid (objs c2 ! 0) \<noteq> sid (objs c2 ! 1)"
    using newStream_fresh [OF _ n2 l(1)] by blast
  then show ?thesis using n1 n2 by (simp add: Let_def)
qed

text \<open>After a wrap-around of the 32-bit counter a new stream silently replaces a live stream that
  still has the same identifier, and when the replaced stream ends it removes its successor from the
  stream map, which then receives no frames.\<close>

theorem newStream_wrap_replaces_live:
  assumes "\<not> connClosed c" and "maxStreams c = 0" and "nextStream c + 1 = i" and "i \<noteq> 0"
    and "q < length (objs c)" and "sid (objs c ! q) = i" and "\<not> sclosed (objs c ! q)"
  shows "\<exists>c'. newStream c = Inr (length (objs c), c') \<and> getStream c' i = Some (length (objs c)) \<and>
    \<not> sclosed (objs c' ! length (objs c)) \<and>
    getStream (stream_closeWithErr c' q None) i = None"
  using assms
  by (simp add: newStream_def getStream_def stream_closeWithErr_def forgetStream_def nth_append
      AList.update_conv' AList.delete_conv' newStreamObj_def Let_def)

theorem newStream_wrap_replaces_live_witness:
  "\<exists>c c'. getStream c 1 = Some 0 \<and> newStream c = Inr (1, c') \<and> getStream c' 1 = Some 1 \<and>
     getStream (stream_closeWithErr c' 0 None) 1 = None"
proof -
  define c where "c = (newAgentConn ''u1'' [] [] [] [] 0 0)
    \<lparr>objs := [newStreamObj 1], streams := [(1, 0)], nextStream := 0\<rparr>"
  have "\<not> connClosed c" "maxStreams c = 0" "nextStream c + 1 = 1" "(1 :: u32) \<noteq> 0" "0 < length (objs c)"
    "sid (objs c ! 0) = 1" "\<not> sclosed (objs c ! 0)"
    by (simp_all add: c_def newAgentConn_def markActive_def newStreamObj_def)
  from newStream_wrap_replaces_live [OF this] have
    "\<exists>c'. newStream c = Inr (1, c') \<and> getStream c' 1 = Some 1 \<and> getStream (stream_closeWithErr c' 0 None) 1 = None"
    by (auto simp: c_def)
  moreover have "getStream c 1 = Some 0" by (simp add: c_def getStream_def)
  ultimately show ?thesis by blast
qed

text \<open>C11. Frames of an open stream are neither lost nor reordered: for any sequence of deliveries and
  receives on one stream after which it is still open, the frames delivered are those received followed
  by those still queued.\<close>

theorem stream_rx_fifo:
  assumes "conn_inv c" and "r < length (objs c)" and "rx (objs c ! r) = []"
    and "gateway_rx.qrun r c evs = (got, c')" and "\<not> sclosed (objs c' ! r)"
  shows "offered evs = got @ rx (objs c' ! r)"
  using gateway_rx.qrun_fifo [of c r evs got c'] assms by simp

theorem stream_rx_fifo_witness:
  "let c = snd (projr (newStream (newAgentConn ''u1'' [] [] [] [] 0 0)));
       f = \<lparr>Type = TResData, Stream = 1, Payload = [1]\<rparr>; g = \<lparr>Type = TResEnd, Stream = 1, Payload = []\<rparr>
   in case gateway_rx.qrun 0 c [Offer True f, Offer True g, Take] of
        (got, c') \<Rightarrow> got @ rx (objs c' ! 0) = [f, g]"
proof -
  define c where "c = snd (projr (newStream (newAgentConn ''u1'' [] [] [] [] 0 0)))"
  define f where "f = \<lparr>Type = TResData, Stream = 1, Payload = [1]\<rparr>"
  define g where "g = \<lparr>Type = TResEnd, Stream = 1, Payload = []\<rparr>"
  note defs = c_def newStream_def newAgentConn_def markActive_def newStreamObj_def
  have n: "newStream (newAgentConn ''u1'' [] [] [] [] 0 0) = Inr (0, c)" by (simp add: defs)
  have inv: "conn_inv c" by (rule conn_inv_newStream [OF conn_inv_newAgentConn n])
  have o: "objs c = [newStreamObj 1]" by (simp add: defs)
  obtain got c' where run: "gateway_rx.qrun 0 c [Offer True f, Offer True g, Take] = (got, c')" by force
  have "\<not> sclosed (objs c' ! 0)"
    using run [unfolded gateway_rx.qrun.simps] o by (auto simp: stream_deliver_def streamReceiveQueueFrames_def poll_rx_def newStreamObj_def)
  with stream_rx_fifo [OF inv _ _ run] o have "[f, g] = got @ rx (objs c' ! 0)"
    by (simp add: newStreamObj_def)
  then show ?thesis using run unfolding c_def f_def g_def Let_def by simp
qed

text \<open>C14. A frame that arrives on a full queue of an open stream does not block the read loop: the
  stream is closed with the overflow error, leaves the stream map, keeps its queued frames, and exactly one
  reset frame for it is scheduled; nothing else changes.  On a full queue of a stream that is already closed,
  and only about to leave the map, the frame is dropped without a trace.\<close>

theorem deliver_overflow_resets:
  assumes "conn_inv c" and "getStream c i = Some r" and "length (rx (objs c ! r)) = 640"
  shows "stream_deliver pick c r f =
    (if sclosed (objs c ! r) then c
     else c\<lparr>objs := (objs c)[r := (objs c ! r)\<lparr>serr := Some ''stream rx overflow'', sclosed := True\<rparr>],
            streams := AList.delete i (streams c),
            asyncq := asyncq c @ [(TRst, i, bytes_of ''stream rx overflow'')]\<rparr>)"
  using assms conn_inv_mapD [OF assms(1), of i r]
  by (simp add: stream_deliver_def streamReceiveQueueFrames_def stream_resetWithErr_def sendReset_def
      forgetStream_def closeChannel_def updStream_def getStream_def Let_def)

theorem deliver_overflow_resets_witness:
  "let f = \<lparr>Type = TResData, Stream = 1, Payload = []\<rparr>;
       c = (newAgentConn ''u1'' [] [] [] [] 0 0)
             \<lparr>objs := [(newStreamObj 1)\<lparr>rx := replicate 640 f\<rparr>], streams := [(1, 0)], nextStream := 1\<rparr>
   in asyncq (stream_deliver True c 0 f) = [(TRst, 1, bytes_of ''stream rx overflow'')]"
proof -
  define f where "f = \<lparr>Type = TResData, Stream = (1 :: u32), Payload = []\<rparr>"
  define c where "c = (newAgentConn ''u1'' [] [] [] [] 0 0)
    \<lparr>objs := [(newStreamObj 1)\<lparr>rx := replicate 640 f\<rparr>], streams := [(1, 0)], nextStream := 1\<rparr>"
  have "conn_inv c"
    by (simp add: c_def conn_inv_def newAgentConn_def markActive_def newStreamObj_def
        streamReceiveQueueFrames_def)
  moreover have "getStream c 1 = Some 0" "length (rx (objs c ! 0)) = 640"
    by (simp_all add: c_def getStream_def)
  ultimately have "asyncq (stream_deliver True c 0 f) = [(TRst, 1, bytes_of ''stream rx overflow'')]"
    by (simp add: deliver_overflow_resets) (simp add: c_def newAgentConn_def markActive_def newStreamObj_def)
  then show ?thesis by (simp add: c_def f_def Let_def)
qed

text \<open>C15. The read loop touches no stream but the one the frame names: a stream with another identifier
  keeps its queue, its state and its place in the map; and a message that is no binary message, no frame,
  or names no stream, has no effect but to mark the connection active (no frame is sent in answer).\<close>

theorem readLoop_msg_isolated:
  assumes "conn_inv c"
  shows "(\<forall>q. q < length (objs c) \<and> (\<forall>f. DecodeFrame msg = Inr f \<longrightarrow> sid (objs c ! q) \<noteq> Stream f) \<longrightarrow>
      objs (readLoop_msg pick c now mt msg) ! q = objs c ! q) \<and>
    (\<forall>i. (\<forall>f. DecodeFrame msg = Inr f \<longrightarrow> i \<noteq> Stream f) \<longrightarrow>
      getStream (readLoop_msg pick c now mt msg) i = getStream c i) \<and>
    (mt \<noteq> BinaryMessage \<or> (\<forall>f. DecodeFrame msg = Inr f \<longrightarrow> getStream c (Stream f) = None) \<longrightarrow>
      readLoop_msg pick c now mt msg = markActive c now)"
proof -
  note one = deliver_isolated [OF assms]
  have g: "getStream (markActive c now) i = getStream c i" for i by (simp add: getStream_def)
  show ?thesis
    using one g by (auto simp: readLoop_msg_def Let_def split: sum.splits option.splits)
qed

theorem readLoop_msg_isolated_witness:
  "readLoop_msg True (newAgentConn ''u1'' [] [] [] [] 0 0) 5 BinaryMessage (EncodeFrame TRst 9 []) =
     markActive (newAgentConn ''u1'' [] [] [] [] 0 0) 5"
proof -
  have "\<forall>f. DecodeFrame (EncodeFrame TRst 9 []) = Inr f \<longrightarrow>
      getStream (newAgentConn ''u1'' [] [] [] [] 0 0) (Stream f) = None"
    by (simp add: getStream_def newAgentConn_def markActive_def)
  then show ?thesis
    using readLoop_msg_isolated [OF conn_inv_newAgentConn] by blast
qed

text \<open>Tearing the connection down closes exactly the streams of the map, with the error that the
  agent disconnected; a stream that was closed before keeps its own error, and a second teardown changes
  nothing, so the first reason is the one that is reported.\<close>

theorem agentConn_closeWithErr_closes:
  assumes "conn_inv c" and "closePhase c = NotClosing"
  shows "streams (agentConn_closeWithErr c err) = [] \<and>
    (\<forall>q < length (objs c). objs (agentConn_closeWithErr c err) ! q =
       (if q \<in> snd ` set (streams c) \<and> \<not> sclosed (objs c ! q)
        then (objs c ! q)\<lparr>serr := Some ''agent disconnected'', sclosed := True\<rparr> else objs c ! q)) \<and>
    agentConn_closeWithErr (agentConn_closeWithErr c err) err' = agentConn_closeWithErr c err"
proof -
  let ?s = "close_snapshot (close_begin c err)" and ?rs = "map snd (streams c)"
  have mapd: "r < length (objs c)" if "r \<in> set ?rs" for r
  proof -
    from that obtain i where "(i, r) \<in> set (streams c)" by auto
    then have "map_of (streams c) i = Some r" using assms(1) by (simp add: conn_inv_def)
    then show ?thesis using conn_inv_mapD [OF assms(1)] by blast
  qed
  have s: "closePhase ?s = Draining ?rs" "objs ?s = objs c" "streams ?s = []"
    using assms(2) by (simp_all add: close_snapshot_def close_begin_def)
  note D = drain_all_objs [of ?s ?rs, OF s(1)]
  have "conn_inv d \<Longrightarrow> conn_inv (drain_all rs d)" for d rs
    by (induction rs arbitrary: d) (auto intro: conn_inv_steps [OF steps_drain1])
  then have "conn_inv (drain_all ?rs ?s)" using assms(1) conn_inv_close_phases by blast
  moreover have ph: "closePhase (drain_all ?rs ?s) = Draining []" using D mapd s by simp
  ultimately have "streams (drain_all ?rs ?s) = []" by (simp add: conn_inv_def)
  then show ?thesis
    using D mapd s ph assms(2) by (auto simp: agentConn_closeWithErr_def)
qed

theorem agentConn_closeWithErr_closes_witness:
  "let c = snd (projr (newStream (newAgentConn ''u1'' [] [] [] [] 0 0)))
   in stream_closeErr (objs (agentConn_closeWithErr c None) ! 0) = ''agent disconnected''"
proof -
  define c where "c = snd (projr (newStream (newAgentConn ''u1'' [] [] [] [] 0 0)))"
  note defs = c_def newStream_def newAgentConn_def markActive_def newStreamObj_def
  have n: "newStream (newAgentConn ''u1'' [] [] [] [] 0 0) = Inr (0, c)" by (simp add: defs)
  have "conn_inv c" by (rule conn_inv_newStream [OF conn_inv_newAgentConn n])
  moreover have "closePhase c = NotClosing" "length (objs c) = 1" "streams c = [(1, 0)]" "\<not> sclosed (objs c ! 0)"
    by (simp_all add: defs)
  ultimately have "serr (objs (agentConn_closeWithErr c None) ! 0) = Some ''agent disconnected''"
    using agentConn_closeWithErr_closes [of c None None] by simp
  then show ?thesis by (simp add: stream_closeErr_def c_def)
qed

text \<open>When a stream is closed while frames are queued, the select of \<^verbatim>\<open>recv\<close> may take either case:
  it may return the next frame or report the close error, in which case queued frames are never seen.\<close>

theorem recv_after_close_may_skip_queued:
  assumes "sclosed (objs c ! r)" and "rx (objs c ! r) = f # fs"
  shows "stream_recv c r d SelRx = Some (Inr f, updStream c r (\<lambda>s. s\<lparr>rx := fs\<rparr>)) \<and>
    stream_recv c r d SelClosed = Some (Inl (OtherErr (stream_closeErr (objs c ! r))), c)"
  using assms by simp

theorem recv_after_close_may_skip_queued_witness:
  "let f = \<lparr>Type = TResEnd, Stream = 1, Payload = []\<rparr>;
       c = (newAgentConn ''u1'' [] [] [] [] 0 0)
             \<lparr>objs := [\<lparr>sid = 1, rx = [f], sclosed = True, serr = Some ''agent disconnected''\<rparr>]\<rparr>
   in stream_recv c 0 0 SelClosed = Some (Inl (OtherErr ''agent disconnected''), c)"
proof -
  let ?f = "\<lparr>Type = TResEnd, Stream = 1, Payload = []\<rparr>"
  let ?c = "(newAgentConn ''u1'' [] [] [] [] 0 0)
    \<lparr>objs := [\<lparr>sid = 1, rx = [?f], sclosed = True, serr = Some ''agent disconnected''\<rparr>]\<rparr>"
  have "sclosed (objs ?c ! 0)" "rx (objs ?c ! 0) = ?f # []" by simp_all
  from recv_after_close_may_skip_queued [OF this] show ?thesis
    by (simp add: stream_closeErr_def Let_def)
qed

end
