(* ===== verification/Go_Time.thy ===== *)
theory Go_Time
  imports Go_Strings
begin

text \<open>
  \<^verbatim>\<open>time.Duration\<close> and \<^verbatim>\<open>time.ParseDuration\<close>.  A duration is a number of nanoseconds in
  \<open>i64_range\<close>.  The parser works on unsigned 64-bit values that its overflow checks keep at most
  \<open>2 ^ 63\<close>, so no wrap-around occurs in it; the fraction of a unit is computed in float64, with
  \<open>f64_of\<close> the rounding of a positive fraction to 53 significant bits, ties to even.
\<close>

section \<open>Definitions\<close>

type_synonym duration = int

definition Nanosecond :: duration where "Nanosecond = 1"
definition Microsecond :: duration where "Microsecond = 1000"
definition Millisecond :: duration where "Millisecond = 1000000"
definition Second :: duration where "Second = 1000000000"
definition Minute :: duration where "Minute = 60 * Second"
definition Hour :: duration where "Hour = 60 * Minute"

lemmas time_consts =
  Nanosecond_def Microsecond_def Millisecond_def Second_def Minute_def Hour_def

subsection \<open>float64\<close>

function bitlen :: "int \<Rightarrow> nat" where
  "bitlen n = (if n \<le> 0 then 0 else Suc (bitlen (n div 2)))"
  by pat_completeness auto
termination
  by (relation "measure nat") auto

declare bitlen.simps [simp del]

text \<open>The quotient rounded to the nearest integer, ties to even.\<close>

definition round_div :: "int \<Rightarrow> int \<Rightarrow> int" where
  "round_div n d =
     (let q = n div d; r = n mod d
      in if 2 * r > d \<or> (2 * r = d \<and> odd q) then q + 1 else q)"

text \<open>\<open>n / d\<close> rounded to float64, again as a fraction.\<close>

definition f64_of :: "int \<times> int \<Rightarrow> int \<times> int" where
  "f64_of x =
     (case x of (n, d) \<Rightarrow>
        if n = 0 then (0, 1)
        else
          let up = (53 + bitlen d) - bitlen n; down = bitlen n - (53 + bitlen d);
              n1 = n * 2 ^ up; d1 = d * 2 ^ down
          in if n1 div d1 < 2 ^ 53 then (round_div n1 d1 * 2 ^ down, 2 ^ up)
             else (round_div n1 (2 * d1) * 2 ^ (down + 1), 2 ^ up))"

definition f64_mul :: "int \<times> int \<Rightarrow> int \<times> int \<Rightarrow> int \<times> int" where
  "f64_mul x y = f64_of (fst x * fst y, snd x * snd y)"

definition f64_div :: "int \<times> int \<Rightarrow> int \<times> int \<Rightarrow> int \<times> int" where
  "f64_div x y = f64_of (fst x * snd y, snd x * fst y)"

definition f64_trunc :: "int \<times> int \<Rightarrow> int" where
  "f64_trunc x = fst x div snd x"

definition f64_add :: "int \<times> int \<Rightarrow> int \<times> int \<Rightarrow> int \<times> int" where
  "f64_add x y = f64_of (fst x * snd y + fst y * snd x, snd x * snd y)"

text \<open>\<^verbatim>\<open>int64(d.Seconds())\<close> of a duration that is not negative.\<close>

definition wholeSeconds :: "duration \<Rightarrow> int" where
  "wholeSeconds d =
     f64_trunc (f64_add (f64_of (d div Second, 1)) (f64_div (f64_of (d mod Second, 1)) (10 ^ 9, 1)))"

subsection \<open>Parsing\<close>

fun leadingInt :: "int \<Rightarrow> string \<Rightarrow> (int \<times> string) option" where
  "leadingInt x [] = Some (x, [])"
| "leadingInt x (c # s) =
     (if \<not> is_digit c then Some (x, c # s)
      else if x > 2 ^ 63 div 10 then None
      else let y = x * 10 + of_char c - 48
           in if y > 2 ^ 63 then None else leadingInt y s)"

fun leadingFraction :: "int \<Rightarrow> int \<Rightarrow> bool \<Rightarrow> string \<Rightarrow> int \<times> int \<times> string" where
  "leadingFraction x scale overflow [] = (x, scale, [])"
| "leadingFraction x scale overflow (c # s) =
     (if \<not> is_digit c then (x, scale, c # s)
      else if overflow \<or> x > (2 ^ 63 - 1) div 10 then leadingFraction x scale True s
      else let y = x * 10 + of_char c - 48
           in if y > 2 ^ 63 then leadingFraction x scale True s
              else leadingFraction y (scale * 10) False s)"

text \<open>The micro sign (U+00B5) and the Greek mu (U+03BC) are two bytes each.\<close>

definition unitMap :: "(string \<times> int) list" where
  "unitMap =
     [(''ns'', 1), (''us'', 1000), ([CHR 0xC2, CHR 0xB5, CHR ''s''], 1000),
      ([CHR 0xCE, CHR 0xBC, CHR ''s''], 1000), (''ms'', 1000000), (''s'', 1000000000),
      (''m'', 60000000000), (''h'', 3600000000000)]"

definition unit_char :: "char \<Rightarrow> bool" where
  "unit_char c \<longleftrightarrow> c \<noteq> CHR ''.'' \<and> \<not> is_digit c"

text \<open>
  The number of an item, \<open>[0-9]*(\.[0-9]*)?\<close> with at least one digit: integer part, fraction, its
  scale, and the rest.
\<close>

definition duration_number :: "string \<Rightarrow> (int \<times> int \<times> int \<times> string) option" where
  "duration_number s =
     (if s = [] \<or> unit_char (hd s) then None
      else case leadingInt 0 s of
        None \<Rightarrow> None
      | Some (v, s1) \<Rightarrow>
          if s1 \<noteq> [] \<and> hd s1 = CHR ''.'' then
            (case leadingFraction 0 1 False (tl s1) of (f, scale, s2) \<Rightarrow>
               if length s1 = length s \<and> length s2 = length (tl s1) then None
               else Some (v, f, scale, s2))
          else if length s1 = length s then None
          else Some (v, 0, 1, s1))"

text \<open>The number in nanoseconds, \<open>un\<close> those of its unit.\<close>

definition scale_unit :: "int \<Rightarrow> int \<Rightarrow> int \<Rightarrow> int \<Rightarrow> int option" where
  "scale_unit v f scale un =
     (if v > 2 ^ 63 div un then None
      else if f > 0 then
        (let v1 = v * un + f64_trunc (f64_mul (f64_of (f, 1)) (f64_div (un, 1) (scale, 1)))
         in if v1 > 2 ^ 63 then None else Some v1)
      else Some (v * un))"

text \<open>One number with its unit: its value in nanoseconds and the rest of the string.\<close>

definition duration_item :: "string \<Rightarrow> (int \<times> string) option" where
  "duration_item s =
     (case duration_number s of
        None \<Rightarrow> None
      | Some (v, f, scale, r) \<Rightarrow>
          if takeWhile unit_char r = [] then None
          else (case map_of unitMap (takeWhile unit_char r) of
                  None \<Rightarrow> None
                | Some un \<Rightarrow>
                    map_option (\<lambda>x. (x, dropWhile unit_char r)) (scale_unit v f scale un)))"

lemma leadingInt_shorter: "leadingInt x s = Some (v, r) \<Longrightarrow> length r \<le> length s"
  by (induction x s rule: leadingInt.induct) (auto split: if_splits simp: Let_def)

lemma leadingFraction_shorter: "leadingFraction x sc ov s = (f, sc', r) \<Longrightarrow> length r \<le> length s"
  by (induction x sc ov s rule: leadingFraction.induct) (auto split: if_splits simp: Let_def)

lemma dropWhile_shorter:
  assumes "takeWhile P xs \<noteq> []"
  shows "length (dropWhile P xs) < length xs"
proof -
  have "length xs = length (takeWhile P xs) + length (dropWhile P xs)"
    by (metis length_append takeWhile_dropWhile_id)
  then show ?thesis using assms by simp
qed

lemma duration_number_shorter: "duration_number s = Some (v, f, sc, r) \<Longrightarrow> length r \<le> length s"
  by (fastforce simp: duration_number_def split: option.splits if_splits prod.splits
      dest!: leadingInt_shorter leadingFraction_shorter)

lemma duration_item_shorter: "duration_item s = Some (v, r) \<Longrightarrow> length r < length s"
  by (auto simp: duration_item_def split: option.splits if_splits
      dest!: duration_number_shorter dropWhile_shorter)

function parse_items :: "int \<Rightarrow> string \<Rightarrow> int option" where
  "parse_items d s =
     (if s = [] then Some d
      else case duration_item s of
        None \<Rightarrow> None
      | Some (v, r) \<Rightarrow> if d + v > 2 ^ 63 then None else parse_items (d + v) r)"
  by pat_completeness auto
termination
  by (relation "measure (\<lambda>(d, s). length s)") (auto dest: duration_item_shorter)

declare parse_items.simps [simp del]

definition ParseDuration :: "string \<Rightarrow> duration option" where
  "ParseDuration s =
     (let neg = hasPrefix s ''-'';
          r = (if hasPrefix s ''-'' \<or> hasPrefix s ''+'' then tl s else s)
      in if r = ''0'' then Some 0
         else if r = [] then None
         else case parse_items 0 r of
           None \<Rightarrow> None
         | Some d \<Rightarrow>
             if neg then Some (- d)
             else if d > 2 ^ 63 - 1 then None else Some d)"

section \<open>Lemmas\<close>

lemma digit_val: "is_digit c \<Longrightarrow> (48 :: int) \<le> of_char c"
proof -
  assume "is_digit c"
  then have "48 \<le> (of_char c :: nat)" by (simp add: is_digit_def)
  moreover have "(of_char c :: int) = int (of_char c :: nat)" by (simp add: of_nat_of_char)
  ultimately show ?thesis by linarith
qed

lemma leadingInt_nonneg: "leadingInt x s = Some (v, r) \<Longrightarrow> 0 \<le> x \<Longrightarrow> 0 \<le> v"
  by (induction x s rule: leadingInt.induct) (auto split: if_splits simp: Let_def dest: digit_val)

lemma leadingFraction_nonneg:
  "leadingFraction x sc ov s = (f, sc', r) \<Longrightarrow> 0 \<le> x \<Longrightarrow> 0 < sc \<Longrightarrow> 0 \<le> f \<and> 0 < sc'"
  by (induction x sc ov s rule: leadingFraction.induct)
    (auto split: if_splits simp: Let_def dest: digit_val)

lemma round_div_nonneg: "0 \<le> n \<Longrightarrow> 0 < d \<Longrightarrow> 0 \<le> round_div n d"
  by (simp add: round_div_def Let_def pos_imp_zdiv_nonneg_iff)

lemma f64_of_nonneg: "0 \<le> n \<Longrightarrow> 0 < d \<Longrightarrow> 0 \<le> fst (f64_of (n, d)) \<and> 0 < snd (f64_of (n, d))"
  by (auto simp: f64_of_def Let_def intro!: mult_nonneg_nonneg round_div_nonneg)

lemma duration_number_nonneg:
  "duration_number s = Some (v, f, sc, r) \<Longrightarrow> 0 \<le> v \<and> 0 \<le> f \<and> 0 < sc"
  by (auto simp: duration_number_def split: option.splits if_splits prod.splits
      dest: leadingInt_nonneg leadingFraction_nonneg)

lemma unitMap_pos: "map_of unitMap u = Some n \<Longrightarrow> 0 < n"
  by (auto simp: unitMap_def split: if_splits)

lemma f64_chain_nonneg:
  assumes "0 \<le> f" "0 < sc" "0 < un"
  shows "0 \<le> f64_trunc (f64_mul (f64_of (f, 1)) (f64_div (un, 1) (sc, 1)))"
proof -
  have a: "0 \<le> fst (f64_of (f, 1)) \<and> 0 < snd (f64_of (f, 1))" using assms by (intro f64_of_nonneg) auto
  have b: "0 \<le> fst (f64_div (un, 1) (sc, 1)) \<and> 0 < snd (f64_div (un, 1) (sc, 1))"
    using assms unfolding f64_div_def by (intro f64_of_nonneg) auto
  have "0 \<le> fst (f64_mul (f64_of (f, 1)) (f64_div (un, 1) (sc, 1))) \<and>
      0 < snd (f64_mul (f64_of (f, 1)) (f64_div (un, 1) (sc, 1)))"
    using a b unfolding f64_mul_def by (intro f64_of_nonneg) auto
  then show ?thesis by (simp add: f64_trunc_def pos_imp_zdiv_nonneg_iff)
qed

lemma duration_item_nonneg: "duration_item s = Some (v, r) \<Longrightarrow> 0 \<le> v"
  by (auto simp: duration_item_def scale_unit_def Let_def split: option.splits if_splits
      dest!: duration_number_nonneg unitMap_pos
      intro!: add_nonneg_nonneg f64_chain_nonneg mult_nonneg_nonneg)

lemma parse_items_bound: "parse_items d s = Some e \<Longrightarrow> 0 \<le> d \<Longrightarrow> d \<le> 2 ^ 63 \<Longrightarrow> 0 \<le> e \<and> e \<le> 2 ^ 63"
proof (induction d s rule: parse_items.induct)
  case (1 d s)
  show ?case
  proof (cases "s = []")
    case False
    then obtain v r where "duration_item s = Some (v, r)" "\<not> d + v > 2 ^ 63"
      "parse_items (d + v) r = Some e"
      using "1.prems"(1) parse_items.simps [of d s] by (auto split: option.splits if_splits)
    with False "1.IH" [of "(v, r)" v r] "1.prems" duration_item_nonneg [of s v r] show ?thesis by simp
  qed (use 1 parse_items.simps [of d s] in simp)
qed

lemma ParseDuration_range: "ParseDuration s = Some d \<Longrightarrow> i64_range d"
  by (auto simp: ParseDuration_def Let_def i64_range_def i64_min_def i64_max_def
      split: if_splits option.splits dest: parse_items_bound)

end
