(* ===== verification/Gateway_Config.thy ===== *)
theory Gateway_Config
  imports Gateway_Conn Go_Time
begin

text \<open>
  The gateway's state and its configuration from the environment: \<^verbatim>\<open>Server\<close>,
  \<^verbatim>\<open>NewServerFromEnv\<close> and the \<^verbatim>\<open>env*\<close> readers of \<^verbatim>\<open>internal/gateway/server.go\<close>, and the
  settings \<^verbatim>\<open>cmd/gateway/main.go\<close> reads.  An environment maps each variable to its value, the empty
  string when it is not set, as \<^verbatim>\<open>os.Getenv\<close> does.

  A Go set of strings is the list of its elements.  \<open>conns\<close> holds the connection objects; the registry
  \<open>agentByUUID\<close> refers to them by position, the way the code holds pointers.
\<close>

section \<open>Definitions\<close>

type_synonym env = "string \<Rightarrow> string"

definition defaultAgentPingInterval :: duration where "defaultAgentPingInterval = 20 * Second"
definition minHeartbeatGrace :: duration where "minHeartbeatGrace = 5 * Second"

record Server =
  agentTokenSet :: "string list"
  agentByUUID :: "(string \<times> nat) list"
  conns :: "agentConn list"
  transparentEnabled :: bool
  forceLegacyMode :: bool
  transparentAllowUUIDSet :: "string list"
  transparentAllowUUIDs :: "string list"
  transparentAllowPrefixes :: "string list"
  maxStreamsPerAgent :: int
  maxBodyBytes :: int
  streamIdleTimeout :: duration
  heartbeatTimeout :: duration
  firstRespTimeout :: duration
  wsOpenTimeout :: duration
  clientWSPingInterval :: duration
  clientWSPingDebug :: bool
  wsReadLimitBytes :: int
  nextReqID :: u64

definition envInt :: "env \<Rightarrow> string \<Rightarrow> int \<Rightarrow> int" where
  "envInt env key dflt =
     (let v = trimSpace (env key)
      in if v = [] then dflt
         else case parseInt v of
           None \<Rightarrow> dflt
         | Some n \<Rightarrow> if n < 0 then dflt else n)"

definition envInt64 :: "env \<Rightarrow> string \<Rightarrow> int \<Rightarrow> int" where
  "envInt64 env key dflt =
     (let v = trimSpace (env key)
      in if v = [] then dflt
         else case parseInt v of
           None \<Rightarrow> dflt
         | Some n \<Rightarrow> if n < 0 then dflt else n)"

text \<open>
  The body that the gateway's \<^verbatim>\<open>envDuration\<close>, the agent's \<^verbatim>\<open>envDuration\<close> and \<^verbatim>\<open>durationFromEnv\<close>
  share: a Go duration, or else a number of seconds, multiplied in 64 bits.
\<close>

definition duration_value :: "string \<Rightarrow> duration \<Rightarrow> duration" where
  "duration_value raw dflt =
     (let v = trimSpace raw
      in if v = [] then dflt
         else case ParseDuration v of
           Some d \<Rightarrow> if d < 0 then dflt else d
         | None \<Rightarrow>
             (case parseInt v of
                Some n \<Rightarrow> if n < 0 then dflt else wrap64 (n * Second)
              | None \<Rightarrow> dflt))"

definition envDuration :: "env \<Rightarrow> string \<Rightarrow> duration \<Rightarrow> duration" where
  "envDuration env key dflt = duration_value (env key) dflt"

definition durationFromEnv :: "env \<Rightarrow> string \<Rightarrow> duration \<Rightarrow> duration" where
  "durationFromEnv env key dflt = duration_value (env key) dflt"

definition envBool :: "env \<Rightarrow> string \<Rightarrow> bool \<Rightarrow> bool" where
  "envBool env key dflt =
     (let v = toLower (trimSpace (env key))
      in if v = [] then dflt
         else if v \<in> {''1'', ''true'', ''yes'', ''y'', ''on''} then True
         else if v \<in> {''0'', ''false'', ''no'', ''n'', ''off''} then False
         else dflt)"

definition envCommaStringSlice :: "env \<Rightarrow> string \<Rightarrow> string list" where
  "envCommaStringSlice env key =
     (let raw = trimSpace (env key)
      in if raw = [] then []
         else filter (\<lambda>v. v \<noteq> []) (map trimSpace (splitOn CHR '','' raw)))"

text \<open>The elements in the order of their first occurrence.\<close>

fun dedup :: "string list \<Rightarrow> string list \<Rightarrow> string list" where
  "dedup seen [] = []"
| "dedup seen (x # xs) = (if x \<in> set seen then dedup seen xs else x # dedup (x # seen) xs)"

definition envCommaStringSet :: "env \<Rightarrow> string \<Rightarrow> string list \<times> string list" where
  "envCommaStringSet env key =
     (let l = dedup [] (envCommaStringSlice env key) in (l, l))"

definition pingIntervalHint :: "env \<Rightarrow> duration" where
  "pingIntervalHint env =
     (let h = envDuration env ''HTTPS_PROXY_PING_INTERVAL_HINT'' defaultAgentPingInterval
      in if h \<le> 0 then defaultAgentPingInterval else h)"

definition heartbeatGrace :: "env \<Rightarrow> duration" where
  "heartbeatGrace env =
     (let g = envDuration env ''HTTPS_PROXY_HEARTBEAT_GRACE'' minHeartbeatGrace
      in if g < minHeartbeatGrace then minHeartbeatGrace else g)"

definition adjustHeartbeat :: "duration \<Rightarrow> duration \<Rightarrow> duration \<Rightarrow> duration" where
  "adjustHeartbeat timeout hint grace =
     (if timeout > 0 then
        (let minHeartbeat = wrap64 (hint + grace)
         in if timeout < minHeartbeat then minHeartbeat else timeout)
      else timeout)"

definition NewServerFromEnv :: "env \<Rightarrow> Server" where
  "NewServerFromEnv env =
     (let tokens = filter (\<lambda>t. t \<noteq> []) (map trimSpace (splitOn CHR '','' (env ''HTTPS_PROXY_AGENT_TOKENS'')));
          (allowSet, allowUUIDs) = envCommaStringSet env ''HTTPS_PROXY_TRANSPARENT_ALLOW_UUIDS''
      in \<lparr>agentTokenSet = tokens, agentByUUID = [], conns = [],
          transparentEnabled = envBool env ''HTTPS_PROXY_TRANSPARENT_ENABLED'' False,
          forceLegacyMode = envBool env ''HTTPS_PROXY_FORCE_LEGACY_MODE'' False,
          transparentAllowUUIDSet = allowSet, transparentAllowUUIDs = allowUUIDs,
          transparentAllowPrefixes = envCommaStringSlice env ''HTTPS_PROXY_TRANSPARENT_ALLOW_PREFIXES'',
          maxStreamsPerAgent = envInt env ''HTTPS_PROXY_MAX_STREAMS_PER_AGENT'' 0,
          maxBodyBytes = envInt64 env ''HTTPS_PROXY_MAX_BODY_BYTES'' (512 * 2 ^ 20),
          streamIdleTimeout = envDuration env ''HTTPS_PROXY_STREAM_IDLE_TIMEOUT'' (5 * Minute),
          heartbeatTimeout =
            adjustHeartbeat (envDuration env ''HTTPS_PROXY_HEARTBEAT_TIMEOUT'' (60 * Second))
              (pingIntervalHint env) (heartbeatGrace env),
          firstRespTimeout = envDuration env ''HTTPS_PROXY_FIRST_RESPONSE_TIMEOUT'' (30 * Second),
          wsOpenTimeout = envDuration env ''HTTPS_PROXY_WS_OPEN_TIMEOUT'' (10 * Second),
          clientWSPingInterval = envDuration env ''HTTPS_PROXY_CLIENT_WS_PING_INTERVAL'' 0,
          clientWSPingDebug = envBool env ''HTTPS_PROXY_CLIENT_WS_PING_DEBUG'' False,
          wsReadLimitBytes = WSReadLimitBytes, nextReqID = 0\<rparr>)"

definition MaxHeaderBytesFromEnv :: "env \<Rightarrow> int" where
  "MaxHeaderBytesFromEnv env = envInt env ''HTTPS_PROXY_MAX_HEADER_BYTES'' (2 ^ 20)"

text \<open>The settings \<^verbatim>\<open>main\<close> of the gateway gives to \<^verbatim>\<open>http.Server\<close>.\<close>

record httpServer =
  hsAddr :: string
  hsHandler :: Server
  hsReadHeaderTimeout :: duration
  hsIdleTimeout :: duration
  hsMaxHeaderBytes :: int

text \<open>\<open>None\<close> when only the version is printed.\<close>

definition gateway_main :: "env \<Rightarrow> string \<Rightarrow> bool \<Rightarrow> httpServer option" where
  "gateway_main env listen showVersion =
     (if showVersion then None
      else Some
        \<lparr>hsAddr = listen, hsHandler = NewServerFromEnv env,
         hsReadHeaderTimeout = durationFromEnv env ''HTTPS_PROXY_HTTP_READ_HEADER_TIMEOUT'' (5 * Second),
         hsIdleTimeout = durationFromEnv env ''HTTPS_PROXY_HTTP_IDLE_TIMEOUT'' (120 * Second),
         hsMaxHeaderBytes = MaxHeaderBytesFromEnv env\<rparr>)"

section \<open>Lemmas\<close>

lemma duration_value_range: "i64_range dflt \<Longrightarrow> i64_range (duration_value raw dflt)"
  by (auto simp: duration_value_def Let_def split: option.splits dest: ParseDuration_range)

lemma wrap64_negative: "0 \<le> x \<Longrightarrow> wrap64 x < 0 \<Longrightarrow> x > i64_max"
  by (rule ccontr) (simp add: i64_max_def wrap64_nonneg_id)

lemma duration_value_negative:
  assumes "0 \<le> dflt" and "duration_value raw dflt < 0"
  shows "\<exists>n. ParseDuration (trimSpace raw) = None \<and> parseInt (trimSpace raw) = Some n \<and>
    n * Second > i64_max"
proof -
  have "\<exists>n. ParseDuration (trimSpace raw) = None \<and> parseInt (trimSpace raw) = Some n \<and> 0 \<le> n \<and>
      wrap64 (n * Second) < 0"
    using assms by (auto simp: duration_value_def Let_def split: option.splits if_splits)
  then show ?thesis using wrap64_negative by (auto simp: time_consts)
qed

lemma set_dedup: "set (dedup seen xs) = set xs - set seen"
  by (induction seen xs rule: dedup.induct) auto

lemma distinct_dedup: "distinct (dedup seen xs)"
  by (induction seen xs rule: dedup.induct) (auto simp: set_dedup)

lemma pingIntervalHint_range: "0 < pingIntervalHint env \<and> pingIntervalHint env \<le> i64_max"
  using duration_value_range [of defaultAgentPingInterval "env ''HTTPS_PROXY_PING_INTERVAL_HINT''"]
  by (auto simp: pingIntervalHint_def envDuration_def Let_def i64_range_def i64_max_def i64_min_def
      defaultAgentPingInterval_def time_consts)

lemma heartbeatGrace_range: "minHeartbeatGrace \<le> heartbeatGrace env \<and> heartbeatGrace env \<le> i64_max"
  using duration_value_range [of minHeartbeatGrace "env ''HTTPS_PROXY_HEARTBEAT_GRACE''"]
  by (auto simp: heartbeatGrace_def envDuration_def Let_def i64_range_def i64_max_def i64_min_def
      minHeartbeatGrace_def time_consts)

lemma heartbeat_bound:
  assumes "0 < heartbeatTimeout (NewServerFromEnv env)"
    and "pingIntervalHint env + heartbeatGrace env \<le> i64_max"
  shows "pingIntervalHint env + heartbeatGrace env \<le> heartbeatTimeout (NewServerFromEnv env)"
proof -
  have "wrap64 (pingIntervalHint env + heartbeatGrace env) = pingIntervalHint env + heartbeatGrace env"
    using pingIntervalHint_range [of env] heartbeatGrace_range [of env] assms(2)
    by (intro wrap64_nonneg_id) (auto simp: minHeartbeatGrace_def time_consts i64_max_def)
  with assms(1) show ?thesis
    by (auto simp: NewServerFromEnv_def adjustHeartbeat_def Let_def split: prod.splits if_splits)
qed

section \<open>Properties\<close>

text \<open>A timeout read from the environment is negative only when the value is a plain number of
  seconds whose nanoseconds exceed 64 bits: the guard against negative values is applied before the
  multiplication, not after it.\<close>

theorem envDuration_negative_only_by_overflow:
  assumes "0 \<le> dflt" and "envDuration env key dflt < 0"
  shows "\<exists>n. parseInt (trimSpace (env key)) = Some n \<and> n * Second > i64_max"
  using duration_value_negative [OF assms(1), of "env key"] assms(2) by (auto simp: envDuration_def)

end
