(* ===== verification/Go_Query.thy ===== *)
theory Go_Query
  imports Go_Http "HOL-Library.Multiset"
begin

text \<open>
  \<^verbatim>\<open>net/url\<close> query strings: \<^verbatim>\<open>QueryEscape\<close>, \<^verbatim>\<open>QueryUnescape\<close>, \<^verbatim>\<open>ParseQuery\<close> and
  \<^verbatim>\<open>Values.Encode\<close>.  A \<^verbatim>\<open>url.Values\<close> is, like a header, an association list from keys to value
  lists; \<open>Encode\<close> sorts the keys, so its result does not depend on the order of the list.
\<close>

section \<open>Definitions\<close>

type_synonym query = "(string \<times> string list) list"

definition hex_digit :: "nat \<Rightarrow> char" where
  "hex_digit n = (if n < 10 then char_of (48 + n) else char_of (55 + n))"

definition is_hex :: "char \<Rightarrow> bool" where
  "is_hex c \<longleftrightarrow> is_digit c \<or> 97 \<le> ord_of c \<and> ord_of c \<le> 102 \<or> 65 \<le> ord_of c \<and> ord_of c \<le> 70"

definition unhex :: "char \<Rightarrow> nat" where
  "unhex c =
     (if is_digit c then ord_of c - 48 else if is_lower c then ord_of c - 87 else ord_of c - 55)"

definition unreserved :: "char \<Rightarrow> bool" where
  "unreserved c \<longleftrightarrow> is_lower c \<or> is_upper c \<or> is_digit c \<or> c \<in> set ''-_.~''"

fun queryEscape :: "string \<Rightarrow> string" where
  "queryEscape [] = []"
| "queryEscape (c # s) =
     (if unreserved c then c # queryEscape s
      else if c = CHR '' '' then CHR ''+'' # queryEscape s
      else CHR ''%'' # hex_digit (ord_of c div 16) # hex_digit (ord_of c mod 16) # queryEscape s)"

text \<open>\<open>None\<close> is the error of a malformed escape.\<close>

fun queryUnescape :: "string \<Rightarrow> string option" where
  "queryUnescape [] = Some []"
| "queryUnescape (c # s) =
     (if c = CHR ''%'' then
        (case s of
           h # l # r \<Rightarrow>
             if is_hex h \<and> is_hex l
             then map_option ((#) (char_of (16 * unhex h + unhex l))) (queryUnescape r)
             else None
         | _ \<Rightarrow> None)
      else if c = CHR ''+'' then map_option ((#) (CHR '' '')) (queryUnescape s)
      else map_option ((#) c) (queryUnescape s))"

definition qlookup :: "query \<Rightarrow> string \<Rightarrow> string list" where
  "qlookup q k = (case map_of q k of None \<Rightarrow> [] | Some vs \<Rightarrow> vs)"

definition qget :: "query \<Rightarrow> string \<Rightarrow> string" where
  "qget q k = (case qlookup q k of [] \<Rightarrow> [] | v # _ \<Rightarrow> v)"

definition qdel :: "query \<Rightarrow> string \<Rightarrow> query" where
  "qdel q k = AList.delete k q"

definition qappend :: "query \<Rightarrow> string \<Rightarrow> string \<Rightarrow> query" where
  "qappend q k v = AList.update k (qlookup q k @ [v]) q"

text \<open>One \<open>key=value\<close> piece of the query; \<open>Inl ()\<close> is a malformed one, \<open>Inr None\<close> an empty one.\<close>

definition parse_pair :: "string \<Rightarrow> unit + (string \<times> string) option" where
  "parse_pair p =
     (if CHR '';'' \<in> set p then Inl ()
      else if p = [] then Inr None
      else case cutAt CHR ''='' p of (k, rest) \<Rightarrow>
        (case (queryUnescape k, queryUnescape (case rest of None \<Rightarrow> [] | Some v \<Rightarrow> v)) of
           (Some k', Some v') \<Rightarrow> Inr (Some (k', v'))
         | _ \<Rightarrow> Inl ()))"

fun parse_pairs :: "string list \<Rightarrow> query \<Rightarrow> query \<times> bool" where
  "parse_pairs [] q = (q, True)"
| "parse_pairs (p # ps) q =
     (case parse_pair p of
        Inl _ \<Rightarrow> (fst (parse_pairs ps q), False)
      | Inr None \<Rightarrow> parse_pairs ps q
      | Inr (Some (k, v)) \<Rightarrow> parse_pairs ps (qappend q k v))"

text \<open>The limit on the number of pieces; a longer query yields an error and no values.\<close>

definition maxQueryParams :: nat where "maxQueryParams = 10000"

text \<open>The values that could be parsed, and whether there was no error.\<close>

definition ParseQuery :: "string \<Rightarrow> query \<times> bool" where
  "ParseQuery s =
     (let ps = splitOn CHR ''&'' s
      in if length ps > maxQueryParams then ([], False) else parse_pairs ps [])"

definition encode_key :: "query \<Rightarrow> string \<Rightarrow> string list" where
  "encode_key q k = map (\<lambda>v. queryEscape k @ ''='' @ queryEscape v) (qlookup q k)"

definition Encode :: "query \<Rightarrow> string" where
  "Encode q = joinWith ''&'' (concat (map (encode_key q) (sort (map fst q))))"

section \<open>Lemmas\<close>

lemma is_hex_digit: "n < 16 \<Longrightarrow> is_hex (hex_digit n)"
  by (auto simp: is_hex_def hex_digit_def is_digit_def of_char_of)

lemma unhex_digit: "n < 16 \<Longrightarrow> unhex (hex_digit n) = n"
  by (auto simp: unhex_def hex_digit_def is_digit_def is_lower_def of_char_of)

lemma ord_nibbles: "ord_of c div 16 < 16" "ord_of c mod 16 < (16 :: nat)"
  using nat_of_char_less_256 [of c] by (simp_all add: div_less_iff_less_mult)

lemma queryUnescape_Escape [simp]: "queryUnescape (queryEscape s) = Some s"
proof (induction s)
  case (Cons c s)
  have hl: "is_hex (hex_digit (ord_of c div 16))" "is_hex (hex_digit (ord_of c mod 16))"
    "char_of (16 * unhex (hex_digit (ord_of c div 16)) + unhex (hex_digit (ord_of c mod 16))) = c"
    using ord_nibbles [of c] by (simp_all add: is_hex_digit unhex_digit)
  have "c \<noteq> CHR ''%'' \<and> c \<noteq> CHR ''+''" if "unreserved c"
    using that by (auto simp: unreserved_def is_lower_def is_upper_def is_digit_def)
  with Cons hl show ?case by auto
qed simp

lemma hex_digit_plain: "n < 16 \<Longrightarrow> hex_digit n \<noteq> CHR '';'' \<and> hex_digit n \<noteq> CHR ''&'' \<and> hex_digit n \<noteq> CHR ''=''"
  using is_hex_digit [of n] by (auto simp: is_hex_def is_digit_def)

lemma queryEscape_plain: "c \<in> set (queryEscape s) \<Longrightarrow> c \<noteq> CHR '';'' \<and> c \<noteq> CHR ''&'' \<and> c \<noteq> CHR ''=''"
proof (induction s)
  case (Cons d s)
  have "hex_digit (ord_of d div 16) \<noteq> x \<and> hex_digit (ord_of d mod 16) \<noteq> x"
    if "x \<in> set '';&=''" for x
    using that hex_digit_plain [OF ord_nibbles(1) [of d]] hex_digit_plain [OF ord_nibbles(2) [of d]] by auto
  moreover have "d \<notin> set '';&=''" if "unreserved d"
    using that by (auto simp: unreserved_def is_lower_def is_upper_def is_digit_def)
  ultimately show ?case using Cons by (auto split: if_splits)
qed simp

lemma parse_pair_encoded [simp]:
  "parse_pair (queryEscape k @ CHR ''='' # queryEscape v) = Inr (Some (k, v))"
proof -
  have "CHR '';'' \<notin> set (queryEscape k @ CHR ''='' # queryEscape v)"
    using queryEscape_plain by fastforce
  moreover have "cutAt CHR ''='' (queryEscape k @ CHR ''='' # queryEscape v) = (queryEscape k, Some (queryEscape v))"
    using queryEscape_plain by (intro cutAt_append) fastforce
  ultimately show ?thesis by (simp add: parse_pair_def)
qed

lemma qlookup_qappend: "qlookup (qappend q k v) k' = qlookup q k' @ (if k' = k then [v] else [])"
  by (simp add: qlookup_def qappend_def AList.update_conv')

lemma qlookup_qdel: "qlookup (qdel q k) k' = (if k' = k then [] else qlookup q k')"
  by (simp add: qlookup_def qdel_def AList.delete_conv')

lemma parse_pairs_append:
  "parse_pairs (ps @ ps') q =
     (let (q1, ok1) = parse_pairs ps q; (q2, ok2) = parse_pairs ps' q1 in (q2, ok1 \<and> ok2))"
  by (induction ps q rule: parse_pairs.induct) (auto split: sum.splits option.splits prod.splits)

lemma parse_pairs_key:
  "parse_pairs (encode_key q k) r = (r', ok) \<Longrightarrow>
   ok \<and> (\<forall>k'. qlookup r' k' = qlookup r k' @ (if k' = k then qlookup q k else []))"
proof -
  have "snd (parse_pairs (map (\<lambda>v. queryEscape k @ ''='' @ queryEscape v) vs) r) \<and>
    (\<forall>k'. qlookup (fst (parse_pairs (map (\<lambda>v. queryEscape k @ ''='' @ queryEscape v) vs) r)) k' =
      qlookup r k' @ (if k' = k then vs else []))" for vs
    by (induction vs arbitrary: r) (simp_all add: qlookup_qappend)
  from this [of "qlookup q k"] show "parse_pairs (encode_key q k) r = (r', ok) \<Longrightarrow> ?thesis"
    by (simp add: encode_key_def)
qed

lemma parse_pairs_keys:
  "distinct ks \<Longrightarrow> parse_pairs (concat (map (encode_key q) ks)) r = (r', ok) \<Longrightarrow>
   ok \<and> (\<forall>k'. qlookup r' k' = qlookup r k' @ (if k' \<in> set ks then qlookup q k' else []))"
proof (induction ks arbitrary: r r' ok)
  case (Cons k ks)
  obtain r1 ok1 where 1: "parse_pairs (encode_key q k) r = (r1, ok1)" by fastforce
  obtain r2 ok2 where 2: "parse_pairs (concat (map (encode_key q) ks)) r1 = (r2, ok2)" by fastforce
  have "r' = r2 \<and> ok = (ok1 \<and> ok2)" using Cons.prems(2) 1 2 by (simp add: parse_pairs_append)
  then show ?case
    using parse_pairs_key [OF 1] Cons.IH [OF _ 2] Cons.prems(1) by auto
qed simp

text \<open>The number of pieces of an encoded query.\<close>

definition query_size :: "query \<Rightarrow> nat" where
  "query_size q = (\<Sum>(k, vs) \<leftarrow> q. length vs)"

lemma query_size_lookup:
  assumes "distinct (map fst q)"
  shows "(\<Sum>k \<leftarrow> map fst q. length (qlookup q k)) = query_size q"
proof -
  have "map (\<lambda>k. length (qlookup q k)) (map fst q) = map (\<lambda>(k, vs). length vs) q"
    using assms by (auto simp: qlookup_def)
  then show ?thesis by (simp only: query_size_def)
qed

lemma length_encoded: "length (concat (map (encode_key q) ks)) = (\<Sum>k \<leftarrow> ks. length (qlookup q k))"
  by (induction ks) (simp_all add: encode_key_def)

lemma sum_list_sort: "(\<Sum>k \<leftarrow> sort ks. f k) = (\<Sum>k \<leftarrow> ks. f k :: nat)" for ks :: "string list"
  by (metis mset_map mset_sort sum_mset_sum_list)

lemma splitOn_encoded:
  assumes "ps \<noteq> []" and "\<And>p. p \<in> set ps \<Longrightarrow> CHR ''&'' \<notin> set p"
  shows "splitOn CHR ''&'' (joinWith ''&'' ps) = ps"
  using assms by (intro splitOn_joinWith) auto

lemma ParseQuery_Encode:
  assumes "distinct (map fst q)" and "query_size q \<le> maxQueryParams"
  shows "snd (ParseQuery (Encode q))" and "qlookup (fst (ParseQuery (Encode q))) k = qlookup q k"
proof -
  let ?ks = "sort (map fst q)" and ?ps = "concat (map (encode_key q) (sort (map fst q)))"
  obtain r ok where pp: "parse_pairs ?ps [] = (r, ok)" by fastforce
  have r: "ok \<and> (\<forall>k'. qlookup r k' = (if k' \<in> set ?ks then qlookup q k' else []))"
    using parse_pairs_keys [OF _ pp] assms(1) by (auto simp: qlookup_def)
  have dom: "k \<notin> fst ` set q \<Longrightarrow> qlookup q k = []" by (simp add: qlookup_def map_of_eq_None_iff [THEN iffD2])
  have len: "length ?ps \<le> maxQueryParams"
    using assms(2) query_size_lookup [OF assms(1)] by (simp add: length_encoded sum_list_sort)
  have sep: "CHR ''&'' \<notin> set p" if "p \<in> set ?ps" for p
    using that by (auto simp: encode_key_def dest: queryEscape_plain)
  have "ParseQuery (Encode q) = (r, ok)"
  proof (cases "?ps = []")
    case True
    with pp show ?thesis unfolding ParseQuery_def Encode_def True
      by (simp add: maxQueryParams_def parse_pair_def)
  next
    case False
    then show ?thesis using pp len splitOn_encoded [OF False sep]
      by (simp add: ParseQuery_def Encode_def Let_def)
  qed
  then show "snd (ParseQuery (Encode q))" and "qlookup (fst (ParseQuery (Encode q))) k = qlookup q k"
    using r dom by auto
qed

subsection \<open>Parsed queries\<close>

lemma distinct_parse_pairs: "distinct (map fst q) \<Longrightarrow> distinct (map fst (fst (parse_pairs ps q)))"
  by (induction ps q rule: parse_pairs.induct)
    (auto simp: qappend_def AList.distinct_update split: sum.splits option.splits prod.splits)

lemma query_size_qdel: "query_size (qdel q k) \<le> query_size q"
  by (induction q) (auto simp: query_size_def qdel_def AList.delete_eq)

lemma query_size_qappend: "query_size (qappend q k v) = query_size q + 1"
  by (induction q) (auto simp: query_size_def qappend_def qlookup_def)

lemma query_size_parse_pairs: "query_size (fst (parse_pairs ps q)) \<le> query_size q + length ps"
proof (induction ps q rule: parse_pairs.induct)
  case (2 p ps q)
  then show ?case by (fastforce simp: query_size_qappend split: sum.splits option.splits prod.splits)
qed simp

lemma ParseQuery_ok:
  "distinct (map fst (fst (ParseQuery s)))" "query_size (fst (ParseQuery s)) \<le> maxQueryParams"
proof -
  show "distinct (map fst (fst (ParseQuery s)))"
    using distinct_parse_pairs [of "[]"] by (simp add: ParseQuery_def Let_def)
  show "query_size (fst (ParseQuery s)) \<le> maxQueryParams"
    using query_size_parse_pairs [of "splitOn CHR ''&'' s" "[]"]
    by (auto simp: ParseQuery_def Let_def query_size_def)
qed

end
