(* ===== verification/Go_Net.thy ===== *)
theory Go_Net
  imports Go_Query
begin

text \<open>
  The address functions of package \<^verbatim>\<open>net\<close> the program uses: \<^verbatim>\<open>SplitHostPort\<close>, \<^verbatim>\<open>JoinHostPort\<close>,
  \<^verbatim>\<open>ParseIP\<close> (with the IPv4 and IPv6 grammars of \<^verbatim>\<open>netip.ParseAddr\<close>) and \<^verbatim>\<open>IP.IsLoopback\<close>.
  An address is its 16 bytes, each a natural below 256; IPv4 addresses are the mapped ones.
\<close>

section \<open>Definitions\<close>

text \<open>The part before the last occurrence of a character and the part after it.\<close>

definition cutLast :: "char \<Rightarrow> string \<Rightarrow> (string \<times> string) option" where
  "cutLast c s =
     (case cutAt c (rev s) of (_, None) \<Rightarrow> None | (a, Some b) \<Rightarrow> Some (rev b, rev a))"

definition SplitHostPort :: "string \<Rightarrow> (string \<times> string) result" where
  "SplitHostPort s =
     (case cutLast CHR '':'' s of
        None \<Rightarrow> Inl ''missing port in address''
      | Some (a, port) \<Rightarrow>
          if hasPrefix s ''['' then
            (case cutAt CHR '']'' s of
               (_, None) \<Rightarrow> Inl ''missing ']' in address''
             | (pre, Some post) \<Rightarrow>
                 if post = [] then Inl ''missing port in address''
                 else if length pre + 1 \<noteq> length a then
                   (if hd post = CHR '':'' then Inl ''too many colons in address''
                    else Inl ''missing port in address'')
                 else if CHR ''['' \<in> set (tl s) then Inl ''unexpected '[' in address''
                 else if CHR '']'' \<in> set post then Inl ''unexpected ']' in address''
                 else Inr (tl pre, port))
          else if CHR '':'' \<in> set a then Inl ''too many colons in address''
          else if CHR ''['' \<in> set s then Inl ''unexpected '[' in address''
          else if CHR '']'' \<in> set s then Inl ''unexpected ']' in address''
          else Inr (a, port))"

definition JoinHostPort :: "string \<Rightarrow> string \<Rightarrow> string" where
  "JoinHostPort host port =
     (if CHR '':'' \<in> set host then ''['' @ host @ '']:'' @ port else host @ '':'' @ port)"

definition parse_octet :: "string \<Rightarrow> nat option" where
  "parse_octet s =
     (if s = [] \<or> \<not> list_all is_digit s \<or> (length s > 1 \<and> hd s = CHR ''0'') \<or> length s > 3
         \<or> digits_val 0 s > 255
      then None else Some (nat (digits_val 0 s)))"

fun those_octets :: "string list \<Rightarrow> nat list option" where
  "those_octets [] = Some []"
| "those_octets (s # ss) =
     (case (parse_octet s, those_octets ss) of (Some n, Some ns) \<Rightarrow> Some (n # ns) | _ \<Rightarrow> None)"

definition parseIPv4 :: "string \<Rightarrow> nat list option" where
  "parseIPv4 s =
     (let fs = splitOn CHR ''.'' s in if length fs = 4 then those_octets fs else None)"

fun hex_val :: "nat \<Rightarrow> string \<Rightarrow> nat" where
  "hex_val acc [] = acc"
| "hex_val acc (c # s) = hex_val (16 * acc + unhex c) s"

text \<open>
  The groups of an IPv6 address: \<open>ip\<close> the bytes so far, \<open>ell\<close> the position of the ellipsis.  The
  result is the bytes, the ellipsis and the rest of the string.
\<close>

function ipv6_groups ::
  "string \<Rightarrow> nat list \<Rightarrow> nat option \<Rightarrow> (nat list \<times> nat option \<times> string) option" where
  "ipv6_groups s ip ell =
     (if length ip \<ge> 16 then Some (ip, ell, s)
      else
        let g = takeWhile is_hex s; r = dropWhile is_hex s
        in if g = [] \<or> length g > 4 then None
           else if hasPrefix r ''.'' then
             (if ell = None \<and> length ip \<noteq> 12 \<or> length ip + 4 > 16 then None
              else map_option (\<lambda>q. (ip @ q, ell, [])) (parseIPv4 s))
           else
             let ip' = ip @ [hex_val 0 g div 256, hex_val 0 g mod 256]
             in if r = [] then Some (ip', ell, [])
                else if hd r \<noteq> CHR '':'' \<or> length r = 1 then None
                else if hd (tl r) = CHR '':'' then
                  (if ell \<noteq> None then None
                   else if tl (tl r) = [] then Some (ip', Some (length ip'), [])
                   else ipv6_groups (tl (tl r)) ip' (Some (length ip')))
                else ipv6_groups (tl r) ip' ell)"
  by pat_completeness auto
termination
  by (relation "measure (\<lambda>(s, ip, ell). 16 - length ip)") auto

declare ipv6_groups.simps [simp del]

definition expand_ellipsis :: "nat list \<times> nat option \<times> string \<Rightarrow> nat list option" where
  "expand_ellipsis x =
     (case x of (ip, ell, rest) \<Rightarrow>
        if rest \<noteq> [] then None
        else if length ip < 16 then
          (case ell of
             None \<Rightarrow> None
           | Some e \<Rightarrow> Some (take e ip @ replicate (16 - length ip) 0 @ drop e ip))
        else if ell \<noteq> None then None
        else Some ip)"

text \<open>An address with a zone is not an IP of package \<^verbatim>\<open>net\<close>.\<close>

definition parseIPv6 :: "string \<Rightarrow> nat list option" where
  "parseIPv6 s =
     (if CHR ''%'' \<in> set s then None
      else if hasPrefix s ''::'' then
        (if length s = 2 then Some (replicate 16 0)
         else Option.bind (ipv6_groups (drop 2 s) [] (Some 0)) expand_ellipsis)
      else Option.bind (ipv6_groups s [] None) expand_ellipsis)"

definition map4in6 :: "nat list \<Rightarrow> nat list" where
  "map4in6 ip = replicate 10 0 @ [255, 255] @ ip"

definition ParseIP :: "string \<Rightarrow> nat list option" where
  "ParseIP s =
     (case dropWhile (\<lambda>c. c \<noteq> CHR ''.'' \<and> c \<noteq> CHR '':'' \<and> c \<noteq> CHR ''%'') s of
        [] \<Rightarrow> None
      | c # _ \<Rightarrow>
          if c = CHR ''.'' then map_option map4in6 (parseIPv4 s)
          else if c = CHR '':'' then parseIPv6 s
          else None)"

definition IsLoopback :: "nat list \<Rightarrow> bool" where
  "IsLoopback ip =
     (if take 12 ip = replicate 10 0 @ [255, 255] then ip ! 12 = 127
      else ip = replicate 15 0 @ [1])"

definition trimChars :: "string \<Rightarrow> string \<Rightarrow> string" where
  "trimChars cs s = rev (dropWhile (\<lambda>c. c \<in> set cs) (rev (dropWhile (\<lambda>c. c \<in> set cs) s)))"

section \<open>Lemmas\<close>

lemma cutLast_append:
  assumes "c \<notin> set p"
  shows "cutLast c (h @ c # p) = Some (h, p)"
proof -
  have "cutAt c (rev p @ c # rev h) = (rev p, Some (rev h))"
    using assms by (intro cutAt_append) simp
  then show ?thesis by (simp add: cutLast_def)
qed

lemma SplitHostPort_plain:
  assumes "\<forall>c \<in> set h. c \<notin> set '':[]''" and "\<forall>c \<in> set p. c \<notin> set '':[]''"
  shows "SplitHostPort (h @ CHR '':'' # p) = Inr (h, p)"
proof -
  have "cutLast CHR '':'' (h @ CHR '':'' # p) = Some (h, p)"
    using assms(2) by (intro cutLast_append) auto
  moreover have "\<not> hasPrefix (h @ CHR '':'' # p) ''[''"
    using assms(1) by (cases h) (auto simp: hasPrefix_def)
  ultimately show ?thesis using assms by (auto simp: SplitHostPort_def)
qed

lemma trimChars_id: "\<forall>c \<in> set s. c \<notin> set cs \<Longrightarrow> trimChars cs s = s"
proof -
  assume *: "\<forall>c \<in> set s. c \<notin> set cs"
  have "dropWhile (\<lambda>c. c \<in> set cs) xs = xs" if "set xs \<subseteq> set s" for xs
    using that * by (cases xs) auto
  then show ?thesis by (simp add: trimChars_def)
qed

lemma parse_octet_itoa: "n < 256 \<Longrightarrow> parse_octet (itoa_nat n) = Some n"
proof -
  assume n: "n < 256"
  have len: "length (itoa_nat n) \<le> 3" using length_itoa_nat [of n 2] n by simp
  have "\<not> (length (itoa_nat n) > 1 \<and> hd (itoa_nat n) = CHR ''0'')"
    using itoa_nat_hd [of n] by (cases "n = 0") (auto simp: itoa_nat.simps [of 0])
  with n len itoa_nat_digits [of n] show ?thesis by (auto simp: parse_octet_def)
qed

definition ipv4_text :: "nat \<Rightarrow> nat \<Rightarrow> nat \<Rightarrow> nat \<Rightarrow> string" where
  "ipv4_text a b c d = joinWith ''.'' (map itoa_nat [a, b, c, d])"

lemma itoa_nat_plain: "x \<in> set (itoa_nat n) \<Longrightarrow> is_digit x"
  using itoa_nat_digits [of n] by (auto simp: list_all_iff)

lemma ipv4_text_chars: "x \<in> set (ipv4_text a b c d) \<Longrightarrow> is_digit x \<or> x = CHR ''.''"
  by (auto simp: ipv4_text_def dest: itoa_nat_plain)

lemma parseIPv4_text:
  assumes "a < 256" "b < 256" "c < 256" "d < 256"
  shows "parseIPv4 (ipv4_text a b c d) = Some [a, b, c, d]"
proof -
  have "CHR ''.'' \<notin> set (itoa_nat n)" for n
    using itoa_nat_plain by (fastforce simp: is_digit_def)
  then have "splitOn CHR ''.'' (ipv4_text a b c d) = map itoa_nat [a, b, c, d]"
    unfolding ipv4_text_def by (intro splitOn_joinWith) auto
  with assms show ?thesis by (simp add: parseIPv4_def parse_octet_itoa)
qed

lemma dropWhile_first_dot:
  assumes "\<forall>x \<in> set xs. is_digit x"
  shows "dropWhile (\<lambda>c. c \<noteq> CHR ''.'' \<and> c \<noteq> CHR '':'' \<and> c \<noteq> CHR ''%'') (xs @ CHR ''.'' # ys) = CHR ''.'' # ys"
  using assms by (induction xs) (auto simp: is_digit_def)

lemma ParseIP_ipv4:
  assumes "a < 256" "b < 256" "c < 256" "d < 256"
  shows "ParseIP (ipv4_text a b c d) = Some (map4in6 [a, b, c, d])"
proof -
  obtain ys where ys: "ipv4_text a b c d = itoa_nat a @ CHR ''.'' # ys"
    by (simp add: ipv4_text_def)
  have "\<forall>x \<in> set (itoa_nat a). is_digit x" using itoa_nat_plain by blast
  from dropWhile_first_dot [OF this, of ys] show ?thesis
    using parseIPv4_text [OF assms] by (simp add: ParseIP_def ys)
qed

end
