(* ===== verification/Gateway_Server.thy ===== *)
theory Gateway_Server
  imports Gateway_Config Go_Net
begin

text \<open>
  \<^verbatim>\<open>internal/gateway/server.go\<close>: registration of agents, the registry \<^verbatim>\<open>agentByUUID\<close>, the proxy mode
  policy, the localhost guard of \<^verbatim>\<open>/status\<close>, the routing of client requests and the mapping of query
  tokens to an \<^verbatim>\<open>Authorization\<close> header.

  \<open>gw_step\<close> interleaves registrations, the goroutine that removes an agent once its connection is closed,
  the heartbeat goroutine (which removes the agent first and closes the connection after it, two steps) and
  the steps of every connection.
\<close>

section \<open>Proxy mode policy\<close>

definition normalizeRegisterProxyMode :: "string \<Rightarrow> string" where
  "normalizeRegisterProxyMode raw =
     (case NormalizeProxyMode raw of Inl _ \<Rightarrow> ProxyModeLegacyFramed | Inr mode \<Rightarrow> mode)"

definition normalizeRegisterTargetKind :: "string \<Rightarrow> string" where
  "normalizeRegisterTargetKind raw =
     (case NormalizeTargetKind raw of Inl _ \<Rightarrow> TargetKindUnknown | Inr kind \<Rightarrow> kind)"

definition isTransparentAllowed :: "Server \<Rightarrow> string \<Rightarrow> bool" where
  "isTransparentAllowed s u =
     (if u = [] then False
      else if transparentAllowUUIDSet s \<noteq> [] \<and> u \<in> set (transparentAllowUUIDSet s) then True
      else list_ex (\<lambda>prefix. hasPrefix u prefix) (transparentAllowPrefixes s))"

definition resolveProxyMode :: "Server \<Rightarrow> string \<Rightarrow> string \<Rightarrow> string \<times> string" where
  "resolveProxyMode s u requested =
     (if requested \<noteq> ProxyModeTransparentTunnel then (ProxyModeLegacyFramed, ''legacy_requested'')
      else if forceLegacyMode s then (ProxyModeLegacyFramed, ''force_legacy_mode'')
      else if \<not> transparentEnabled s then (ProxyModeLegacyFramed, ''transparent_disabled'')
      else if \<not> isTransparentAllowed s u then (ProxyModeLegacyFramed, ''transparent_not_whitelisted'')
      else (ProxyModeTransparentTunnel, ''transparent_allowed''))"

section \<open>Registration\<close>

text \<open>
  What a registration request gets: an HTTP error, nothing (the upgrade failed and answered itself), the
  upgrade followed by a close frame, or the upgrade with the connection now online.
\<close>

datatype register_outcome =
    RegError int string
  | RegUpgradeFailed
  | RegRejected header int string
  | RegOnline header nat

definition registerRespHeader :: "string \<Rightarrow> string \<Rightarrow> header" where
  "registerRespHeader effective reason =
     hset (hset [] HeaderProxyMode effective) HeaderProxyModeReason reason"

text \<open>\<open>upgraded\<close>: the outcome of \<^verbatim>\<open>upgrader.Upgrade\<close>.\<close>

definition handleRegister ::
  "Server \<Rightarrow> header \<Rightarrow> string \<Rightarrow> bool \<Rightarrow> int \<Rightarrow> register_outcome \<times> Server" where
  "handleRegister s hdr rawQuery upgraded now =
     (let q = fst (ParseQuery rawQuery); u = qget q ''uuid''
      in if agentTokenSet s \<noteq> [] \<and> hget hdr ''X-Token'' \<notin> set (agentTokenSet s)
         then (RegError 403 ''forbidden'', s)
         else if u = [] then (RegError 400 ''missing uuid'', s)
         else
           let requested = normalizeRegisterProxyMode (qget q ''proxy_mode'');
               kind = normalizeRegisterTargetKind (qget q ''target_kind'');
               (effective, reason) = resolveProxyMode s u requested;
               resp = registerRespHeader effective reason
           in if \<not> upgraded then (RegUpgradeFailed, s)
              else if map_of (agentByUUID s) u \<noteq> None then (RegRejected resp 4009 ''uuid already active'', s)
              else
                let c = newAgentConn u requested effective reason kind (maxStreamsPerAgent s) now;
                    r = length (conns s)
                in (RegOnline resp r,
                    s\<lparr>conns := conns s @ [c], agentByUUID := AList.update u r (agentByUUID s)\<rparr>))"

text \<open>The read limit of an agent connection, set on the upgraded connection.\<close>

definition agentReadLimit :: "Server \<Rightarrow> int" where
  "agentReadLimit s = wsReadLimitBytes s + int WebSocketFrameOverhead"

definition removeAgentIfMatch :: "Server \<Rightarrow> string \<Rightarrow> nat \<Rightarrow> Server" where
  "removeAgentIfMatch s u r =
     (if map_of (agentByUUID s) u = Some r then s\<lparr>agentByUUID := AList.delete u (agentByUUID s)\<rparr> else s)"

definition getAgent :: "Server \<Rightarrow> string \<Rightarrow> nat option" where
  "getAgent s u = map_of (agentByUUID s) u"

text \<open>
  A tick of the heartbeat goroutine of connection \<open>r\<close>: does it declare the agent dead?  The select may take the
  tick although the connection has been closed.
\<close>

definition heartbeat_expired :: "Server \<Rightarrow> nat \<Rightarrow> int \<Rightarrow> bool" where
  "heartbeat_expired s r now \<longleftrightarrow>
     heartbeatTimeout s > 0 \<and> idleFor (conns s ! r) now > heartbeatTimeout s"

definition updConn :: "Server \<Rightarrow> nat \<Rightarrow> agentConn \<Rightarrow> Server" where
  "updConn s r c = s\<lparr>conns := (conns s)[r := c]\<rparr>"

section \<open>The registry as a transition system\<close>

record gw =
  srv :: Server
  evicting :: "nat list"

inductive gw_step :: "gw \<Rightarrow> gw \<Rightarrow> bool" where
  register: "handleRegister (srv g) hdr q up now = (out, s') \<Longrightarrow> gw_step g (g\<lparr>srv := s'\<rparr>)"
| unregister: "r < length (conns (srv g)) \<Longrightarrow> connClosed (conns (srv g) ! r) \<Longrightarrow>
    gw_step g (g\<lparr>srv := removeAgentIfMatch (srv g) (uuid (conns (srv g) ! r)) r\<rparr>)"
| evict: "r < length (conns (srv g)) \<Longrightarrow> heartbeat_expired (srv g) r now \<Longrightarrow>
    gw_step g (g\<lparr>srv := removeAgentIfMatch (srv g) (uuid (conns (srv g) ! r)) r,
                 evicting := r # evicting g\<rparr>)"
| evict_close: "r \<in> set (evicting g) \<Longrightarrow> r < length (conns (srv g)) \<Longrightarrow>
    gw_step g (g\<lparr>srv := updConn (srv g) r (close_begin (conns (srv g) ! r) (Some reason))\<rparr>)"
| conn: "r < length (conns (srv g)) \<Longrightarrow> conn_step (conns (srv g) ! r) c' \<Longrightarrow>
    gw_step g (g\<lparr>srv := updConn (srv g) r c'\<rparr>)"

definition gw_init :: "gw \<Rightarrow> bool" where
  "gw_init g \<longleftrightarrow> (\<exists>env. g = \<lparr>srv = NewServerFromEnv env, evicting = []\<rparr>)"

definition gw_reach :: "gw \<Rightarrow> bool" where
  "gw_reach g \<longleftrightarrow> (\<exists>g0. gw_init g0 \<and> gw_step\<^sup>*\<^sup>* g0 g)"

section \<open>Client requests\<close>

definition isLoopbackRemoteAddr :: "string \<Rightarrow> bool" where
  "isLoopbackRemoteAddr remoteAddr =
     (let h0 = trimSpace remoteAddr
      in if h0 = [] then False
         else
           let h1 = (case SplitHostPort h0 of Inr (h, _) \<Rightarrow> h | Inl _ \<Rightarrow> h0);
               h2 = trimChars ''[]'' h1;
               h3 = fst (cutAt CHR ''%'' h2)
           in if equalFold h3 ''localhost'' then True
              else (case ParseIP h3 of Some ip \<Rightarrow> IsLoopback ip | None \<Rightarrow> False))"

text \<open>Where \<^verbatim>\<open>ServeHTTP\<close> sends a request.\<close>

datatype route = RStatusForbidden | RStatus | RRegister | RClient

definition ServeHTTP_route :: "string \<Rightarrow> string \<Rightarrow> route" where
  "ServeHTTP_route path remoteAddr =
     (if path = ''/status'' then
        (if isLoopbackRemoteAddr remoteAddr then RStatus else RStatusForbidden)
      else if hasPrefix path ''/register'' then RRegister
      else RClient)"

text \<open>One line of the status report per registered agent.\<close>

record agent_status =
  st_uuid :: string
  st_mode :: string
  st_requested :: string
  st_reason :: string
  st_kind :: string
  st_active :: nat
  st_age :: int
  st_idle :: int

definition agent_status_of :: "Server \<Rightarrow> int \<Rightarrow> string \<times> nat \<Rightarrow> agent_status" where
  "agent_status_of s now e =
     (let c = conns s ! snd e
      in \<lparr>st_uuid = fst e, st_mode = proxyModeEffective c, st_requested = proxyModeRequested c,
          st_reason = proxyModeReason c, st_kind = targetKind c, st_active = activeStreamCount c,
          st_age = wholeSeconds (now - bornAt c), st_idle = wholeSeconds (idleFor c now)\<rparr>)"

definition status_report :: "Server \<Rightarrow> int \<Rightarrow> agent_status list" where
  "status_report s now = map (agent_status_of s now) (agentByUUID s)"

text \<open>
  What \<^verbatim>\<open>handleClient\<close> does with a request: not found, agent offline, or one of the four handlers with
  the agent and the path that remains.  \<open>ws\<close> is \<^verbatim>\<open>websocket.IsWebSocketUpgrade(r)\<close>.
\<close>

datatype client_route =
    CNotFound
  | CAgentOffline string
  | CHTTP nat string
  | CWebSocket nat string
  | CWebSocketTransparent nat string
  | CWebSocketTransparentRaw nat string

definition handleClient_route :: "Server \<Rightarrow> string \<Rightarrow> bool \<Rightarrow> client_route \<times> Server" where
  "handleClient_route s path ws =
     (let s' = s\<lparr>nextReqID := nextReqID s + 1\<rparr>;
          trim = trimPrefix path ''/''
      in if trim = [] then (CNotFound, s')
         else
           let parts = splitN2 CHR ''/'' trim;
               u = hd parts;
               rest = (if length parts = 2 then parts ! 1 else [])
           in case getAgent s' u of
                None \<Rightarrow> (CAgentOffline u, s')
              | Some r \<Rightarrow>
                  let suffixPath = (if rest \<noteq> [] then ''/'' @ rest else ''/'');
                      a = conns s' ! r
                  in (if ws then
                        (if proxyModeEffective a = ProxyModeTransparentTunnel then
                           (if targetKind a = TargetKindWebSocket
                            then CWebSocketTransparentRaw r suffixPath
                            else CWebSocketTransparent r suffixPath)
                         else CWebSocket r suffixPath)
                      else CHTTP r suffixPath, s'))"

definition stripForwardingIPHeaders :: "header \<Rightarrow> header" where
  "stripForwardingIPHeaders h = hdel (hdel h ''X-Forwarded-For'') ''Forwarded''"

section \<open>Query tokens\<close>

definition firstQueryValue :: "query \<Rightarrow> string \<Rightarrow> string" where
  "firstQueryValue q key =
     (case filter (\<lambda>v. trimSpace v \<noteq> []) (qlookup q key) of [] \<Rightarrow> [] | v # _ \<Rightarrow> v)"

definition queryAuth :: "query \<Rightarrow> string" where
  "queryAuth q =
     (let a0 = trimSpace (firstQueryValue q ''authorization'');
          t1 = trimSpace (firstQueryValue q ''access_token'');
          a1 = (if a0 = [] \<and> t1 \<noteq> [] then ''Bearer '' @ t1 else a0);
          t2 = trimSpace (firstQueryValue q ''token'');
          a2 = (if a1 = [] \<and> t2 \<noteq> [] then ''Bearer '' @ t2 else a1)
      in if a2 \<noteq> [] \<and> \<not> hasPrefix (toLower a2) ''bearer '' then ''Bearer '' @ a2 else a2)"

definition applyQueryBearerAuth :: "header \<Rightarrow> string \<Rightarrow> header \<times> string" where
  "applyQueryBearerAuth h rawQuery =
     (if trimSpace rawQuery = [] then (h, rawQuery)
      else case ParseQuery rawQuery of
        (q, False) \<Rightarrow> (h, rawQuery)
      | (q, True) \<Rightarrow>
          ((if queryAuth q \<noteq> [] then hset h ''Authorization'' (queryAuth q) else h),
           Encode (qdel (qdel (qdel q ''authorization'') ''access_token'') ''token'')))"

section \<open>Lemmas\<close>

subsection \<open>What a step of a connection keeps\<close>

definition conn_ident :: "agentConn \<Rightarrow> string \<times> string \<times> string \<times> string \<times> string" where
  "conn_ident c = (uuid c, proxyModeRequested c, proxyModeEffective c, proxyModeReason c, targetKind c)"

lemma conn_ident_ops [simp]:
  "conn_ident (markActive c now) = conn_ident c"
  "conn_ident (closer_start c r err w) = conn_ident c"
  "conn_ident (closer_finish c i) = conn_ident c"
  "conn_ident (deliver_start p c r f) = conn_ident c"
  "conn_ident (close_begin c e) = conn_ident c"
  "conn_ident (close_snapshot c) = conn_ident c"
  "conn_ident (drain_start c) = conn_ident c"
  by (auto simp: conn_ident_def markActive_def closer_start_def closer_finish_def closeChannel_def forgetStream_def updStream_def
      sendReset_def deliver_start_def Let_def close_begin_def close_snapshot_def drain_start_def
      split: close_phase.splits list.splits prod.splits option.splits)

lemma connClosed_ops [simp]:
  "connClosed (markActive c now) = connClosed c"
  "connClosed (closer_start c r err w) = connClosed c"
  "connClosed (closer_finish c i) = connClosed c"
  "connClosed (deliver_start p c r f) = connClosed c"
  "connClosed (close_snapshot c) = connClosed c"
  "connClosed (drain_start c) = connClosed c"
  by (auto simp: markActive_def closer_start_def closer_finish_def forgetStream_def updStream_def
      sendReset_def deliver_start_def Let_def close_snapshot_def drain_start_def
      split: close_phase.splits list.splits prod.splits option.splits)

lemma conn_step_keeps:
  assumes "conn_step c c'"
  shows "conn_ident c' = conn_ident c \<and> (connClosed c \<longrightarrow> connClosed c')"
  using assms
proof cases
  case (open_stream r)
  then show ?thesis by (auto simp: newStream_def Let_def conn_ident_def split: if_splits)
next
  case (ping now appData ok)
  then show ?thesis by (auto simp: ping_handler_def Let_def conn_ident_def markActive_def)
next
  case (recv r d sel res)
  then show ?thesis by (cases sel) (auto simp: updStream_def conn_ident_def split: list.splits if_splits)
next
  case (send r t p ok e)
  then show ?thesis by (auto simp: stream_send_def writeFrame_def conn_ident_def split: if_splits)
next
  case (reset_sent i ok)
  then show ?thesis by (auto simp: run_async_def writeFrame_def conn_ident_def split: prod.splits)
next
  case (close_begins err)
  then show ?thesis by (auto simp: close_begin_def conn_ident_def)
qed auto

subsection \<open>The registry\<close>

definition gw_inv :: "gw \<Rightarrow> bool" where
  "gw_inv g \<longleftrightarrow>
     distinct (map fst (agentByUUID (srv g))) \<and>
     (\<forall>u r. map_of (agentByUUID (srv g)) u = Some r \<longrightarrow>
        r < length (conns (srv g)) \<and> uuid (conns (srv g) ! r) = u \<and> u \<noteq> []) \<and>
     (\<forall>r < length (conns (srv g)). \<not> connClosed (conns (srv g) ! r) \<longrightarrow>
        map_of (agentByUUID (srv g)) (uuid (conns (srv g) ! r)) = Some r \<or> r \<in> set (evicting g)) \<and>
     (\<forall>c \<in> set (conns (srv g)).
        (proxyModeEffective c, proxyModeReason c) = resolveProxyMode (srv g) (uuid c) (proxyModeRequested c))"

lemma gw_invD:
  assumes "gw_inv g"
  shows "map_of (agentByUUID (srv g)) u = Some r \<Longrightarrow> r < length (conns (srv g)) \<and> uuid (conns (srv g) ! r) = u \<and> u \<noteq> []"
    and "r < length (conns (srv g)) \<Longrightarrow> \<not> connClosed (conns (srv g) ! r) \<Longrightarrow>
        map_of (agentByUUID (srv g)) (uuid (conns (srv g) ! r)) = Some r \<or> r \<in> set (evicting g)"
    and "c \<in> set (conns (srv g)) \<Longrightarrow>
        (proxyModeEffective c, proxyModeReason c) = resolveProxyMode (srv g) (uuid c) (proxyModeRequested c)"
  using assms unfolding gw_inv_def by blast+

lemma gw_invI [inv_intros]:
  assumes "distinct (map fst (agentByUUID (srv g)))"
    and "\<And>u r. map_of (agentByUUID (srv g)) u = Some r \<Longrightarrow>
      r < length (conns (srv g)) \<and> uuid (conns (srv g) ! r) = u \<and> u \<noteq> []"
    and "\<And>r. r < length (conns (srv g)) \<Longrightarrow> \<not> connClosed (conns (srv g) ! r) \<Longrightarrow>
      map_of (agentByUUID (srv g)) (uuid (conns (srv g) ! r)) = Some r \<or> r \<in> set (evicting g)"
    and "\<And>c. c \<in> set (conns (srv g)) \<Longrightarrow>
      (proxyModeEffective c, proxyModeReason c) = resolveProxyMode (srv g) (uuid c) (proxyModeRequested c)"
  shows "gw_inv g"
  using assms unfolding gw_inv_def by blast

lemma gw_inv_distinct: "gw_inv g \<Longrightarrow> distinct (map fst (agentByUUID (srv g)))"
  by (simp add: gw_inv_def)

lemma resolveProxyMode_cong:
  "forceLegacyMode s = forceLegacyMode t \<Longrightarrow> transparentEnabled s = transparentEnabled t \<Longrightarrow>
   transparentAllowUUIDSet s = transparentAllowUUIDSet t \<Longrightarrow>
   transparentAllowPrefixes s = transparentAllowPrefixes t \<Longrightarrow>
   resolveProxyMode s u m = resolveProxyMode t u m"
  by (simp add: resolveProxyMode_def isTransparentAllowed_def)

lemma gw_inv_updConn:
  assumes inv: "gw_inv g" and r: "r < length (conns (srv g))"
    and keep: "conn_ident c' = conn_ident (conns (srv g) ! r)"
    and closed: "connClosed (conns (srv g) ! r) \<longrightarrow> connClosed c'"
  shows "gw_inv (g\<lparr>srv := updConn (srv g) r c'\<rparr>)"
proof -
  let ?s = "updConn (srv g) r c'"
  have sel: "agentByUUID ?s = agentByUUID (srv g)" "conns ?s = (conns (srv g))[r := c']"
    "resolveProxyMode ?s u m = resolveProxyMode (srv g) u m" for u m
    by (auto simp: updConn_def intro: resolveProxyMode_cong)
  have id': "uuid (conns ?s ! q) = uuid (conns (srv g) ! q)" if "q < length (conns (srv g))" for q
    using that keep r by (cases "q = r") (auto simp: sel conn_ident_def)
  have cl': "connClosed (conns (srv g) ! q) \<longrightarrow> connClosed (conns ?s ! q)" if "q < length (conns (srv g))" for q
    using that closed r by (cases "q = r") (auto simp: sel)
  have mem: "c = c' \<or> c \<in> set (conns (srv g))" if "c \<in> set (conns ?s)" for c
    using that set_update_subset_insert [of "conns (srv g)" r c'] by (auto simp: sel)
  have mode: "(proxyModeEffective c', proxyModeReason c') =
      resolveProxyMode (srv g) (uuid c') (proxyModeRequested c')"
    using gw_invD(3) [OF inv, of "conns (srv g) ! r"] r keep by (simp add: conn_ident_def)
  show ?thesis
  proof (rule gw_invI)
    show "distinct (map fst (agentByUUID (srv (g\<lparr>srv := ?s\<rparr>))))"
      using gw_inv_distinct [OF inv] by (simp add: sel)
    fix u q assume "map_of (agentByUUID (srv (g\<lparr>srv := ?s\<rparr>))) u = Some q"
    then show "q < length (conns (srv (g\<lparr>srv := ?s\<rparr>))) \<and> uuid (conns (srv (g\<lparr>srv := ?s\<rparr>)) ! q) = u \<and> u \<noteq> []"
      using gw_invD(1) [OF inv, of u q] id' [of q] by (simp add: sel)
  next
    fix q assume "q < length (conns (srv (g\<lparr>srv := ?s\<rparr>)))" "\<not> connClosed (conns (srv (g\<lparr>srv := ?s\<rparr>)) ! q)"
    then show "map_of (agentByUUID (srv (g\<lparr>srv := ?s\<rparr>))) (uuid (conns (srv (g\<lparr>srv := ?s\<rparr>)) ! q)) = Some q \<or>
        q \<in> set (evicting (g\<lparr>srv := ?s\<rparr>))"
      using gw_invD(2) [OF inv, of q] id' [of q] cl' [of q] by (auto simp: sel simp del: map_of_eq_Some_iff)
  next
    fix c assume "c \<in> set (conns (srv (g\<lparr>srv := ?s\<rparr>)))"
    then show "(proxyModeEffective c, proxyModeReason c) =
        resolveProxyMode (srv (g\<lparr>srv := ?s\<rparr>)) (uuid c) (proxyModeRequested c)"
      using mem [of c] mode gw_invD(3) [OF inv, of c] by (auto simp: sel)
  qed
qed

lemma gw_inv_remove:
  assumes inv: "gw_inv g" and ev: "set (evicting g) \<subseteq> set ev"
    and r: "connClosed (conns (srv g) ! r) \<or> r \<in> set ev"
  shows "gw_inv (g\<lparr>srv := removeAgentIfMatch (srv g) (uuid (conns (srv g) ! r)) r, evicting := ev\<rparr>)"
proof -
  let ?u = "uuid (conns (srv g) ! r)"
  let ?s = "removeAgentIfMatch (srv g) ?u r"
  have sel: "conns ?s = conns (srv g)" "resolveProxyMode ?s u m = resolveProxyMode (srv g) u m" for u m
    by (auto simp: removeAgentIfMatch_def intro: resolveProxyMode_cong)
  have map: "map_of (agentByUUID ?s) = (if map_of (agentByUUID (srv g)) ?u = Some r
      then (map_of (agentByUUID (srv g)))(?u := None) else map_of (agentByUUID (srv g)))"
    by (simp add: removeAgentIfMatch_def AList.delete_conv')
  have dist: "distinct (map fst (agentByUUID ?s))"
    using gw_inv_distinct [OF inv] by (simp add: removeAgentIfMatch_def AList.distinct_delete)
  have live: "map_of (agentByUUID ?s) (uuid (conns (srv g) ! q)) = Some q \<or> q \<in> set ev"
    if "q < length (conns (srv g))" "\<not> connClosed (conns (srv g) ! q)" for q
  proof (cases "q = r")
    case False
    with gw_invD(2) [OF inv that] ev show ?thesis by (cases "q \<in> set ev") (auto simp: map)
  qed (use r that in simp)
  show ?thesis
  proof (rule gw_invI)
    fix v q assume "map_of (agentByUUID (srv (g\<lparr>srv := ?s, evicting := ev\<rparr>))) v = Some q"
    then have "map_of (agentByUUID (srv g)) v = Some q" by (simp add: map split: if_splits)
    then show "q < length (conns (srv (g\<lparr>srv := ?s, evicting := ev\<rparr>))) \<and>
        uuid (conns (srv (g\<lparr>srv := ?s, evicting := ev\<rparr>)) ! q) = v \<and> v \<noteq> []"
      using gw_invD(1) [OF inv] by (simp add: sel)
  qed (use dist live gw_invD(3) [OF inv] in \<open>simp_all add: sel del: map_of_eq_Some_iff\<close>)
qed

lemma gw_inv_register:
  assumes inv: "gw_inv g" and reg: "handleRegister (srv g) hdr q up now = (out, s')"
  shows "gw_inv (g\<lparr>srv := s'\<rparr>)"
proof (cases "s' = srv g")
  case False
  define u where "u = qget (fst (ParseQuery q)) ''uuid''"
  define rq where "rq = normalizeRegisterProxyMode (qget (fst (ParseQuery q)) ''proxy_mode'')"
  define k where "k = normalizeRegisterTargetKind (qget (fst (ParseQuery q)) ''target_kind'')"
  obtain ef rs where res: "resolveProxyMode (srv g) u rq = (ef, rs)" by fastforce
  define c where "c = newAgentConn u rq ef rs k (maxStreamsPerAgent (srv g)) now"
  define n where "n = length (conns (srv g))"
  have u: "u \<noteq> []" and new: "map_of (agentByUUID (srv g)) u = None"
    and s': "s' = (srv g)\<lparr>conns := conns (srv g) @ [c], agentByUUID := AList.update u n (agentByUUID (srv g))\<rparr>"
    using reg False res
    by (auto simp: handleRegister_def Let_def u_def [symmetric] rq_def [symmetric] k_def [symmetric]
        c_def [symmetric] n_def [symmetric] split: if_splits)
  have c: "uuid c = u" "proxyModeRequested c = rq" "proxyModeEffective c = ef" "proxyModeReason c = rs"
    by (simp_all add: c_def newAgentConn_def markActive_def)
  have res': "resolveProxyMode s' v m = resolveProxyMode (srv g) v m" for v m
    by (rule resolveProxyMode_cong) (simp_all add: s')
  have nth: "conns s' ! r = (if r = n then c else conns (srv g) ! r)" if "r \<le> n" for r
    using that by (auto simp: s' n_def nth_append)
  have len: "length (conns s') = Suc n" by (simp add: s' n_def)
  have map: "map_of (agentByUUID s') = (map_of (agentByUUID (srv g)))(u \<mapsto> n)"
    by (simp add: s' AList.update_conv')
  show ?thesis
  proof (rule gw_invI)
    fix v r assume "map_of (agentByUUID (srv (g\<lparr>srv := s'\<rparr>))) v = Some r"
    then have "v = u \<and> r = n \<or> map_of (agentByUUID (srv g)) v = Some r" by (auto simp: map split: if_splits)
    then show "r < length (conns (srv (g\<lparr>srv := s'\<rparr>))) \<and> uuid (conns (srv (g\<lparr>srv := s'\<rparr>)) ! r) = v \<and> v \<noteq> []"
      using gw_invD(1) [OF inv, of v r] u len by (auto simp: nth c n_def)
  next
    fix r assume r: "r < length (conns (srv (g\<lparr>srv := s'\<rparr>)))" "\<not> connClosed (conns (srv (g\<lparr>srv := s'\<rparr>)) ! r)"
    then show "map_of (agentByUUID (srv (g\<lparr>srv := s'\<rparr>))) (uuid (conns (srv (g\<lparr>srv := s'\<rparr>)) ! r)) = Some r \<or>
        r \<in> set (evicting (g\<lparr>srv := s'\<rparr>))"
    proof (cases "r = n")
      case False
      with r have "r < length (conns (srv g))" by (simp add: len n_def)
      with r False gw_invD(2) [OF inv, of r] new show ?thesis by (auto simp: map nth n_def)
    qed (simp add: map nth c)
  next
    fix d assume "d \<in> set (conns (srv (g\<lparr>srv := s'\<rparr>)))"
    then have "d = c \<or> d \<in> set (conns (srv g))" by (auto simp: s')
    then show "(proxyModeEffective d, proxyModeReason d) =
        resolveProxyMode (srv (g\<lparr>srv := s'\<rparr>)) (uuid d) (proxyModeRequested d)"
      using gw_invD(3) [OF inv, of d] res by (auto simp: res' c)
  qed (use gw_inv_distinct [OF inv] in \<open>simp add: s' AList.distinct_update\<close>)
qed (simp add: inv)

lemma NewServerFromEnv_empty [simp]: "agentByUUID (NewServerFromEnv env) = []" "conns (NewServerFromEnv env) = []"
  by (simp_all add: NewServerFromEnv_def Let_def split: prod.splits)

lemma NewServerFromEnv_policy [simp]:
  "transparentEnabled (NewServerFromEnv env) = envBool env ''HTTPS_PROXY_TRANSPARENT_ENABLED'' False"
  "forceLegacyMode (NewServerFromEnv env) = envBool env ''HTTPS_PROXY_FORCE_LEGACY_MODE'' False"
  "transparentAllowPrefixes (NewServerFromEnv env) = envCommaStringSlice env ''HTTPS_PROXY_TRANSPARENT_ALLOW_PREFIXES''"
  "transparentAllowUUIDSet (NewServerFromEnv env) = fst (envCommaStringSet env ''HTTPS_PROXY_TRANSPARENT_ALLOW_UUIDS'')"
  "agentTokenSet (NewServerFromEnv env) =
     filter (\<lambda>t. t \<noteq> []) (map trimSpace (splitOn CHR '','' (env ''HTTPS_PROXY_AGENT_TOKENS'')))"
  by (simp_all add: NewServerFromEnv_def Let_def split: prod.splits)

interpretation registry: safety gw_init gw_step gw_inv
proof
  show "gw_inv g" if "gw_init g" for g
    using that NewServerFromEnv_empty by (auto simp: gw_init_def gw_inv_def)
  show "gw_inv h" if "gw_step g h" "gw_inv g" for g h
    using that
  proof cases
    case (unregister r)
    have "gw_inv (g\<lparr>srv := removeAgentIfMatch (srv g) (uuid (conns (srv g) ! r)) r, evicting := evicting g\<rparr>)"
      using that(2) unregister by (intro gw_inv_remove) auto
    then show ?thesis using unregister by simp
  next
    case (evict r now)
    then show ?thesis using that(2) by (auto intro!: gw_inv_remove)
  next
    case (evict_close r reason)
    then show ?thesis
      using that(2) conn_step_keeps [OF conn_step.close_begins] by (auto intro!: gw_inv_updConn)
  next
    case (conn r c')
    then show ?thesis using that(2) conn_step_keeps by (auto intro!: gw_inv_updConn)
  qed (use that(2) gw_inv_register in auto)
qed

lemma gw_reach_inv: "gw_reach g \<Longrightarrow> gw_inv g"
  using registry.reach_inv by (simp add: registry.reach_def gw_reach_def)

subsection \<open>Malformed queries\<close>

text \<open>A percent sign that does not start an escape of two hexadecimal digits.\<close>

fun two_hex :: "string \<Rightarrow> bool" where
  "two_hex (x # y # _) \<longleftrightarrow> is_hex x \<and> is_hex y"
| "two_hex _ \<longleftrightarrow> False"

fun bad_escape :: "string \<Rightarrow> bool" where
  "bad_escape [] \<longleftrightarrow> False"
| "bad_escape (c # s) \<longleftrightarrow> c = CHR ''%'' \<and> \<not> two_hex s \<or> bad_escape s"

lemma two_hex_sep: "\<not> is_hex c \<Longrightarrow> two_hex (a @ c # b) \<longleftrightarrow> two_hex a"
  by (cases a rule: two_hex.cases; cases b) auto

lemma bad_escape_sep: "\<not> is_hex c \<Longrightarrow> c \<noteq> CHR ''%'' \<Longrightarrow> bad_escape (a @ c # b) \<longleftrightarrow> bad_escape a \<or> bad_escape b"
  by (induction a) (auto simp: two_hex_sep)

lemma queryUnescape_bad: "bad_escape s \<Longrightarrow> queryUnescape s = None"
proof (induction s rule: queryUnescape.induct)
  case (2 c s)
  show ?case
  proof (cases "c = CHR ''%'' \<and> two_hex s")
    case True
    then obtain h l r where s: "s = h # l # r" "is_hex h" "is_hex l" by (cases s rule: two_hex.cases) auto
    moreover have "\<not> is_hex CHR ''%''" by code_simp
    ultimately have "bad_escape r" using 2(4) True by auto
    then show ?thesis using 2(1) [of h "l # r" l r] s True by simp
  next
    case False
    then show ?thesis
      using 2 by (cases "c = CHR ''%''"; cases s rule: two_hex.cases) auto
  qed
qed simp

lemma bad_piece: "\<not> is_hex c \<Longrightarrow> c \<noteq> CHR ''%'' \<Longrightarrow> bad_escape s \<Longrightarrow> \<exists>p \<in> set (splitOn c s). bad_escape p"
proof (induction "length s" arbitrary: s rule: less_induct)
  case less
  show ?case
  proof (cases "c \<in> set s")
    case True
    then obtain a b where s: "s = a @ c # b" "c \<notin> set a" by (meson split_list_first)
    then show ?thesis using less bad_escape_sep [of c a b] by (auto simp: splitOn_append)
  qed (use less in \<open>simp add: splitOn_single\<close>)
qed

lemma parse_pair_bad: "CHR '';'' \<in> set p \<or> bad_escape p \<Longrightarrow> parse_pair p = Inl ()"
proof (cases "CHR '';'' \<in> set p")
  case False
  have "\<not> is_hex CHR ''=''" by code_simp
  moreover assume "CHR '';'' \<in> set p \<or> bad_escape p"
  ultimately have "\<exists>x \<in> {fst (cutAt CHR ''='' p), (case snd (cutAt CHR ''='' p) of None \<Rightarrow> [] | Some v \<Rightarrow> v)}. bad_escape x"
    using False cutAt_None [of "CHR ''=''" p] cutAt_Some [of "CHR ''=''" p] bad_escape_sep [of "CHR ''=''"]
    by (cases "cutAt CHR ''='' p"; cases "snd (cutAt CHR ''='' p)") auto
  moreover have "p \<noteq> []" using \<open>CHR '';'' \<in> set p \<or> bad_escape p\<close> by auto
  ultimately show ?thesis using False queryUnescape_bad by (auto simp: parse_pair_def split: prod.splits option.splits)
qed (simp add: parse_pair_def)

lemma parse_pairs_bad: "p \<in> set ps \<Longrightarrow> parse_pair p = Inl () \<Longrightarrow> \<not> snd (parse_pairs ps q)"
  by (induction ps arbitrary: q) (auto split: sum.splits option.splits)

lemma splitOn_elem: "x \<in> set s \<Longrightarrow> x \<noteq> c \<Longrightarrow> \<exists>p \<in> set (splitOn c s). x \<in> set p"
  by (induction s) (auto split: list.splits)

lemma ParseQuery_bad: "CHR '';'' \<in> set s \<or> bad_escape s \<Longrightarrow> \<not> snd (ParseQuery s)"
proof -
  have "\<not> is_hex CHR ''&''" by code_simp
  moreover assume "CHR '';'' \<in> set s \<or> bad_escape s"
  ultimately obtain p where "p \<in> set (splitOn CHR ''&'' s)" "CHR '';'' \<in> set p \<or> bad_escape p"
    using bad_piece [of "CHR ''&''" s] splitOn_elem [of "CHR '';''" s "CHR ''&''"] by auto
  then show ?thesis using parse_pairs_bad parse_pair_bad by (auto simp: ParseQuery_def Let_def)
qed

subsection \<open>The token of a query\<close>

definition tokenKeys :: "string list" where "tokenKeys = [''authorization'', ''access_token'', ''token'']"

definition no_token :: "query \<Rightarrow> string list \<Rightarrow> bool" where
  "no_token q ks \<longleftrightarrow> list_all (\<lambda>k. list_all (\<lambda>v. trimSpace v = []) (qlookup q k)) ks"

lemma firstQueryValue_none: "no_token q [k] \<Longrightarrow> trimSpace (firstQueryValue q k) = []"
proof -
  have "trimSpace [] = []" by code_simp
  moreover assume "no_token q [k]"
  then have "filter (\<lambda>v. trimSpace v \<noteq> []) (qlookup q k) = []" by (auto simp: no_token_def filter_empty_conv list_all_iff)
  ultimately show ?thesis by (simp add: firstQueryValue_def)
qed

lemma firstQueryValue_some:
  assumes "qlookup q k = blanks @ v # rest" and "list_all (\<lambda>b. trimSpace b = []) blanks" and "trimSpace v \<noteq> []"
  shows "firstQueryValue q k = v"
proof -
  have "filter (\<lambda>v. trimSpace v \<noteq> []) blanks = []" using assms(2) by (auto simp: filter_empty_conv list_all_iff)
  then show ?thesis using assms(1,3) by (simp add: firstQueryValue_def)
qed

lemma queryAuth_none: "no_token q tokenKeys \<Longrightarrow> queryAuth q = []"
  using firstQueryValue_none [of q] by (simp add: queryAuth_def tokenKeys_def no_token_def Let_def)

lemma bearer_prefix: "hasPrefix (toLower (''Bearer '' @ t)) ''bearer ''"
proof -
  have "lower_byte CHR ''B'' = CHR ''b''" "lower_byte CHR ''e'' = CHR ''e''" "lower_byte CHR ''a'' = CHR ''a''"
    "lower_byte CHR ''r'' = CHR ''r''" "lower_byte CHR '' '' = CHR '' ''" by code_simp+
  then have "toLower (''Bearer '' @ t) = ''bearer '' @ toLower t" by simp
  then show ?thesis by (simp add: hasPrefix_iff)
qed

lemma queryAuth_first:
  assumes "tokenKeys = ks @ k # ks'" and "no_token q ks" and "qlookup q k = blanks @ v # rest"
    and "list_all (\<lambda>b. trimSpace b = []) blanks" and "trimSpace v \<noteq> []"
  shows "queryAuth q =
    (if k = ''authorization'' \<and> hasPrefix (toLower (trimSpace v)) ''bearer '' then trimSpace v else ''Bearer '' @ trimSpace v)"
proof -
  have f: "firstQueryValue q k = v" using firstQueryValue_some assms(3-5) by blast
  have n: "trimSpace (firstQueryValue q j) = []" if "j \<in> set ks" for j
    using assms(2) that by (intro firstQueryValue_none) (auto simp: no_token_def list_all_iff)
  from assms(1) consider "k = ''authorization''" | "k = ''access_token''" "ks = [''authorization'']"
    | "k = ''token''" "ks = [''authorization'', ''access_token'']"
    by (auto simp: tokenKeys_def Cons_eq_append_conv)
  then show ?thesis
    using f n assms(5) bearer_prefix [of "trimSpace v"] by cases (simp_all add: queryAuth_def Let_def)
qed

text \<open>What the rewriting of a query keeps.\<close>

lemma applyQuery_parsed:
  assumes "ParseQuery rawQuery = (q, True)" and "trimSpace rawQuery \<noteq> []"
  shows "snd (ParseQuery (snd (applyQueryBearerAuth h rawQuery)))"
    "qlookup (fst (ParseQuery (snd (applyQueryBearerAuth h rawQuery)))) k =
       (if k \<in> {''authorization'', ''access_token'', ''token''} then [] else qlookup q k)"
proof -
  let ?q = "qdel (qdel (qdel q ''authorization'') ''access_token'') ''token''"
  have q: "distinct (map fst q)" "query_size q \<le> maxQueryParams" using ParseQuery_ok [of rawQuery] assms(1) by simp_all
  then have "distinct (map fst ?q)" "query_size ?q \<le> maxQueryParams"
    by (simp add: qdel_def AList.distinct_delete) (meson query_size_qdel order_trans q(2))
  note enc = ParseQuery_Encode [OF this]
  have "snd (applyQueryBearerAuth h rawQuery) = Encode ?q" using assms by (simp add: applyQueryBearerAuth_def)
  with enc show "snd (ParseQuery (snd (applyQueryBearerAuth h rawQuery)))"
    "qlookup (fst (ParseQuery (snd (applyQueryBearerAuth h rawQuery)))) k =
       (if k \<in> {''authorization'', ''access_token'', ''token''} then [] else qlookup q k)"
    by (simp_all add: qlookup_qdel)
qed

lemma applyQuery_header: "k \<noteq> ''Authorization'' \<Longrightarrow> hlookup (fst (applyQueryBearerAuth h rawQuery)) k = hlookup h k"
proof -
  have "canonicalHeaderKey ''Authorization'' = ''Authorization''" by code_simp
  then show "k \<noteq> ''Authorization'' \<Longrightarrow> ?thesis"
    by (auto simp: applyQueryBearerAuth_def hlookup_hset split: prod.split bool.split)
qed

lemma applyQuery_same:
  "trimSpace rawQuery = [] \<or> \<not> snd (ParseQuery rawQuery) \<Longrightarrow> applyQueryBearerAuth h rawQuery = (h, rawQuery)"
  "no_token (fst (ParseQuery rawQuery)) tokenKeys \<Longrightarrow> fst (applyQueryBearerAuth h rawQuery) = h"
  by (auto simp: applyQueryBearerAuth_def queryAuth_none split: prod.split bool.split)

section \<open>Properties\<close>

text \<open>C8. At every moment, whatever agents register, disconnect or time out concurrently, at most one live
  connection that has not been evicted exists per uuid, and the registry leads a uuid to a connection of
  exactly that uuid: a late removal by an old connection never removes its successor.\<close>

theorem registry_unique_live:
  assumes "gw_reach g"
  shows "(\<forall>u r. getAgent (srv g) u = Some r \<longrightarrow> r < length (conns (srv g)) \<and> uuid (conns (srv g) ! r) = u) \<and>
    (\<forall>q < length (conns (srv g)). \<forall>r < length (conns (srv g)).
       \<not> connClosed (conns (srv g) ! q) \<and> q \<notin> set (evicting g) \<and>
       \<not> connClosed (conns (srv g) ! r) \<and> r \<notin> set (evicting g) \<and>
       uuid (conns (srv g) ! q) = uuid (conns (srv g) ! r) \<longrightarrow> q = r)"
proof (intro conjI allI impI)
  fix u r assume "getAgent (srv g) u = Some r"
  then show "r < length (conns (srv g))" "uuid (conns (srv g) ! r) = u"
    using gw_invD(1) [OF gw_reach_inv [OF assms], of u r] by (simp_all add: getAgent_def)
next
  fix q r
  assume *: "q < length (conns (srv g))" "r < length (conns (srv g))"
    "\<not> connClosed (conns (srv g) ! q) \<and> q \<notin> set (evicting g) \<and>
     \<not> connClosed (conns (srv g) ! r) \<and> r \<notin> set (evicting g) \<and>
     uuid (conns (srv g) ! q) = uuid (conns (srv g) ! r)"
  have "map_of (agentByUUID (srv g)) (uuid (conns (srv g) ! r)) = Some q"
    using gw_invD(2) [OF gw_reach_inv [OF assms], of q] * by auto
  moreover have "map_of (agentByUUID (srv g)) (uuid (conns (srv g) ! r)) = Some r"
    using gw_invD(2) [OF gw_reach_inv [OF assms], of r] * by blast
  ultimately show "q = r" by simp
qed

theorem registry_unique_live_witness:
  "let s0 = NewServerFromEnv (\<lambda>_. []); s1 = snd (handleRegister s0 [] ''uuid=u1'' True 0);
       s2 = snd (handleRegister s1 [] ''uuid=u2'' True 0)
   in getAgent s2 ''u2'' = Some 1 \<and> 1 < length (conns s2) \<and> uuid (conns s2 ! 1) = ''u2''"
proof -
  define s0 where "s0 = NewServerFromEnv (\<lambda>_. [])"
  define s1 where "s1 = snd (handleRegister s0 [] ''uuid=u1'' True 0)"
  define s2 where "s2 = snd (handleRegister s1 [] ''uuid=u2'' True 0)"
  have a: "gw_step \<lparr>srv = s0, evicting = []\<rparr> \<lparr>srv = s1, evicting = []\<rparr>"
    using gw_step.register [of "\<lparr>srv = s0, evicting = []\<rparr>" "[]" "''uuid=u1''" True 0 _ s1]
    by (simp add: s1_def prod_eq_iff)
  have b: "gw_step \<lparr>srv = s1, evicting = []\<rparr> \<lparr>srv = s2, evicting = []\<rparr>"
    using gw_step.register [of "\<lparr>srv = s1, evicting = []\<rparr>" "[]" "''uuid=u2''" True 0 _ s2]
    by (simp add: s2_def prod_eq_iff)
  have "gw_reach \<lparr>srv = s2, evicting = []\<rparr>"
    unfolding gw_reach_def gw_init_def using a b
    by (intro exI [of _ "\<lparr>srv = s0, evicting = []\<rparr>"]) (auto simp: s0_def)
  from registry_unique_live [OF this] have
    "getAgent s2 ''u2'' = Some 1 \<Longrightarrow> 1 < length (conns s2) \<and> uuid (conns s2 ! 1) = ''u2''" by simp
  moreover have "getAgent s2 ''u2'' = Some 1" unfolding s2_def s1_def s0_def by code_simp
  ultimately show ?thesis by (simp add: Let_def s0_def [symmetric] s1_def [symmetric] s2_def [symmetric])
qed

text \<open>C31. A connection comes online only with a configured token (when tokens are configured), with a
  nonempty uuid that is not registered; it is then the registered connection of that uuid, no other
  registration changes, and the response tells the agent the mode the gateway will use.  Every other
  outcome leaves the state as it was.\<close>

theorem handleRegister_outcomes:
  "case handleRegister s hdr rawQuery up now of
     (RegOnline resp r, s') \<Rightarrow>
       (let u = qget (fst (ParseQuery rawQuery)) ''uuid''
        in (agentTokenSet s = [] \<or> hget hdr ''X-Token'' \<in> set (agentTokenSet s)) \<and> u \<noteq> [] \<and> up \<and>
           getAgent s u = None \<and> getAgent s' = (getAgent s)(u \<mapsto> r) \<and>
           conns s' = conns s @ [conns s' ! r] \<and> r = length (conns s) \<and> uuid (conns s' ! r) = u \<and>
           hget resp HeaderProxyMode = proxyModeEffective (conns s' ! r) \<and>
           hget resp HeaderProxyModeReason = proxyModeReason (conns s' ! r))
   | (_, s') \<Rightarrow> s' = s"
proof -
  obtain ef rs where res: "resolveProxyMode s (qget (fst (ParseQuery rawQuery)) ''uuid'')
      (normalizeRegisterProxyMode (qget (fst (ParseQuery rawQuery)) ''proxy_mode'')) = (ef, rs)" by fastforce
  have "canonicalHeaderKey HeaderProxyMode \<noteq> canonicalHeaderKey HeaderProxyModeReason" by code_simp
  then have hdr: "hget (registerRespHeader ef rs) HeaderProxyMode = ef"
    "hget (registerRespHeader ef rs) HeaderProxyModeReason = rs"
    by (simp_all add: registerRespHeader_def hget_def hvalues_def hlookup_hset)
  have get: "getAgent (s\<lparr>conns := cs, agentByUUID := AList.update u r (agentByUUID s)\<rparr>) = (getAgent s)(u \<mapsto> r)"
    for cs u r by (auto simp: getAgent_def fun_eq_iff AList.update_conv')
  show ?thesis
    using hdr get
    by (simp add: handleRegister_def Let_def res getAgent_def [abs_def] newAgentConn_def markActive_def)
qed

text \<open>C32. Every connection of the gateway runs in transparent mode exactly if it asked for it, legacy mode
  is not forced, transparent mode is enabled, and its uuid is in the list of allowed uuids or has an
  allowed prefix.\<close>

theorem transparent_mode_policy:
  assumes "gw_reach g" and "getAgent (srv g) u = Some r"
  shows "proxyModeEffective (conns (srv g) ! r) = ProxyModeTransparentTunnel \<longleftrightarrow>
    proxyModeRequested (conns (srv g) ! r) = ProxyModeTransparentTunnel \<and>
    \<not> forceLegacyMode (srv g) \<and> transparentEnabled (srv g) \<and>
    (u \<in> set (transparentAllowUUIDSet (srv g)) \<or> (\<exists>p \<in> set (transparentAllowPrefixes (srv g)). prefix p u))"
proof -
  note inv = gw_reach_inv [OF assms(1)]
  have r: "r < length (conns (srv g))" "uuid (conns (srv g) ! r) = u" "u \<noteq> []"
    using gw_invD(1) [OF inv, of u r] assms(2) by (simp_all add: getAgent_def)
  have "ProxyModeLegacyFramed \<noteq> ProxyModeTransparentTunnel" by (simp add: mode_consts)
  moreover have "isTransparentAllowed (srv g) u \<longleftrightarrow>
      u \<in> set (transparentAllowUUIDSet (srv g)) \<or> (\<exists>p \<in> set (transparentAllowPrefixes (srv g)). prefix p u)"
    using r(3) by (auto simp: isTransparentAllowed_def list_ex_iff hasPrefix_iff)
  ultimately show ?thesis
    using gw_invD(3) [OF inv, of "conns (srv g) ! r"] r by (auto simp: resolveProxyMode_def split: if_splits)
qed

theorem transparent_mode_policy_witness:
  "let env = (\<lambda>k. if k = ''HTTPS_PROXY_TRANSPARENT_ENABLED'' then ''on''
                  else if k = ''HTTPS_PROXY_TRANSPARENT_ALLOW_PREFIXES'' then ''dev-'' else []);
       s1 = snd (handleRegister (NewServerFromEnv env) [] ''uuid=dev-1&proxy_mode=transparent'' True 0)
   in getAgent s1 ''dev-1'' = Some 0 \<and> proxyModeEffective (conns s1 ! 0) = ProxyModeTransparentTunnel"
proof -
  define env :: env where "env = (\<lambda>k. if k = ''HTTPS_PROXY_TRANSPARENT_ENABLED'' then ''on''
                  else if k = ''HTTPS_PROXY_TRANSPARENT_ALLOW_PREFIXES'' then ''dev-'' else [])"
  define s1 where "s1 = snd (handleRegister (NewServerFromEnv env) [] ''uuid=dev-1&proxy_mode=transparent'' True 0)"
  have "gw_step \<lparr>srv = NewServerFromEnv env, evicting = []\<rparr> \<lparr>srv = s1, evicting = []\<rparr>"
    using gw_step.register [of "\<lparr>srv = NewServerFromEnv env, evicting = []\<rparr>" "[]" _ True 0 _ s1]
    by (simp add: s1_def prod_eq_iff)
  then have "gw_reach \<lparr>srv = s1, evicting = []\<rparr>"
    unfolding gw_reach_def gw_init_def
    by (intro exI [of _ "\<lparr>srv = NewServerFromEnv env, evicting = []\<rparr>"]) auto
  note policy = transparent_mode_policy [OF this, of "''dev-1''" 0]
  have env: "envBool env ''HTTPS_PROXY_TRANSPARENT_ENABLED'' False" "\<not> envBool env ''HTTPS_PROXY_FORCE_LEGACY_MODE'' False"
    "envCommaStringSlice env ''HTTPS_PROXY_TRANSPARENT_ALLOW_PREFIXES'' = [''dev-'']"
    "filter (\<lambda>t. t \<noteq> []) (map trimSpace (splitOn CHR '','' (env ''HTTPS_PROXY_AGENT_TOKENS''))) = []"
    unfolding env_def by code_simp+
  have q: "fst (ParseQuery ''uuid=dev-1&proxy_mode=transparent'') = [(''uuid'', [''dev-1'']), (''proxy_mode'', [''transparent''])]"
    "normalizeRegisterProxyMode ''transparent'' = ProxyModeTransparentTunnel"
    by code_simp+
  have "getAgent s1 ''dev-1'' = Some 0" "proxyModeRequested (conns s1 ! 0) = ProxyModeTransparentTunnel"
    "forceLegacyMode s1 = forceLegacyMode (NewServerFromEnv env)"
    "transparentEnabled s1 = transparentEnabled (NewServerFromEnv env)"
    "transparentAllowPrefixes s1 = transparentAllowPrefixes (NewServerFromEnv env)"
    unfolding s1_def
    by (simp_all add: handleRegister_def Let_def q env qget_def qlookup_def getAgent_def newAgentConn_def
        markActive_def split: prod.splits)
  with policy env have "getAgent s1 ''dev-1'' = Some 0 \<and> proxyModeEffective (conns s1 ! 0) = ProxyModeTransparentTunnel"
    by simp
  then show ?thesis by (simp add: Let_def env_def [symmetric] s1_def [symmetric])
qed

text \<open>C33. When the query of a request can be parsed, the forwarded query can be parsed too, carries none of
  the three token parameters, and has the same values as before for every other parameter.  The token is the
  first value that is not blank of the first of \<^verbatim>\<open>authorization\<close>, \<^verbatim>\<open>access_token\<close> and \<^verbatim>\<open>token\<close> that has one: the
  \<^verbatim>\<open>Authorization\<close> header becomes that value without surrounding space, with \<^verbatim>\<open>Bearer\<close> before it unless it was
  given by \<^verbatim>\<open>authorization\<close> and begins so already.  Without such a value the header stays, and no other
  header changes in any case.\<close>

theorem applyQueryBearerAuth_strips_tokens:
  assumes "ParseQuery rawQuery = (q, True)" and "trimSpace rawQuery \<noteq> []"
    and "applyQueryBearerAuth h rawQuery = (h', rawQuery')"
  shows "snd (ParseQuery rawQuery') \<and>
    (\<forall>k. qlookup (fst (ParseQuery rawQuery')) k =
       (if k \<in> {''authorization'', ''access_token'', ''token''} then [] else qlookup q k)) \<and>
    (\<forall>k. k \<noteq> ''Authorization'' \<longrightarrow> hlookup h' k = hlookup h k) \<and>
    ((\<forall>k \<in> {''authorization'', ''access_token'', ''token''}. \<forall>v \<in> set (qlookup q k). trimSpace v = []) \<longrightarrow> h' = h) \<and>
    (\<forall>ks k ks' blanks v rest.
       [''authorization'', ''access_token'', ''token''] = ks @ k # ks' \<and>
       (\<forall>j \<in> set ks. \<forall>b \<in> set (qlookup q j). trimSpace b = []) \<and>
       qlookup q k = blanks @ v # rest \<and> (\<forall>b \<in> set blanks. trimSpace b = []) \<and> trimSpace v \<noteq> [] \<longrightarrow>
       hlookup h' ''Authorization'' =
         [if k = ''authorization'' \<and> hasPrefix (toLower (trimSpace v)) ''bearer '' then trimSpace v
          else ''Bearer '' @ trimSpace v])"
proof -
  have key: "canonicalHeaderKey ''Authorization'' = ''Authorization''" by code_simp
  have h: "h' = (if queryAuth q \<noteq> [] then hset h ''Authorization'' (queryAuth q) else h)"
    using assms by (auto simp: applyQueryBearerAuth_def)
  have first: "hlookup h' ''Authorization'' =
      [if k = ''authorization'' \<and> hasPrefix (toLower (trimSpace v)) ''bearer '' then trimSpace v else ''Bearer '' @ trimSpace v]"
    if "[''authorization'', ''access_token'', ''token''] = ks @ k # ks'"
      "\<forall>j \<in> set ks. \<forall>b \<in> set (qlookup q j). trimSpace b = []"
      "qlookup q k = blanks @ v # rest" "\<forall>b \<in> set blanks. trimSpace b = []" "trimSpace v \<noteq> []" for ks k ks' blanks v rest
  proof -
    have "queryAuth q =
        (if k = ''authorization'' \<and> hasPrefix (toLower (trimSpace v)) ''bearer '' then trimSpace v else ''Bearer '' @ trimSpace v)"
      using that by (intro queryAuth_first [of ks k ks']) (auto simp: tokenKeys_def no_token_def list_all_iff)
    moreover from this have "queryAuth q \<noteq> []" using that(5) by simp
    ultimately show ?thesis by (simp add: h hlookup_hset key)
  qed
  have none: "h' = h" if "\<forall>k \<in> {''authorization'', ''access_token'', ''token''}. \<forall>v \<in> set (qlookup q k). trimSpace v = []"
    using queryAuth_none [of q] that by (simp add: h tokenKeys_def no_token_def list_all_iff)
  have "hlookup h' k = hlookup h k" if "k \<noteq> ''Authorization''" for k
    using that applyQuery_header [of k h rawQuery] assms(3) by simp
  with applyQuery_parsed [OF assms(1,2), of h] first none show ?thesis using assms(3) by auto
qed

theorem applyQueryBearerAuth_strips_tokens_witness:
  "case applyQueryBearerAuth [] ''access_token=t1&a=b'' of
     (h', rawQuery') \<Rightarrow> h' = [(''Authorization'', [''Bearer t1''])] \<and> rawQuery' = ''a=b'' \<and>
       qlookup (fst (ParseQuery rawQuery')) ''access_token'' = []"
proof -
  have p: "ParseQuery ''access_token=t1&a=b'' = ([(''access_token'', [''t1'']), (''a'', [''b''])], True)"
    by code_simp
  have a: "applyQueryBearerAuth [] ''access_token=t1&a=b'' = ([(''Authorization'', [''Bearer t1''])], ''a=b'')"
    by code_simp
  have t: "trimSpace ''access_token=t1&a=b'' \<noteq> []" by code_simp
  from applyQueryBearerAuth_strips_tokens [OF p t a] show ?thesis by (simp add: a)
qed

text \<open>C34. One bad byte keeps the tokens in the query.  When there is a semicolon anywhere in the query, or a percent
  sign anywhere that does not start an escape of two hexadecimal digits, nothing is done: whatever token
  parameters the query has are forwarded in it, and the \<^verbatim>\<open>Authorization\<close> header is not set from them.\<close>

theorem applyQueryBearerAuth_malformed_keeps_tokens:
  assumes "CHR '';'' \<in> set rawQuery \<or>
    (\<exists>a b. rawQuery = a @ CHR ''%'' # b \<and> \<not> (\<exists>x y c. b = x # y # c \<and> is_hex x \<and> is_hex y))"
  shows "applyQueryBearerAuth h rawQuery = (h, rawQuery)"
proof -
  have bad: "bad_escape (a @ CHR ''%'' # b)" if "\<not> two_hex b" for a b using that by (induction a) auto
  have "\<not> two_hex b" if "\<not> (\<exists>x y c. b = x # y # c \<and> is_hex x \<and> is_hex y)" for b
    using that by (cases b rule: two_hex.cases) auto
  then have "CHR '';'' \<in> set rawQuery \<or> bad_escape rawQuery" using assms bad by blast
  then show ?thesis using ParseQuery_bad [of rawQuery] by (auto simp: applyQueryBearerAuth_def split: prod.splits bool.splits)
qed

theorem applyQueryBearerAuth_malformed_keeps_tokens_witness:
  "applyQueryBearerAuth [] ''access_token=t1&x=%zz'' = ([], ''access_token=t1&x=%zz'') \<and>
   qlookup (fst (ParseQuery ''access_token=t1&x=%zz'')) ''access_token'' = [''t1'']"
proof -
  have "''access_token=t1&x=%zz'' = ''access_token=t1&x='' @ CHR ''%'' # ''zz''" "\<not> is_hex CHR ''z''" by code_simp+
  then have "applyQueryBearerAuth [] ''access_token=t1&x=%zz'' = ([], ''access_token=t1&x=%zz'')"
    by (intro applyQueryBearerAuth_malformed_keeps_tokens) blast
  moreover have "qlookup (fst (ParseQuery ''access_token=t1&x=%zz'')) ''access_token'' = [''t1'']" by code_simp
  ultimately show ?thesis by blast
qed

text \<open>The status report is served to an IPv4 peer exactly if its address is in 127.0.0.0/8, whatever the
  port; every other IPv4 peer is refused.\<close>

theorem status_only_for_loopback_ipv4:
  assumes "a < 256" "b < 256" "c < 256" "d < 256"
  shows "ServeHTTP_route ''/status'' (ipv4_text a b c d @ '':'' @ itoa_nat port) =
    (if a = 127 then RStatus else RStatusForbidden)"
proof -
  let ?ip = "ipv4_text a b c d" and ?p = "itoa_nat port"
  have ch: "\<forall>x \<in> set ?ip. is_digit x \<or> x = CHR ''.''" "\<forall>x \<in> set ?p. is_digit x"
    using ipv4_text_chars itoa_nat_plain by blast+
  have trim: "trimSpace (?ip @ CHR '':'' # ?p) = ?ip @ CHR '':'' # ?p"
  proof (rule trimSpace_graphic)
    have "\<forall>x \<in> set (?ip @ CHR '':'' # ?p). graphic x" using ch by (auto simp: is_digit_def graphic_def)
    then show "graphic (hd (?ip @ CHR '':'' # ?p))" "graphic (last (?ip @ CHR '':'' # ?p))"
      by (meson append_is_Nil_conv hd_in_set last_in_set list.discI)+
  qed simp
  have plain: "\<forall>x \<in> set ?ip. x \<notin> set '':[]''" "\<forall>x \<in> set ?p. x \<notin> set '':[]''"
    using ch by (auto simp: is_digit_def)
  have brackets: "trimChars ''[]'' ?ip = ?ip" using ch(1) by (intro trimChars_id) (auto simp: is_digit_def)
  have zone: "cutAt CHR ''%'' ?ip = (?ip, None)" using ch(1) by (intro cutAt_notin) (auto simp: is_digit_def)
  have "\<not> equalFold ?ip ''localhost''"
  proof -
    obtain y ys where y: "?ip = y # ys" "is_digit y"
      using itoa_nat_digits [of a] by (cases "itoa_nat a") (auto simp: ipv4_text_def)
    then have "foldCase ?ip = lower_byte y # foldCase ys"
      by (auto simp: is_digit_def)
    moreover have "lower_byte y = y" using y by (auto simp: lower_byte_def is_digit_def is_upper_def)
    moreover have "foldCase ''localhost'' = ''localhost''" by code_simp
    moreover have "y \<noteq> CHR ''l''" using y by (auto simp: is_digit_def)
    ultimately show ?thesis by (simp add: equalFold_def)
  qed
  moreover have "IsLoopback (map4in6 [a, b, c, d]) \<longleftrightarrow> a = 127"
    by (simp add: IsLoopback_def map4in6_def numeral_eq_Suc)
  ultimately show ?thesis
    by (simp add: ServeHTTP_route_def isLoopbackRemoteAddr_def Let_def trim SplitHostPort_plain [OF plain]
        brackets zone ParseIP_ipv4 [OF assms])
qed

theorem status_only_for_loopback_ipv4_witness:
  "ServeHTTP_route ''/status'' (ipv4_text 10 0 0 7 @ '':'' @ itoa_nat 5000) = RStatusForbidden"
  using status_only_for_loopback_ipv4 [of 10 0 0 7 5000] by simp

text \<open>C35. A client request \<^verbatim>\<open>/u/rest\<close> goes to the registered connection of \<open>u\<close> with the path
  \<^verbatim>\<open>/rest\<close>: plain requests to the HTTP handler; WebSocket upgrades to the raw handler for a WebSocket
  target in transparent mode, to the transparent handler for other targets in transparent mode, and to the
  framed handler otherwise.\<close>

theorem handleClient_routes:
  assumes "u \<noteq> []" and "CHR ''/'' \<notin> set u"
  shows "fst (handleClient_route s (''/'' @ u @ ''/'' @ rest) ws) =
    (case getAgent s u of
       None \<Rightarrow> CAgentOffline u
     | Some r \<Rightarrow>
         let a = conns s ! r; p = CHR ''/'' # rest
         in if \<not> ws then CHTTP r p
            else if proxyModeEffective a \<noteq> ProxyModeTransparentTunnel then CWebSocket r p
            else if targetKind a = TargetKindWebSocket then CWebSocketTransparentRaw r p
            else CWebSocketTransparent r p)"
proof -
  have "splitN2 CHR ''/'' (u @ CHR ''/'' # rest) = [u, rest]"
    using assms(2) by (simp add: splitN2_def cutAt_append)
  moreover have "trimPrefix (CHR ''/'' # u @ CHR ''/'' # rest) ''/'' = u @ CHR ''/'' # rest"
    by (simp add: trimPrefix_def hasPrefix_def)
  moreover have "getAgent (s\<lparr>nextReqID := n\<rparr>) v = getAgent s v" for n v by (simp add: getAgent_def)
  ultimately show ?thesis
    by (simp add: handleClient_route_def Let_def split: option.splits)
qed

theorem handleClient_routes_witness:
  "fst (handleClient_route (NewServerFromEnv (\<lambda>_. [])) (''/'' @ ''u1'' @ ''/'' @ ''x/y'') False) = CAgentOffline ''u1''"
  using handleClient_routes [of "''u1''" "NewServerFromEnv (\<lambda>_. [])" "''x/y''" False]
  by (simp add: getAgent_def)

end
