(* ===== verification/Go_Json.thy ===== *)
theory Go_Json
  imports Go_Query
begin

text \<open>
  \<^verbatim>\<open>encoding/json\<close> as far as the payload structures need it: the encoder with its escapes, the parser,
  and the coercion of strings to valid UTF-8 that both directions apply.  Objects are member lists in the
  order of the text.  The nesting limit of 10000 levels is left out: the encoder's values are three levels
  deep.

  The main result is \<open>json_parse_print\<close>: what is printed is parsed back, with every string replaced by
  \<open>sanitize\<close>, which is the identity exactly on valid UTF-8.
\<close>

section \<open>UTF-8\<close>

definition cont :: "char \<Rightarrow> bool" where
  "cont c \<longleftrightarrow> 0x80 \<le> ord_of c \<and> ord_of c \<le> 0xBF"

text \<open>The second byte a leading byte of a three- or four-byte rune allows.\<close>

definition second_ok :: "nat \<Rightarrow> char \<Rightarrow> bool" where
  "second_ok a b \<longleftrightarrow>
     (if a = 0xE0 then 0xA0 else if a = 0xF0 then 0x90 else 0x80) \<le> ord_of b \<and>
     ord_of b \<le> (if a = 0xED then 0x9F else if a = 0xF4 then 0x8F else 0xBF)"

definition multi_len :: "char \<Rightarrow> string \<Rightarrow> nat" where
  "multi_len c r =
     (let a = ord_of c
      in if 0xC2 \<le> a \<and> a \<le> 0xDF then (if r \<noteq> [] \<and> cont (r ! 0) then 2 else 0)
         else if 0xE0 \<le> a \<and> a \<le> 0xEF
         then (if length r \<ge> 2 \<and> second_ok a (r ! 0) \<and> cont (r ! 1) then 3 else 0)
         else if 0xF0 \<le> a \<and> a \<le> 0xF4
         then (if length r \<ge> 3 \<and> second_ok a (r ! 0) \<and> cont (r ! 1) \<and> cont (r ! 2) then 4 else 0)
         else 0)"

text \<open>The length of the rune a string starts with, 0 when its first byte starts none.\<close>

fun rune_len :: "string \<Rightarrow> nat" where
  "rune_len [] = 0"
| "rune_len (c # r) = (if ord_of c < 0x80 then 1 else multi_len c r)"

definition encodeRune :: "nat \<Rightarrow> string" where
  "encodeRune r =
     (if r < 0x80 then [char_of r]
      else if r < 0x800 then [char_of (0xC0 + r div 64), char_of (0x80 + r mod 64)]
      else if r < 0x10000
      then [char_of (0xE0 + r div 4096), char_of (0x80 + r div 64 mod 64), char_of (0x80 + r mod 64)]
      else [char_of (0xF0 + r div 262144), char_of (0x80 + r div 4096 mod 64),
            char_of (0x80 + r div 64 mod 64), char_of (0x80 + r mod 64)])"

definition replacement :: string where "replacement = [CHR 0xEF, CHR 0xBF, CHR 0xBD]"

lemma multi_len_le: "multi_len c r \<le> Suc (length r)"
  by (auto simp: multi_len_def Let_def Suc_le_eq)

lemma rune_len_le: "rune_len s \<le> length s"
  by (cases s) (auto simp: multi_len_le)

function sanitize :: "string \<Rightarrow> string" where
  "sanitize [] = []"
| "sanitize (c # s) =
     (if rune_len (c # s) = 0 then replacement @ sanitize s
      else take (rune_len (c # s)) (c # s) @ sanitize (drop (rune_len (c # s)) (c # s)))"
  by pat_completeness auto
termination
  by (relation "measure length") (auto simp: drop_Cons' simp del: rune_len.simps)

function valid_utf8 :: "string \<Rightarrow> bool" where
  "valid_utf8 [] = True"
| "valid_utf8 (c # s) =
     (if rune_len (c # s) = 0 then False else valid_utf8 (drop (rune_len (c # s)) (c # s)))"
  by pat_completeness auto
termination
  by (relation "measure length") (auto simp: drop_Cons' simp del: rune_len.simps)

section \<open>Strings\<close>

definition low_hex :: "nat \<Rightarrow> char" where
  "low_hex n = (if n < 10 then char_of (48 + n) else char_of (87 + n))"

text \<open>ASCII bytes as the encoder writes them, HTML escaping included.\<close>

definition escape_ascii :: "char \<Rightarrow> string" where
  "escape_ascii c =
     (if c = CHR 0x5C then [CHR 0x5C, c] else if c = CHR 0x22 then [CHR 0x5C, c]
      else if ord_of c = 8 then [CHR 0x5C, CHR ''b''] else if ord_of c = 12 then [CHR 0x5C, CHR ''f'']
      else if ord_of c = 10 then [CHR 0x5C, CHR ''n''] else if ord_of c = 13 then [CHR 0x5C, CHR ''r'']
      else if ord_of c = 9 then [CHR 0x5C, CHR ''t'']
      else if ord_of c < 32 \<or> c \<in> set ''<>&''
      then [CHR 0x5C, CHR ''u'', CHR ''0'', CHR ''0'', low_hex (ord_of c div 16), low_hex (ord_of c mod 16)]
      else [c])"

definition line_sep :: "string \<Rightarrow> bool" where
  "line_sep s \<longleftrightarrow> take 2 s = [CHR 0xE2, CHR 0x80] \<and> length s \<ge> 3 \<and> (ord_of (s ! 2) = 0xA8 \<or> ord_of (s ! 2) = 0xA9)"

function escape :: "string \<Rightarrow> string" where
  "escape [] = []"
| "escape (c # s) =
     (if ord_of c < 0x80 then escape_ascii c @ escape s
      else if rune_len (c # s) = 0 then [CHR 0x5C] @ ''ufffd'' @ escape s
      else if line_sep (c # s)
      then [CHR 0x5C] @ ''u202'' @ [low_hex (ord_of (s ! 1) mod 16)] @ escape (drop (rune_len (c # s)) (c # s))
      else take (rune_len (c # s)) (c # s) @ escape (drop (rune_len (c # s)) (c # s)))"
  by pat_completeness auto
termination
  by (relation "measure length") (auto simp: drop_Cons' simp del: rune_len.simps)

fun getu4 :: "string \<Rightarrow> (nat \<times> string) option" where
  "getu4 (a # b # c # d # r) =
     (if list_all is_hex [a, b, c, d]
      then Some (4096 * unhex a + 256 * unhex b + 16 * unhex c + unhex d, r) else None)"
| "getu4 _ = None"

text \<open>The rune a \<open>\u\<close> escape stands for: a surrogate needs the other half right behind it.\<close>

definition unescape_u :: "string \<Rightarrow> (string \<times> string) option" where
  "unescape_u s =
     (case getu4 s of
        None \<Rightarrow> None
      | Some (n, r) \<Rightarrow>
          if 0xD800 \<le> n \<and> n < 0xE000 then
            (case (if n < 0xDC00 \<and> take 2 r = [CHR 0x5C, CHR ''u''] then getu4 (drop 2 r) else None) of
               Some (m, r') \<Rightarrow>
                 if 0xDC00 \<le> m \<and> m < 0xE000
                 then Some (encodeRune ((n - 0xD800) * 1024 + (m - 0xDC00) + 0x10000), r')
                 else Some (replacement, r)
             | None \<Rightarrow> Some (replacement, r))
          else Some (encodeRune n, r))"

definition simple_escape :: "char \<Rightarrow> char option" where
  "simple_escape e =
     map_of [(CHR 0x22, CHR 0x22), (CHR 0x5C, CHR 0x5C), (CHR ''/'', CHR ''/''), (CHR ''b'', char_of (8 :: nat)),
             (CHR ''f'', char_of (12 :: nat)), (CHR ''n'', char_of (10 :: nat)), (CHR ''r'', char_of (13 :: nat)),
             (CHR ''t'', char_of (9 :: nat))] e"

lemma getu4_shorter: "getu4 s = Some (n, r) \<Longrightarrow> length r < length s"
  by (induction s rule: getu4.induct) (auto split: if_splits)

lemma unescape_u_shorter: "unescape_u s = Some (t, r) \<Longrightarrow> length r < length s"
  by (auto simp: unescape_u_def split: option.splits if_splits dest!: getu4_shorter)

text \<open>A string literal after its opening quote: the value and the rest after the closing quote.\<close>

function unquote :: "string \<Rightarrow> (string \<times> string) option" where
  "unquote [] = None"
| "unquote (c # s) =
     (if c = CHR 0x22 then Some ([], s)
      else if c = CHR 0x5C then
        (case s of
           [] \<Rightarrow> None
         | e # r \<Rightarrow>
             (case simple_escape e of
                Some x \<Rightarrow> map_option (apfst ((#) x)) (unquote r)
              | None \<Rightarrow>
                  if e \<noteq> CHR ''u'' then None
                  else (case unescape_u r of
                          None \<Rightarrow> None
                        | Some (x, r') \<Rightarrow> map_option (apfst ((@) x)) (unquote r'))))
      else if ord_of c < 32 then None
      else if rune_len (c # s) = 0 then map_option (apfst ((@) replacement)) (unquote s)
      else map_option (apfst ((@) (take (rune_len (c # s)) (c # s))))
             (unquote (drop (rune_len (c # s)) (c # s))))"
  by pat_completeness auto
termination
  by (relation "measure length") (auto simp: drop_Cons' dest: unescape_u_shorter simp del: rune_len.simps)

declare unquote.simps [simp del] escape.simps [simp del] sanitize.simps [simp del] valid_utf8.simps [simp del]

section \<open>Values\<close>

datatype json =
  JNull | JBool bool | JNum string | JStr string | JArr "json list" | JObj "(string \<times> json) list"

fun jprint :: "json \<Rightarrow> string" and jprint_elems :: "json list \<Rightarrow> string"
  and jprint_members :: "(string \<times> json) list \<Rightarrow> string" where
  "jprint JNull = ''null''"
| "jprint (JBool b) = (if b then ''true'' else ''false'')"
| "jprint (JNum l) = l"
| "jprint (JStr s) = CHR 0x22 # escape s @ [CHR 0x22]"
| "jprint (JArr vs) = (case vs of [] \<Rightarrow> ''[]'' | _ \<Rightarrow> CHR ''['' # jprint_elems vs)"
| "jprint (JObj ms) = (case ms of [] \<Rightarrow> ''{}'' | _ \<Rightarrow> CHR ''{'' # jprint_members ms)"
| "jprint_elems [] = []"
| "jprint_elems (v # vs) = jprint v @ (case vs of [] \<Rightarrow> '']'' | _ \<Rightarrow> CHR '','' # jprint_elems vs)"
| "jprint_members [] = []"
| "jprint_members ((k, v) # ms) =
     CHR 0x22 # escape k @ [CHR 0x22, CHR '':''] @ jprint v @
     (case ms of [] \<Rightarrow> ''}'' | _ \<Rightarrow> CHR '','' # jprint_members ms)"

definition json_ws :: "char \<Rightarrow> bool" where
  "json_ws c \<longleftrightarrow> ord_of c \<in> {9, 10, 13, 32}"

abbreviation skipws :: "string \<Rightarrow> string" where
  "skipws s \<equiv> dropWhile json_ws s"

text \<open>The parts of a number literal: optional sign, integer, fraction, exponent.\<close>

definition num_int :: "string \<Rightarrow> (string \<times> string) option" where
  "num_int s =
     (let (sg, r) = (if hasPrefix s ''-'' then (''-'', tl s) else ([], s))
      in if r = [] \<or> \<not> is_digit (hd r) then None
         else if hd r = CHR ''0'' then Some (sg @ ''0'', tl r)
         else Some (sg @ takeWhile is_digit r, dropWhile is_digit r))"

definition num_frac :: "string \<Rightarrow> (string \<times> string) option" where
  "num_frac s =
     (if hasPrefix s ''.'' then
        (let d = takeWhile is_digit (tl s) in if d = [] then None else Some (CHR ''.'' # d, dropWhile is_digit (tl s)))
      else Some ([], s))"

definition num_exp :: "string \<Rightarrow> (string \<times> string) option" where
  "num_exp s =
     (if s \<noteq> [] \<and> hd s \<in> set ''eE'' then
        (let (sg, r) = (if tl s \<noteq> [] \<and> hd (tl s) \<in> set ''+-'' then ([hd (tl s)], tl (tl s)) else ([], tl s));
             d = takeWhile is_digit r
         in if d = [] then None else Some (hd s # sg @ d, dropWhile is_digit r))
      else Some ([], s))"

definition jnumber :: "string \<Rightarrow> (string \<times> string) option" where
  "jnumber s =
     (case num_int s of
        None \<Rightarrow> None
      | Some (a, r) \<Rightarrow>
          (case num_frac r of
             None \<Rightarrow> None
           | Some (b, r) \<Rightarrow> map_option (apfst (\<lambda>c. a @ b @ c)) (num_exp r)))"

lemma skipws_le: "length (skipws s) \<le> length s"
  by (simp add: length_dropWhile_le)

lemma skipws_tl_less: "length r < length s \<Longrightarrow> length (skipws (tl r)) < length s"
  using skipws_le [of "tl r"] by (cases r) auto

lemma jval_measures:
  "Suc (2 * length (skipws r)) < 2 * Suc (length r)"
  "length r < length s \<Longrightarrow> Suc (2 * length (skipws (tl r))) < Suc (2 * length s)"
  "length r < length s \<Longrightarrow> 2 * length (skipws (tl r)) < Suc (2 * length s)"
  using skipws_le [of r] skipws_tl_less [of r s] by simp_all

function jval :: "string \<Rightarrow> (json \<times> string) option"
  and jarr :: "string \<Rightarrow> (json list \<times> string) option"
  and jobj :: "string \<Rightarrow> ((string \<times> json) list \<times> string) option" where
  "jval s =
     (case s of
        [] \<Rightarrow> None
      | c # r \<Rightarrow>
          if c = CHR 0x22 then map_option (apfst JStr) (unquote r)
          else if c = CHR ''['' then
            (if hasPrefix (skipws r) '']'' then Some (JArr [], tl (skipws r))
             else map_option (apfst JArr) (jarr (skipws r)))
          else if c = CHR ''{'' then
            (if hasPrefix (skipws r) ''}'' then Some (JObj [], tl (skipws r))
             else map_option (apfst JObj) (jobj (skipws r)))
          else if hasPrefix s ''null'' then Some (JNull, drop 4 s)
          else if hasPrefix s ''true'' then Some (JBool True, drop 4 s)
          else if hasPrefix s ''false'' then Some (JBool False, drop 5 s)
          else map_option (apfst JNum) (jnumber s))"
| "jarr s =
     (case jval s of
        None \<Rightarrow> None
      | Some (v, r) \<Rightarrow>
          (let r1 = skipws r
           in if \<not> length r1 < length s then None
              else if hasPrefix r1 '']'' then Some ([v], tl r1)
              else if hasPrefix r1 '','' then map_option (apfst ((#) v)) (jarr (skipws (tl r1)))
              else None))"
| "jobj s =
     (if \<not> hasPrefix s [CHR 0x22] then None
      else case unquote (tl s) of
        None \<Rightarrow> None
      | Some (k, r) \<Rightarrow>
          (let r1 = skipws r
           in if \<not> length r1 < length s \<or> \<not> hasPrefix r1 '':'' then None
              else
                let s2 = skipws (tl r1)
                in case jval s2 of
                     None \<Rightarrow> None
                   | Some (v, r2) \<Rightarrow>
                       (let r3 = skipws r2
                        in if \<not> length r3 < length s then None
                           else if hasPrefix r3 ''}'' then Some ([(k, v)], tl r3)
                           else if hasPrefix r3 '','' then map_option (apfst ((#) (k, v))) (jobj (skipws (tl r3)))
                           else None)))"
  by pat_completeness auto

termination
  by (relation "measure (\<lambda>x. case x of Inl s \<Rightarrow> 2 * length s
    | Inr (Inl s) \<Rightarrow> 2 * length s + 1 | Inr (Inr s) \<Rightarrow> 2 * length s + 1)")
    (simp_all only: wf_measure in_measure sum.case not_not not_less Suc_eq_plus1 [symmetric],
     auto intro!: jval_measures skipws_tl_less simp del: mult_Suc_right length_Cons)

declare jval.simps [simp del] jarr.simps [simp del] jobj.simps [simp del]

definition json_parse :: "string \<Rightarrow> json option" where
  "json_parse s =
     (case jval (skipws s) of
        Some (v, r) \<Rightarrow> if skipws r = [] then Some v else None
      | None \<Rightarrow> None)"

section \<open>Lemmas\<close>

subsection \<open>Runes\<close>

lemma rune_len_Cons_pos: "rune_len (c # s) \<noteq> 0 \<Longrightarrow> 1 \<le> rune_len (c # s) \<and> rune_len (c # s) \<le> Suc (length s)"
  using rune_len_le [of "c # s"] by (simp del: rune_len.simps)

lemma multi_len_take:
  assumes "multi_len c r \<noteq> 0"
  shows "multi_len c (take (multi_len c r - 1) r @ y) = multi_len c r"
  using assms unfolding multi_len_def Let_def by (auto simp: nth_append split: if_splits)

lemma rune_len_take:
  assumes "rune_len (c # s) \<noteq> 0"
  shows "rune_len (take (rune_len (c # s)) (c # s) @ y) = rune_len (c # s)"
proof (cases "ord_of c < 0x80")
  case False
  with assms have "multi_len c s \<noteq> 0" "rune_len (c # s) = multi_len c s" by auto
  with multi_len_take [of c s y] False show ?thesis by (simp add: take_Cons')
qed simp

lemma sanitize_rune:
  assumes "rune_len (c # s) \<noteq> 0"
  shows "sanitize (c # s) = take (rune_len (c # s)) (c # s) @ sanitize (drop (rune_len (c # s)) (c # s))"
  using assms by (simp add: sanitize.simps del: rune_len.simps)

lemma sanitize_ascii: "ord_of c < 0x80 \<Longrightarrow> sanitize (c # s) = c # sanitize s"
  by (simp add: sanitize.simps)

lemma sanitize_valid: "valid_utf8 s \<Longrightarrow> sanitize s = s"
proof (induction s rule: valid_utf8.induct)
  case (2 c s)
  then have "rune_len (c # s) \<noteq> 0" "valid_utf8 (drop (rune_len (c # s)) (c # s))"
    by (auto simp: valid_utf8.simps simp del: rune_len.simps split: if_splits)
  with 2 show ?case by (simp add: sanitize_rune del: rune_len.simps)
qed (simp add: sanitize.simps)

lemma rune_len_replacement: "rune_len (replacement @ x) = 3"
  by (simp add: replacement_def multi_len_def second_ok_def cont_def)

lemma valid_replacement: "valid_utf8 (replacement @ x) = valid_utf8 x"
proof -
  obtain c s where cs: "replacement @ x = c # s" by (cases "replacement @ x") (auto simp: replacement_def)
  then have "valid_utf8 (replacement @ x) = valid_utf8 (drop 3 (replacement @ x))"
    using rune_len_replacement [of x] by (simp only: valid_utf8.simps) simp
  then show ?thesis by (simp add: replacement_def)
qed

lemma valid_utf8_rune:
  assumes "rune_len (c # s) \<noteq> 0"
  shows "valid_utf8 (take (rune_len (c # s)) (c # s) @ y) = valid_utf8 y"
proof -
  let ?n = "rune_len (c # s)"
  have "1 \<le> ?n" "?n \<le> length (c # s)" using rune_len_Cons_pos [OF assms] by simp_all
  then obtain d where d: "take ?n (c # s) @ y = c # d" by (cases ?n) auto
  have "valid_utf8 (c # d) = valid_utf8 (drop (rune_len (c # d)) (c # d))"
    using rune_len_take [OF assms, of y] assms d by (simp add: valid_utf8.simps del: rune_len.simps)
  also have "\<dots> = valid_utf8 (drop ?n (take ?n (c # s) @ y))"
    using rune_len_take [OF assms, of y] by (simp only: d)
  finally show ?thesis using \<open>?n \<le> length (c # s)\<close> by (simp add: d [symmetric] del: rune_len.simps)
qed

lemma valid_sanitize: "valid_utf8 (sanitize s)"
proof (induction s rule: sanitize.induct)
  case (2 c s)
  then show ?case
    by (cases "rune_len (c # s) = 0")
      (simp_all add: sanitize_rune valid_utf8_rune valid_replacement sanitize.simps(2) [of c s] del: rune_len.simps)
qed (simp add: sanitize.simps valid_utf8.simps)

lemma sanitize_id_iff: "sanitize s = s \<longleftrightarrow> valid_utf8 s"
  using sanitize_valid valid_sanitize by metis

subsection \<open>String literals\<close>

lemma low_hex_ok: "n < 16 \<Longrightarrow> is_hex (low_hex n) \<and> unhex (low_hex n) = n"
  by (auto simp: low_hex_def is_hex_def unhex_def is_digit_def is_lower_def of_char_of)

lemma append_single: "(@) [x] = (#) x"
  by (simp add: fun_eq_iff)

lemma unquote_u00:
  assumes "n < 128"
  shows "unquote ([CHR 0x5C, CHR ''u'', CHR ''0'', CHR ''0'', low_hex (n div 16), low_hex (n mod 16)] @ r) =
    map_option (apfst ((#) (char_of n))) (unquote r)"
proof -
  have h: "is_hex (low_hex (n div 16))" "is_hex (low_hex (n mod 16))"
    "unhex (low_hex (n div 16)) = n div 16" "unhex (low_hex (n mod 16)) = n mod 16"
    using assms low_hex_ok [of "n div 16"] low_hex_ok [of "n mod 16"] by auto
  have z: "is_hex CHR ''0''" "unhex CHR ''0'' = 0" by code_simp+
  have "unescape_u ([CHR ''0'', CHR ''0'', low_hex (n div 16), low_hex (n mod 16)] @ r) = Some ([char_of n], r)"
    using h z assms by (simp add: unescape_u_def encodeRune_def)
  moreover have "simple_escape CHR ''u'' = None" by code_simp
  ultimately show ?thesis by (simp add: unquote.simps(2) append_single)
qed

lemma unquote_simple:
  "simple_escape e = Some x \<Longrightarrow> unquote (CHR 0x5C # e # r) = map_option (apfst ((#) x)) (unquote r)"
  by (simp add: unquote.simps(2))

lemma unquote_plain:
  "ord_of c < 0x80 \<Longrightarrow> 32 \<le> ord_of c \<Longrightarrow> c \<noteq> CHR 0x22 \<Longrightarrow> c \<noteq> CHR 0x5C \<Longrightarrow>
   unquote (c # r) = map_option (apfst ((#) c)) (unquote r)"
  by (simp add: unquote.simps(2) append_single)

lemma char_of_ord: "ord_of c = n \<Longrightarrow> char_of n = c"
  by auto

lemma if_chain:
  "(if a then x1 else if b then x2 else if c then x3 else if d then x4 else if e then x5 else if f then x6
    else if g then x7 else if h1 \<or> h2 then y else z) = E \<Longrightarrow>
   a \<or> b \<or> c \<or> d \<or> e \<or> f \<or> g \<or> E = y \<or> E = z \<and> \<not> h1 \<and> \<not> b \<and> \<not> a"
  by auto

lemma unquote_escape_ascii:
  assumes "ord_of c < 0x80"
  shows "unquote (escape_ascii c @ r) = map_option (apfst ((#) c)) (unquote r)"
proof -
  have s: "simple_escape CHR 0x5C = Some CHR 0x5C" "simple_escape CHR 0x22 = Some CHR 0x22"
    "simple_escape CHR ''b'' = Some (char_of (8 :: nat))" "simple_escape CHR ''f'' = Some (char_of (12 :: nat))"
    "simple_escape CHR ''n'' = Some (char_of (10 :: nat))" "simple_escape CHR ''r'' = Some (char_of (13 :: nat))"
    "simple_escape CHR ''t'' = Some (char_of (9 :: nat))" by code_simp+
  consider "c = CHR 0x5C" | "c = CHR 0x22" | "ord_of c = 8" | "ord_of c = 12" | "ord_of c = 10"
    | "ord_of c = 13" | "ord_of c = 9"
    | "escape_ascii c = [CHR 0x5C, CHR ''u'', CHR ''0'', CHR ''0'', low_hex (ord_of c div 16), low_hex (ord_of c mod 16)]"
    | "escape_ascii c = [c]" "32 \<le> ord_of c" "c \<noteq> CHR 0x22" "c \<noteq> CHR 0x5C"
    using if_chain [OF escape_ascii_def [of c, symmetric]] by (auto simp: not_less)
  then show ?thesis
  proof cases
    case 8
    then show ?thesis using unquote_u00 [OF assms, of r] by simp
  next
    case 9
    then show ?thesis using unquote_plain [OF assms] by simp
  qed (auto simp: escape_ascii_def unquote_simple s char_of_ord)
qed

lemma unquote_fffd: "unquote ([CHR 0x5C] @ ''ufffd'' @ r) = map_option (apfst ((@) replacement)) (unquote r)"
proof -
  have h: "is_hex CHR ''f''" "is_hex CHR ''d''" "unhex CHR ''f'' = 15" "unhex CHR ''d'' = 13"
    "simple_escape CHR ''u'' = None" by code_simp+
  have e: "encodeRune 65533 = replacement"
    by (simp add: encodeRune_def replacement_def char_of_def bit_0)
  have "unescape_u (''fffd'' @ r) = Some (replacement, r)" by (simp add: unescape_u_def h e)
  then show ?thesis by (simp add: unquote.simps(2) h)
qed

lemma unquote_202x:
  assumes "line_sep (c # s)"
  shows "rune_len (c # s) = 3" and
    "unquote ([CHR 0x5C] @ ''u202'' @ [low_hex (ord_of (s ! 1) mod 16)] @ r) =
       map_option (apfst ((@) (take 3 (c # s)))) (unquote r)"
proof -
  obtain d s' where s: "c = CHR 0xE2" "s = CHR 0x80 # d # s'" "ord_of d = 0xA8 \<or> ord_of d = 0xA9"
    using assms by (cases s; cases "tl s") (auto simp: line_sep_def)
  then show "rune_len (c # s) = 3" by (auto simp: multi_len_def second_ok_def cont_def)
  have z: "is_hex CHR ''0''" "is_hex CHR ''2''" "unhex CHR ''0'' = 0" "unhex CHR ''2'' = 2"
    "simple_escape CHR ''u'' = None" by code_simp+
  have h: "is_hex (low_hex (ord_of d mod 16))" "unhex (low_hex (ord_of d mod 16)) = ord_of d mod 16"
    using low_hex_ok [of "ord_of d mod 16"] by auto
  have e: "encodeRune (8224 + ord_of d mod 16) = [CHR 0xE2, CHR 0x80, d]"
  proof -
    have "encodeRune 8232 = [CHR 0xE2, CHR 0x80, CHR 0xA8]" "encodeRune 8233 = [CHR 0xE2, CHR 0x80, CHR 0xA9]"
      by (simp_all add: encodeRune_def char_of_def bit_0)
    moreover have "d = CHR 0xA8 \<or> d = CHR 0xA9"
    proof -
      have "char_of (168 :: nat) = CHR 0xA8" "char_of (169 :: nat) = CHR 0xA9" by code_simp+
      with s(3) show ?thesis by (metis char_of_ord)
    qed
    ultimately show ?thesis by auto
  qed
  have "unescape_u (''202'' @ low_hex (ord_of d mod 16) # r) = Some ([CHR 0xE2, CHR 0x80, d], r)"
    using h z e by (auto simp: unescape_u_def)
  then show "unquote ([CHR 0x5C] @ ''u202'' @ [low_hex (ord_of (s ! 1) mod 16)] @ r) =
       map_option (apfst ((@) (take 3 (c # s)))) (unquote r)"
    using s(1,2) by (simp add: unquote.simps(2) z)
qed

lemma unquote_rune:
  assumes "\<not> ord_of c < 0x80" and "rune_len (c # s) \<noteq> 0"
  shows "unquote (take (rune_len (c # s)) (c # s) @ r) =
    map_option (apfst ((@) (take (rune_len (c # s)) (c # s)))) (unquote r)"
proof -
  let ?n = "rune_len (c # s)"
  have n: "1 \<le> ?n" "?n \<le> length (c # s)" using rune_len_Cons_pos [OF assms(2)] by simp_all
  then obtain d where d: "take ?n (c # s) @ r = c # d" by (cases ?n) auto
  have len: "rune_len (c # d) = ?n" using rune_len_take [OF assms(2), of r] by (simp only: d)
  have c: "c \<noteq> CHR 0x22" "c \<noteq> CHR 0x5C" "\<not> ord_of c < 32" using assms(1) by auto
  have "unquote (c # d) = map_option (apfst ((@) (take ?n (c # d)))) (unquote (drop ?n (c # d)))"
    using c assms(2) by (simp add: unquote.simps(2) len del: rune_len.simps)
  also have "\<dots> = map_option (apfst ((@) (take ?n (c # s)))) (unquote r)"
    using n(2) by (simp add: d [symmetric] del: rune_len.simps)
  finally show ?thesis by (simp only: d)
qed

lemma unquote_escape: "unquote (escape s @ CHR 0x22 # r) = Some (sanitize s, r)"
proof (induction s rule: escape.induct)
  case (2 c s)
  let ?n = "rune_len (c # s)"
  consider "ord_of c < 0x80" | "\<not> ord_of c < 0x80" "?n = 0" | "\<not> ord_of c < 0x80" "?n \<noteq> 0" "line_sep (c # s)"
    | "\<not> ord_of c < 0x80" "?n \<noteq> 0" "\<not> line_sep (c # s)" by blast
  then show ?case
  proof cases
    case 1
    then show ?thesis using 2(1) by (simp add: escape.simps(2) unquote_escape_ascii sanitize_ascii)
  next
    case 2
    then show ?thesis using "2.IH"(2) unquote_fffd [of "escape s @ CHR 0x22 # r"]
      by (simp add: escape.simps(2) sanitize.simps(2) del: rune_len.simps)
  next
    case 3
    then show ?thesis
      using "2.IH"(3) unquote_202x(1) [of c s] unquote_202x(2) [of c s "escape (drop ?n (c # s)) @ CHR 0x22 # r"]
      by (simp add: escape.simps(2) sanitize_rune del: rune_len.simps)
  next
    case 4
    then show ?thesis
      using "2.IH"(4) unquote_rune [of c s "escape (drop ?n (c # s)) @ CHR 0x22 # r"]
      by (simp add: escape.simps(2) sanitize_rune del: rune_len.simps)
  qed
qed (simp add: escape.simps sanitize.simps unquote.simps(2))

subsection \<open>Values\<close>

fun sanit :: "json \<Rightarrow> json" and sanit_elems :: "json list \<Rightarrow> json list"
  and sanit_members :: "(string \<times> json) list \<Rightarrow> (string \<times> json) list" where
  "sanit (JStr s) = JStr (sanitize s)"
| "sanit (JArr vs) = JArr (sanit_elems vs)"
| "sanit (JObj ms) = JObj (sanit_members ms)"
| "sanit v = v"
| "sanit_elems [] = []"
| "sanit_elems (v # vs) = sanit v # sanit_elems vs"
| "sanit_members [] = []"
| "sanit_members ((k, v) # ms) = (sanitize k, sanit v) # sanit_members ms"

text \<open>The values the encoder produces here: their numbers are integers.\<close>

fun int_json :: "json \<Rightarrow> bool" and int_elems :: "json list \<Rightarrow> bool"
  and int_members :: "(string \<times> json) list \<Rightarrow> bool" where
  "int_json (JNum l) = (\<exists>n. l = itoa n)"
| "int_json (JArr vs) = int_elems vs"
| "int_json (JObj ms) = int_members ms"
| "int_json _ = True"
| "int_elems [] = True"
| "int_elems (v # vs) = (int_json v \<and> int_elems vs)"
| "int_members [] = True"
| "int_members ((k, v) # ms) = (int_json v \<and> int_members ms)"

definition delim :: "string \<Rightarrow> bool" where
  "delim r \<longleftrightarrow> r = [] \<or> hd r \<in> set '',]}''"

lemma delim_simps [simp]: "delim []" "delim (CHR '','' # r)" "delim (CHR '']'' # r)" "delim (CHR ''}'' # r)"
  by (simp_all add: delim_def)

lemma not_ws [simp]:
  "\<not> json_ws CHR '',''" "\<not> json_ws CHR '']''" "\<not> json_ws CHR ''}''" "\<not> json_ws CHR '':''"
  "\<not> json_ws CHR 0x22" "\<not> json_ws CHR ''[''" "\<not> json_ws CHR ''{''"
  by (simp_all add: json_ws_def)

lemma takeWhile_digits:
  assumes "list_all is_digit ds" and "delim r"
  shows "takeWhile is_digit (ds @ r) = ds" and "dropWhile is_digit (ds @ r) = r"
proof -
  have "\<not> is_digit (hd r)" if "r \<noteq> []"
    using assms(2) that by (auto simp: delim_def is_digit_def)
  then have "takeWhile is_digit r = []" "dropWhile is_digit r = r" by (cases r; simp)+
  with assms(1) show "takeWhile is_digit (ds @ r) = ds" "dropWhile is_digit (ds @ r) = r"
    by (simp_all add: list_all_iff takeWhile_append2 dropWhile_append2)
qed

lemma jnumber_frac_exp:
  assumes "delim r"
  shows "num_frac r = Some ([], r)" "num_exp r = Some ([], r)"
  using assms by (auto simp: num_frac_def num_exp_def delim_def hasPrefix_single)

lemma num_int_digits:
  assumes "ds \<noteq> []" "list_all is_digit ds" "hd ds = CHR ''0'' \<longrightarrow> ds = ''0''" "delim r"
  shows "num_int (ds @ r) = Some (ds, r)" and "num_int (CHR ''-'' # ds @ r) = Some (CHR ''-'' # ds, r)"
proof -
  obtain d ds' where d: "ds = d # ds'" using assms(1) by (cases ds) auto
  have "is_digit d" using assms(2) d by simp
  then have "d \<noteq> CHR ''-''" by (auto simp: is_digit_def)
  then show "num_int (ds @ r) = Some (ds, r)" "num_int (CHR ''-'' # ds @ r) = Some (CHR ''-'' # ds, r)"
    using assms(3) d \<open>is_digit d\<close> takeWhile_digits [OF assms(2,4)]
    by (auto simp: num_int_def hasPrefix_single Let_def)
qed

lemma jnumber_itoa: "delim r \<Longrightarrow> jnumber (itoa n @ r) = Some (itoa n, r)"
proof -
  assume r: "delim r"
  have hd0: "hd (itoa_nat m) = CHR ''0'' \<longrightarrow> itoa_nat m = ''0''" for m
    using itoa_nat_hd [of m] by (cases "m = 0") (auto simp: itoa_nat.simps [of 0] char_of_def bit_0)
  have "itoa_nat m \<noteq> []" "list_all is_digit (itoa_nat m)" for m
    using itoa_nat_digits [of m] by simp_all
  with num_int_digits [OF _ _ hd0 r] have "num_int (itoa n @ r) = Some (itoa n, r)"
    by (simp add: itoa_def)
  then show ?thesis using jnumber_frac_exp [OF r] by (simp add: jnumber_def)
qed

lemma itoa_hd: "itoa n \<noteq> [] \<and> (is_digit (hd (itoa n)) \<or> hd (itoa n) = CHR ''-'')"
  using itoa_nat_digits [of "nat n"] by (cases "itoa_nat (nat n)") (auto simp: itoa_def)

lemma jval_itoa:
  assumes "delim r"
  shows "jval (itoa n @ r) = Some (JNum (itoa n), r)"
proof -
  obtain c s where c: "itoa n = c # s" using itoa_hd [of n] by (cases "itoa n") auto
  then have "is_digit c \<or> c = CHR ''-''" using itoa_hd [of n] by simp
  then have "c \<noteq> CHR 0x22" "c \<noteq> CHR ''[''" "c \<noteq> CHR ''{''" "c \<noteq> CHR ''n''" "c \<noteq> CHR ''t''" "c \<noteq> CHR ''f''"
    by (auto simp: is_digit_def)
  then show ?thesis
    using jnumber_itoa [OF assms, of n] c by (simp add: jval.simps hasPrefix_def)
qed

lemma jprint_head:
  assumes "int_json v"
  shows "jprint v \<noteq> [] \<and> (\<forall>r. skipws (jprint v @ r) = jprint v @ r) \<and> hd (jprint v) \<noteq> CHR '']''"
proof -
  have "jprint v \<noteq> [] \<and> \<not> json_ws (hd (jprint v)) \<and> hd (jprint v) \<noteq> CHR '']''"
  proof (cases v)
    case (JNum l)
    then obtain n where "l = itoa n" using assms by auto
    with JNum itoa_hd [of n] show ?thesis by (auto simp: json_ws_def is_digit_def)
  qed (auto simp: json_ws_def split: list.splits)
  then show ?thesis by (cases "jprint v") auto
qed

lemma jval_literals:
  "jval (''null'' @ r) = Some (JNull, r)" "jval (''true'' @ r) = Some (JBool True, r)"
  "jval (''false'' @ r) = Some (JBool False, r)"
  by (simp_all add: jval.simps hasPrefix_def)

lemma jarr_step:
  assumes "jval s = Some (v, r)" and "length (skipws r) < length s"
  shows "jarr s =
    (if hasPrefix (skipws r) '']'' then Some ([v], tl (skipws r))
     else if hasPrefix (skipws r) '','' then map_option (apfst ((#) v)) (jarr (skipws (tl (skipws r))))
     else None)"
  using assms by (simp add: jarr.simps [of s])

lemma jval_jprint:
  "int_json v \<Longrightarrow> delim r \<Longrightarrow> jval (jprint v @ r) = Some (sanit v, r)"
  "int_elems vs \<Longrightarrow> vs \<noteq> [] \<Longrightarrow> jarr (jprint_elems vs @ r) = Some (sanit_elems vs, r)"
  "int_members ms \<Longrightarrow> ms \<noteq> [] \<Longrightarrow> jobj (jprint_members ms @ r) = Some (sanit_members ms, r)"
proof (induction v and vs and ms arbitrary: r and r and r rule: jprint_jprint_elems_jprint_members.induct)
  case (2 b)
  then show ?case using jval_literals by simp
next
  case (3 l)
  then show ?case using jval_itoa by auto
next
  case (4 s)
  then show ?case by (simp add: jval.simps unquote_escape)
next
  case (5 vs)
  show ?case
  proof (cases vs)
    case (Cons w ws)
    have "int_json w" using 5(2) Cons by simp
    from jprint_head [OF this] have "skipws (jprint_elems vs @ r) = jprint_elems vs @ r"
      "\<not> hasPrefix (jprint_elems vs @ r) '']''"
      using Cons by (auto simp: hasPrefix_single)
    then show ?thesis using 5 Cons by (simp add: jval.simps)
  qed (simp add: jval.simps hasPrefix_def)
next
  case (6 ms)
  show ?case
  proof (cases ms)
    case (Cons m ms')
    obtain k w where "m = (k, w)" by (cases m)
    then have "skipws (jprint_members ms @ r) = jprint_members ms @ r" "\<not> hasPrefix (jprint_members ms @ r) ''}''"
      using Cons by (auto simp: hasPrefix_single)
    then show ?thesis using 6 Cons by (simp add: jval.simps)
  qed (simp add: jval.simps hasPrefix_def)
next
  case (8 v vs)
  have v: "int_json v" "int_elems vs" using 8(3) by simp_all
  show ?case
  proof (cases vs)
    case Nil
    have "jval (jprint v @ CHR '']'' # r) = Some (sanit v, CHR '']'' # r)" using 8(1) v by simp
    then show ?thesis using Nil jprint_head [OF v(1)] by (subst jarr_step) (auto simp: hasPrefix_single)
  next
    case (Cons w ws)
    let ?rest = "CHR '','' # jprint_elems vs @ r"
    have j: "jval (jprint v @ ?rest) = Some (sanit v, ?rest)" using 8(1) v by simp
    have "int_json w" using v Cons by simp
    from jprint_head [OF this] have "skipws (jprint_elems vs @ r) = jprint_elems vs @ r" using Cons by simp
    then show ?thesis using j 8(2) [OF Cons, of r] v Cons jprint_head [OF v(1)]
      by (subst jarr_step) (auto simp: hasPrefix_single)
  qed
next
  case (10 k v ms)
  have v: "int_json v" "int_members ms" using 10(3) by simp_all
  show ?case
  proof (cases ms)
    case Nil
    have "jval (jprint v @ CHR ''}'' # r) = Some (sanit v, CHR ''}'' # r)" using 10(1) v by simp
    then show ?thesis using Nil jprint_head [OF v(1)]
      by (simp add: jobj.simps hasPrefix_single unquote_escape)
  next
    case (Cons m ms')
    obtain k' w where m: "m = (k', w)" by (cases m)
    let ?rest = "CHR '','' # jprint_members ms @ r"
    have j: "jval (jprint v @ ?rest) = Some (sanit v, ?rest)" using 10(1) v by simp
    have "skipws (jprint_members ms @ r) = jprint_members ms @ r" using Cons m by simp
    then show ?thesis using j 10(2) [OF Cons, of r] v Cons jprint_head [OF v(1)]
      by (simp add: jobj.simps hasPrefix_single unquote_escape)
  qed
qed (use jval_literals in auto)

lemma json_parse_print:
  assumes "int_json v"
  shows "json_parse (jprint v) = Some (sanit v)"
proof -
  have "skipws (jprint v) = jprint v" using jprint_head [OF assms] by (metis append_Nil2)
  moreover have "jval (jprint v) = Some (sanit v, [])" using jval_jprint(1) [OF assms, of "[]"] by simp
  ultimately show ?thesis by (simp add: json_parse_def)
qed

end
