(* ===== verification/Wire.thy ===== *)
theory Wire
  imports Proto Go_Json
begin

text \<open>
  The payload structures of \<^verbatim>\<open>internal/proto/wire.go\<close> in JSON: \<^verbatim>\<open>MustJSON\<close> of each structure, and
  \<^verbatim>\<open>json.Unmarshal\<close> into it.  Decoding yields the structure as far as it could be filled and whether there
  was no error; a member whose type does not fit leaves its field as it was and is an error.  A key matches a
  field if it is equal to its name up to case.  An empty value list of a header is a nil slice in every
  header the program encodes, so it is printed as \<^verbatim>\<open>null\<close>.
\<close>

section \<open>Encoding\<close>

definition strings_json :: "string list \<Rightarrow> json" where
  "strings_json vs = (if vs = [] then JNull else JArr (map JStr vs))"

definition header_json :: "header \<Rightarrow> json" where
  "header_json h = JObj (map (\<lambda>k. (k, strings_json (hlookup h k))) (sort (map fst h)))"

definition omitempty :: "bool \<Rightarrow> string \<Rightarrow> json \<Rightarrow> (string \<times> json) list" where
  "omitempty e k v = (if e then [] else [(k, v)])"

definition ReqStart_json :: "ReqStart \<Rightarrow> json" where
  "ReqStart_json r =
     JObj ([(''m'', JStr (Method r)), (''p'', JStr (Path r))] @
       omitempty (RawQuery r = []) ''q'' (JStr (RawQuery r)) @
       omitempty (Host r = []) ''o'' (JStr (Host r)) @
       omitempty (Header r = []) ''h'' (header_json (Header r)) @
       omitempty (TrailerKeys r = []) ''t'' (strings_json (TrailerKeys r)) @
       omitempty (\<not> IsWebSocket r) ''ws'' (JBool (IsWebSocket r)))"

definition ResStart_json :: "ResStart \<Rightarrow> json" where
  "ResStart_json r =
     JObj ([(''s'', JNum (itoa (Status r)))] @
       omitempty (ResHeader r = []) ''h'' (header_json (ResHeader r)) @
       omitempty (ResTrailerKeys r = []) ''t'' (strings_json (ResTrailerKeys r)) @
       omitempty (\<not> Interim r) ''i'' (JBool (Interim r)))"

definition WsOpenErr_json :: "WsOpenErr \<Rightarrow> json" where
  "WsOpenErr_json e = JObj [(''m'', JStr (Message e))]"

definition WsOpenOK_json :: "WsOpenOK \<Rightarrow> json" where
  "WsOpenOK_json k =
     JObj (omitempty (Subprotocol k = []) ''p'' (JStr (Subprotocol k)) @
       omitempty (RelayMode k = []) ''r'' (JStr (RelayMode k)) @
       omitempty (Extensions k = []) ''x'' (strings_json (Extensions k)))"

definition WsClose_json :: "WsClose \<Rightarrow> json" where
  "WsClose_json c =
     JObj (omitempty (Code c = 0) ''c'' (JNum (itoa (Code c))) @
       omitempty (Reason c = []) ''r'' (JStr (Reason c)))"

definition MustJSON :: "json \<Rightarrow> bytes" where
  "MustJSON v = bytes_of (jprint v)"

section \<open>Decoding\<close>

definition decode_string :: "json \<Rightarrow> string \<Rightarrow> string \<times> bool" where
  "decode_string v cur = (case v of JStr s \<Rightarrow> (s, True) | JNull \<Rightarrow> (cur, True) | _ \<Rightarrow> (cur, False))"

definition decode_bool :: "json \<Rightarrow> bool \<Rightarrow> bool \<times> bool" where
  "decode_bool v cur = (case v of JBool b \<Rightarrow> (b, True) | JNull \<Rightarrow> (cur, True) | _ \<Rightarrow> (cur, False))"

definition decode_int :: "json \<Rightarrow> int \<Rightarrow> int \<times> bool" where
  "decode_int v cur =
     (case v of
        JNum l \<Rightarrow> (case parseInt l of Some n \<Rightarrow> (n, True) | None \<Rightarrow> (cur, False))
      | JNull \<Rightarrow> (cur, True)
      | _ \<Rightarrow> (cur, False))"

definition decode_strings :: "json \<Rightarrow> string list \<Rightarrow> string list \<times> bool" where
  "decode_strings v cur =
     (case v of
        JArr vs \<Rightarrow> (map (\<lambda>x. fst (decode_string x [])) vs, list_all (\<lambda>x. snd (decode_string x [])) vs)
      | JNull \<Rightarrow> ([], True)
      | _ \<Rightarrow> (cur, False))"

fun decode_entries :: "(string \<times> json) list \<Rightarrow> header \<Rightarrow> header \<times> bool" where
  "decode_entries [] h = (h, True)"
| "decode_entries ((k, v) # ms) h =
     (let (vs, ok) = decode_strings v []; (h', ok') = decode_entries ms (hput h k vs)
      in (h', ok \<and> ok'))"

definition decode_header :: "json \<Rightarrow> header \<Rightarrow> header \<times> bool" where
  "decode_header v cur =
     (case v of JObj ms \<Rightarrow> decode_entries ms cur | JNull \<Rightarrow> ([], True) | _ \<Rightarrow> (cur, False))"

text \<open>Sets one field from a member's value.\<close>

definition with_field :: "('a \<Rightarrow> 'b) \<Rightarrow> ('b \<Rightarrow> 'a \<Rightarrow> 'a) \<Rightarrow> (json \<Rightarrow> 'b \<Rightarrow> 'b \<times> bool) \<Rightarrow> json \<Rightarrow> 'a \<Rightarrow> 'a \<times> bool" where
  "with_field sel upd dec v r = (case dec v (sel r) of (x, ok) \<Rightarrow> (upd x r, ok))"

definition ReqStart_member :: "string \<Rightarrow> json \<Rightarrow> ReqStart \<Rightarrow> ReqStart \<times> bool" where
  "ReqStart_member k v r =
     (if equalFold k ''m'' then with_field Method (\<lambda>x. Method_update (\<lambda>_. x)) decode_string v r
      else if equalFold k ''p'' then with_field Path (\<lambda>x. Path_update (\<lambda>_. x)) decode_string v r
      else if equalFold k ''q'' then with_field RawQuery (\<lambda>x. RawQuery_update (\<lambda>_. x)) decode_string v r
      else if equalFold k ''o'' then with_field Host (\<lambda>x. Host_update (\<lambda>_. x)) decode_string v r
      else if equalFold k ''h'' then with_field Header (\<lambda>x. Header_update (\<lambda>_. x)) decode_header v r
      else if equalFold k ''t'' then with_field TrailerKeys (\<lambda>x. TrailerKeys_update (\<lambda>_. x)) decode_strings v r
      else if equalFold k ''ws'' then with_field IsWebSocket (\<lambda>x. IsWebSocket_update (\<lambda>_. x)) decode_bool v r
      else (r, True))"

definition ResStart_member :: "string \<Rightarrow> json \<Rightarrow> ResStart \<Rightarrow> ResStart \<times> bool" where
  "ResStart_member k v r =
     (if equalFold k ''s'' then with_field Status (\<lambda>x. Status_update (\<lambda>_. x)) decode_int v r
      else if equalFold k ''h'' then with_field ResHeader (\<lambda>x. ResHeader_update (\<lambda>_. x)) decode_header v r
      else if equalFold k ''t'' then with_field ResTrailerKeys (\<lambda>x. ResTrailerKeys_update (\<lambda>_. x)) decode_strings v r
      else if equalFold k ''i'' then with_field Interim (\<lambda>x. Interim_update (\<lambda>_. x)) decode_bool v r
      else (r, True))"

definition WsOpenErr_member :: "string \<Rightarrow> json \<Rightarrow> WsOpenErr \<Rightarrow> WsOpenErr \<times> bool" where
  "WsOpenErr_member k v r =
     (if equalFold k ''m'' then with_field Message (\<lambda>x. Message_update (\<lambda>_. x)) decode_string v r
      else (r, True))"

definition WsOpenOK_member :: "string \<Rightarrow> json \<Rightarrow> WsOpenOK \<Rightarrow> WsOpenOK \<times> bool" where
  "WsOpenOK_member k v r =
     (if equalFold k ''p'' then with_field Subprotocol (\<lambda>x. Subprotocol_update (\<lambda>_. x)) decode_string v r
      else if equalFold k ''r'' then with_field RelayMode (\<lambda>x. RelayMode_update (\<lambda>_. x)) decode_string v r
      else if equalFold k ''x'' then with_field Extensions (\<lambda>x. Extensions_update (\<lambda>_. x)) decode_strings v r
      else (r, True))"

definition WsClose_member :: "string \<Rightarrow> json \<Rightarrow> WsClose \<Rightarrow> WsClose \<times> bool" where
  "WsClose_member k v r =
     (if equalFold k ''c'' then with_field Code (\<lambda>x. Code_update (\<lambda>_. x)) decode_int v r
      else if equalFold k ''r'' then with_field Reason (\<lambda>x. Reason_update (\<lambda>_. x)) decode_string v r
      else (r, True))"

fun decode_members ::
  "(string \<Rightarrow> json \<Rightarrow> 'a \<Rightarrow> 'a \<times> bool) \<Rightarrow> (string \<times> json) list \<Rightarrow> 'a \<Rightarrow> 'a \<times> bool" where
  "decode_members mem [] r = (r, True)"
| "decode_members mem ((k, v) # ms) r =
     (let (r1, ok1) = mem k v r; (r2, ok2) = decode_members mem ms r1 in (r2, ok1 \<and> ok2))"

definition unmarshal ::
  "(string \<Rightarrow> json \<Rightarrow> 'a \<Rightarrow> 'a \<times> bool) \<Rightarrow> 'a \<Rightarrow> bytes \<Rightarrow> 'a \<times> bool" where
  "unmarshal mem zero payload =
     (case json_parse (string_of payload) of
        None \<Rightarrow> (zero, False)
      | Some (JObj ms) \<Rightarrow> decode_members mem ms zero
      | Some JNull \<Rightarrow> (zero, True)
      | Some _ \<Rightarrow> (zero, False))"

definition zero_ReqStart :: ReqStart where
  "zero_ReqStart = \<lparr>Method = [], Path = [], RawQuery = [], Host = [], Header = [], TrailerKeys = [],
     IsWebSocket = False\<rparr>"

definition zero_ResStart :: ResStart where
  "zero_ResStart = \<lparr>Status = 0, ResHeader = [], ResTrailerKeys = [], Interim = False\<rparr>"

definition unmarshal_ReqStart :: "bytes \<Rightarrow> ReqStart \<times> bool" where
  "unmarshal_ReqStart = unmarshal ReqStart_member zero_ReqStart"

definition unmarshal_ResStart :: "bytes \<Rightarrow> ResStart \<times> bool" where
  "unmarshal_ResStart = unmarshal ResStart_member zero_ResStart"

definition unmarshal_WsOpenErr :: "bytes \<Rightarrow> WsOpenErr \<times> bool" where
  "unmarshal_WsOpenErr = unmarshal WsOpenErr_member \<lparr>Message = []\<rparr>"

definition unmarshal_WsOpenOK :: "bytes \<Rightarrow> WsOpenOK \<times> bool" where
  "unmarshal_WsOpenOK = unmarshal WsOpenOK_member \<lparr>Subprotocol = [], RelayMode = [], Extensions = []\<rparr>"

definition unmarshal_WsClose :: "bytes \<Rightarrow> WsClose \<times> bool" where
  "unmarshal_WsClose = unmarshal WsClose_member \<lparr>Code = 0, Reason = []\<rparr>"

definition unmarshal_header :: "bytes \<Rightarrow> header \<times> bool" where
  "unmarshal_header payload =
     (case json_parse (string_of payload) of None \<Rightarrow> ([], False) | Some v \<Rightarrow> decode_header v [])"

section \<open>Lemmas\<close>

definition sort_header :: "header \<Rightarrow> header" where
  "sort_header h = map (\<lambda>k. (k, hlookup h k)) (sort (map fst h))"

lemma hlookup_sort_header: "hlookup (sort_header h) k = hlookup h k"
proof -
  have "map_of (map (\<lambda>k. (k, hlookup h k)) ks) k = (if k \<in> set ks then Some (hlookup h k) else None)" for ks
    by (induction ks) auto
  then have "hlookup (sort_header h) k = (if k \<in> fst ` set h then hlookup h k else [])"
    unfolding sort_header_def by (subst hlookup_def) simp
  then show ?thesis by (simp add: hlookup_def map_of_eq_None_iff [THEN iffD2])
qed

lemma keys_sort_header: "fst ` set (sort_header h) = fst ` set h"
  by (auto simp: sort_header_def image_image)

lemma header_ok_sort_header: "header_ok h \<Longrightarrow> header_ok (sort_header h)"
  by (simp add: header_ok_def sort_header_def comp_def)

text \<open>A header, or list of strings, whose strings are all valid UTF-8.\<close>

definition utf8_header :: "header \<Rightarrow> bool" where
  "utf8_header h \<longleftrightarrow> (\<forall>(k, vs) \<in> set h. valid_utf8 k \<and> list_all valid_utf8 vs)"

lemma sanit_append: "sanit_members (xs @ ys) = sanit_members xs @ sanit_members ys"
  by (induction xs) auto

lemma int_append: "int_members (xs @ ys) = (int_members xs \<and> int_members ys)"
  by (induction xs) auto

lemma strings_elems:
  "list_all valid_utf8 vs \<Longrightarrow> sanit_elems (map JStr vs) = map JStr vs" "int_elems (map JStr vs)"
  by (induction vs) (auto simp: sanitize_valid)

lemma sanit_strings: "list_all valid_utf8 vs \<Longrightarrow> sanit (strings_json vs) = strings_json vs"
  by (simp add: strings_json_def strings_elems)

lemma int_strings: "int_json (strings_json vs)"
  by (simp add: strings_json_def strings_elems)

lemma decode_strings_json: "decode_strings (strings_json vs) cur = (vs, True)"
  by (auto simp: decode_strings_def strings_json_def decode_string_def comp_def list_all_iff)

lemma utf8_header_lookup: "utf8_header h \<Longrightarrow> list_all valid_utf8 (hlookup h k)"
  by (auto simp: utf8_header_def hlookup_def split: option.splits dest: map_of_SomeD)

lemma sanit_header: "utf8_header h \<Longrightarrow> sanit (header_json h) = header_json h"
proof -
  assume u: "utf8_header h"
  have "sanit_members (map (\<lambda>k. (k, strings_json (hlookup h k))) ks) = map (\<lambda>k. (k, strings_json (hlookup h k))) ks"
    if "\<forall>k \<in> set ks. valid_utf8 k" for ks
    using that by (induction ks) (auto simp: sanitize_valid sanit_strings utf8_header_lookup [OF u])
  moreover have "\<forall>k \<in> set (sort (map fst h)). valid_utf8 k" using u by (auto simp: utf8_header_def)
  ultimately show ?thesis by (simp add: header_json_def)
qed

lemma int_header: "int_json (header_json h)"
proof -
  have "int_members (map (\<lambda>k. (k, strings_json (hlookup h k))) ks)" for ks
    by (induction ks) (auto simp: int_strings)
  then show ?thesis by (simp add: header_json_def)
qed

lemma update_new: "k \<notin> fst ` set h \<Longrightarrow> AList.update k v h = h @ [(k, v)]"
  by (induction h) auto

lemma decode_entries_sorted:
  "distinct ks \<Longrightarrow> set ks \<inter> fst ` set acc = {} \<Longrightarrow>
   decode_entries (map (\<lambda>k. (k, strings_json (f k))) ks) acc = (acc @ map (\<lambda>k. (k, f k)) ks, True)"
  by (induction ks arbitrary: acc) (auto simp: decode_strings_json hput_def update_new)

lemma decode_header_json: "header_ok h \<Longrightarrow> decode_header (header_json h) [] = (sort_header h, True)"
  by (simp add: decode_header_def header_json_def sort_header_def header_ok_def decode_entries_sorted)

lemma decode_members_append:
  "decode_members mem (xs @ ys) r =
     (let (r1, ok1) = decode_members mem xs r; (r2, ok2) = decode_members mem ys r1 in (r2, ok1 \<and> ok2))"
  by (induction mem xs r rule: decode_members.induct) (auto split: prod.splits)

lemma unmarshal_MustJSON:
  assumes "int_members ms" and "sanit_members ms = ms"
  shows "unmarshal mem zero (MustJSON (JObj ms)) = decode_members mem ms zero"
  using json_parse_print [of "JObj ms"] assms by (simp add: unmarshal_def MustJSON_def)

lemma fold_keys:
  "foldCase ''m'' = ''m''" "foldCase ''p'' = ''p''" "foldCase ''q'' = ''q''" "foldCase ''o'' = ''o''"
  "foldCase ''h'' = ''h''" "foldCase ''t'' = ''t''" "foldCase ''ws'' = ''ws''" "foldCase ''s'' = ''s''"
  "foldCase ''i'' = ''i''" "foldCase ''r'' = ''r''" "foldCase ''x'' = ''x''" "foldCase ''c'' = ''c''"
  by code_simp+

lemma key_utf8 [simp]:
  "sanitize ''m'' = ''m''" "sanitize ''p'' = ''p''" "sanitize ''q'' = ''q''" "sanitize ''o'' = ''o''"
  "sanitize ''h'' = ''h''" "sanitize ''t'' = ''t''" "sanitize ''ws'' = ''ws''" "sanitize ''s'' = ''s''"
  "sanitize ''i'' = ''i''" "sanitize ''r'' = ''r''" "sanitize ''x'' = ''x''" "sanitize ''c'' = ''c''"
  by code_simp+

lemmas member_simps =
  omitempty_def with_field_def equalFold_def fold_keys decode_string_def decode_bool_def decode_int_def
  decode_strings_json decode_header_json parseInt_itoa

text \<open>Decoding one member that was written, or left out because it was empty.\<close>

lemma ReqStart_fields:
  "decode_members ReqStart_member [(''m'', JStr x), (''p'', JStr y)] r = (r\<lparr>Method := x, Path := y\<rparr>, True)"
  "RawQuery r = [] \<Longrightarrow> decode_members ReqStart_member (omitempty (x = []) ''q'' (JStr x)) r = (r\<lparr>RawQuery := x\<rparr>, True)"
  "Host r = [] \<Longrightarrow> decode_members ReqStart_member (omitempty (x = []) ''o'' (JStr x)) r = (r\<lparr>Host := x\<rparr>, True)"
  "Header r = [] \<Longrightarrow> header_ok h \<Longrightarrow>
     decode_members ReqStart_member (omitempty (h = []) ''h'' (header_json h)) r = (r\<lparr>Header := sort_header h\<rparr>, True)"
  "TrailerKeys r = [] \<Longrightarrow>
     decode_members ReqStart_member (omitempty (ks = []) ''t'' (strings_json ks)) r = (r\<lparr>TrailerKeys := ks\<rparr>, True)"
  "\<not> IsWebSocket r \<Longrightarrow>
     decode_members ReqStart_member (omitempty (\<not> b) ''ws'' (JBool b)) r = (r\<lparr>IsWebSocket := b\<rparr>, True)"
  by (simp_all add: ReqStart_member_def member_simps sort_header_def del: foldCase.simps)

lemma ResStart_fields:
  "i64_range n \<Longrightarrow> decode_members ResStart_member [(''s'', JNum (itoa n))] s = (s\<lparr>Status := n\<rparr>, True)"
  "ResHeader s = [] \<Longrightarrow> header_ok h \<Longrightarrow>
     decode_members ResStart_member (omitempty (h = []) ''h'' (header_json h)) s = (s\<lparr>ResHeader := sort_header h\<rparr>, True)"
  "ResTrailerKeys s = [] \<Longrightarrow>
     decode_members ResStart_member (omitempty (ks = []) ''t'' (strings_json ks)) s = (s\<lparr>ResTrailerKeys := ks\<rparr>, True)"
  "\<not> Interim s \<Longrightarrow>
     decode_members ResStart_member (omitempty (\<not> b) ''i'' (JBool b)) s = (s\<lparr>Interim := b\<rparr>, True)"
  by (simp_all add: ResStart_member_def member_simps sort_header_def del: foldCase.simps)

lemma WsOpenOK_fields:
  "Subprotocol k = [] \<Longrightarrow> decode_members WsOpenOK_member (omitempty (x = []) ''p'' (JStr x)) k = (k\<lparr>Subprotocol := x\<rparr>, True)"
  "RelayMode k = [] \<Longrightarrow> decode_members WsOpenOK_member (omitempty (x = []) ''r'' (JStr x)) k = (k\<lparr>RelayMode := x\<rparr>, True)"
  "Extensions k = [] \<Longrightarrow>
     decode_members WsOpenOK_member (omitempty (xs = []) ''x'' (strings_json xs)) k = (k\<lparr>Extensions := xs\<rparr>, True)"
  by (simp_all add: WsOpenOK_member_def member_simps del: foldCase.simps)

lemma WsClose_fields:
  "Code c = 0 \<Longrightarrow> i64_range n \<Longrightarrow>
     decode_members WsClose_member (omitempty (n = 0) ''c'' (JNum (itoa n))) c = (c\<lparr>Code := n\<rparr>, True)"
  "Reason c = [] \<Longrightarrow> decode_members WsClose_member (omitempty (x = []) ''r'' (JStr x)) c = (c\<lparr>Reason := x\<rparr>, True)"
  by (simp_all add: WsClose_member_def member_simps del: foldCase.simps)

lemmas encode_ok = sanit_append int_append omitempty_def sanitize_valid sanit_strings int_strings
  sanit_header int_header

text \<open>Every string of the structure is valid UTF-8 and no header key occurs twice.\<close>

definition ReqStart_ok :: "ReqStart \<Rightarrow> bool" where
  "ReqStart_ok r \<longleftrightarrow>
     list_all valid_utf8 ([Method r, Path r, RawQuery r, Host r] @ TrailerKeys r) \<and>
     utf8_header (Header r) \<and> header_ok (Header r)"

definition ResStart_ok :: "ResStart \<Rightarrow> bool" where
  "ResStart_ok r \<longleftrightarrow>
     list_all valid_utf8 (ResTrailerKeys r) \<and> utf8_header (ResHeader r) \<and> header_ok (ResHeader r) \<and>
     i64_range (Status r)"

lemma unmarshal_ReqStart_MustJSON:
  assumes "ReqStart_ok r"
  shows "unmarshal_ReqStart (MustJSON (ReqStart_json r)) = (r\<lparr>Header := sort_header (Header r)\<rparr>, True)"
proof -
  have "unmarshal_ReqStart (MustJSON (ReqStart_json r)) =
      decode_members ReqStart_member (case ReqStart_json r of JObj ms \<Rightarrow> ms | _ \<Rightarrow> []) zero_ReqStart"
    unfolding unmarshal_ReqStart_def ReqStart_json_def json.case
    by (rule unmarshal_MustJSON) (use assms in \<open>auto simp: ReqStart_ok_def encode_ok\<close>)
  also have "\<dots> = (r\<lparr>Header := sort_header (Header r)\<rparr>, True)"
    using assms unfolding ReqStart_json_def json.case
    by (simp add: ReqStart_ok_def decode_members_append ReqStart_fields zero_ReqStart_def
        del: decode_members.simps append_Cons append_Nil)
  finally show ?thesis .
qed

lemma unmarshal_ResStart_MustJSON:
  assumes "ResStart_ok r"
  shows "unmarshal_ResStart (MustJSON (ResStart_json r)) = (r\<lparr>ResHeader := sort_header (ResHeader r)\<rparr>, True)"
proof -
  have "unmarshal_ResStart (MustJSON (ResStart_json r)) =
      decode_members ResStart_member (case ResStart_json r of JObj ms \<Rightarrow> ms | _ \<Rightarrow> []) zero_ResStart"
    unfolding unmarshal_ResStart_def ResStart_json_def json.case
    by (rule unmarshal_MustJSON) (use assms in \<open>auto simp: ResStart_ok_def encode_ok\<close>)
  also have "\<dots> = (r\<lparr>ResHeader := sort_header (ResHeader r)\<rparr>, True)"
    using assms unfolding ResStart_json_def json.case
    by (simp add: ResStart_ok_def decode_members_append ResStart_fields zero_ResStart_def
        del: decode_members.simps append_Cons append_Nil)
  finally show ?thesis .
qed

definition WsOpenOK_ok :: "WsOpenOK \<Rightarrow> bool" where
  "WsOpenOK_ok k \<longleftrightarrow> list_all valid_utf8 ([Subprotocol k, RelayMode k] @ Extensions k)"

definition WsClose_ok :: "WsClose \<Rightarrow> bool" where
  "WsClose_ok c \<longleftrightarrow> valid_utf8 (Reason c) \<and> i64_range (Code c)"

lemma unmarshal_WsOpenOK_MustJSON:
  assumes "WsOpenOK_ok r"
  shows "unmarshal_WsOpenOK (MustJSON (WsOpenOK_json r)) = (r, True)"
proof -
  have "unmarshal_WsOpenOK (MustJSON (WsOpenOK_json r)) =
      decode_members WsOpenOK_member (case WsOpenOK_json r of JObj ms \<Rightarrow> ms | _ \<Rightarrow> []) \<lparr>Subprotocol = [], RelayMode = [], Extensions = []\<rparr>"
    unfolding unmarshal_WsOpenOK_def WsOpenOK_json_def json.case
    by (rule unmarshal_MustJSON) (use assms in \<open>auto simp: WsOpenOK_ok_def encode_ok\<close>)
  also have "\<dots> = (r, True)"
    using assms unfolding WsOpenOK_json_def json.case
    by (simp add: WsOpenOK_ok_def decode_members_append WsOpenOK_fields 
        del: decode_members.simps append_Cons append_Nil)
  finally show ?thesis .
qed

lemma unmarshal_WsClose_MustJSON:
  assumes "WsClose_ok r"
  shows "unmarshal_WsClose (MustJSON (WsClose_json r)) = (r, True)"
proof -
  have "unmarshal_WsClose (MustJSON (WsClose_json r)) =
      decode_members WsClose_member (case WsClose_json r of JObj ms \<Rightarrow> ms | _ \<Rightarrow> []) \<lparr>Code = 0, Reason = []\<rparr>"
    unfolding unmarshal_WsClose_def WsClose_json_def json.case
    by (rule unmarshal_MustJSON) (use assms in \<open>auto simp: WsClose_ok_def encode_ok\<close>)
  also have "\<dots> = (r, True)"
    using assms unfolding WsClose_json_def json.case
    by (simp add: WsClose_ok_def decode_members_append WsClose_fields 
        del: decode_members.simps append_Cons append_Nil)
  finally show ?thesis .
qed

lemma unmarshal_header_MustJSON:
  assumes "utf8_header h" and "header_ok h"
  shows "unmarshal_header (MustJSON (header_json h)) = (sort_header h, True)"
  using json_parse_print [OF int_header [of h]] assms
  by (simp add: unmarshal_header_def MustJSON_def sanit_header decode_header_json)

section \<open>Properties\<close>

text \<open>C29. A request start that the gateway encodes is decoded by the agent without error and with every
  field as it was (the header up to the order of its keys), provided its strings are valid UTF-8.\<close>

theorem ReqStart_roundtrip:
  assumes "ReqStart_ok r"
  shows "\<exists>r'. unmarshal_ReqStart (MustJSON (ReqStart_json r)) = (r', True) \<and>
    Method r' = Method r \<and> Path r' = Path r \<and> RawQuery r' = RawQuery r \<and> Host r' = Host r \<and>
    TrailerKeys r' = TrailerKeys r \<and> IsWebSocket r' = IsWebSocket r \<and>
    (\<forall>k. hlookup (Header r') k = hlookup (Header r) k) \<and>
    fst ` set (Header r') = fst ` set (Header r)"
  using unmarshal_ReqStart_MustJSON [OF assms] by (simp add: hlookup_sort_header keys_sort_header)

theorem ReqStart_roundtrip_witness:
  "\<exists>r'. unmarshal_ReqStart (MustJSON (ReqStart_json
      \<lparr>Method = ''GET'', Path = ''/a<b>'', RawQuery = [], Host = ''h'',
       Header = [(''X'', [''1'', ''2''])], TrailerKeys = [], IsWebSocket = True\<rparr>)) = (r', True) \<and>
    Path r' = ''/a<b>'' \<and> hlookup (Header r') ''X'' = [''1'', ''2'']"
proof -
  have "ReqStart_ok \<lparr>Method = ''GET'', Path = ''/a<b>'', RawQuery = [], Host = ''h'',
       Header = [(''X'', [''1'', ''2''])], TrailerKeys = [], IsWebSocket = True\<rparr>" by code_simp
  from ReqStart_roundtrip [OF this] show ?thesis by (auto simp: hlookup_def)
qed

text \<open>The same for the response start that the agent encodes.\<close>

theorem ResStart_roundtrip:
  assumes "ResStart_ok r"
  shows "\<exists>r'. unmarshal_ResStart (MustJSON (ResStart_json r)) = (r', True) \<and>
    Status r' = Status r \<and> ResTrailerKeys r' = ResTrailerKeys r \<and> Interim r' = Interim r \<and>
    (\<forall>k. hlookup (ResHeader r') k = hlookup (ResHeader r) k) \<and>
    fst ` set (ResHeader r') = fst ` set (ResHeader r)"
  using unmarshal_ResStart_MustJSON [OF assms] by (simp add: hlookup_sort_header keys_sort_header)

theorem ResStart_roundtrip_witness:
  "\<exists>r'. unmarshal_ResStart (MustJSON (ResStart_json
      \<lparr>Status = 204, ResHeader = [(''X'', [''y''])], ResTrailerKeys = [''T''], Interim = False\<rparr>)) = (r', True) \<and>
    Status r' = 204 \<and> ResTrailerKeys r' = [''T'']"
proof -
  have "ResStart_ok \<lparr>Status = 204, ResHeader = [(''X'', [''y''])], ResTrailerKeys = [''T''], Interim = False\<rparr>"
    by code_simp
  from ResStart_roundtrip [OF this] show ?thesis by auto
qed

text \<open>C30. A request path that is not valid UTF-8 does not survive: the agent sees it with each offending byte
  replaced by U+FFFD, without any error.\<close>

theorem ReqStart_mangles_invalid_utf8:
  assumes "ReqStart_ok (r\<lparr>Path := []\<rparr>)" and "\<not> valid_utf8 (Path r)"
  shows "\<exists>r'. unmarshal_ReqStart (MustJSON (ReqStart_json r)) = (r', True) \<and>
    Path r' = sanitize (Path r) \<and> Path r' \<noteq> Path r"
proof -
  let ?r = "r\<lparr>Path := sanitize (Path r)\<rparr>"
  have ok: "ReqStart_ok ?r" using assms(1) by (simp add: ReqStart_ok_def valid_sanitize)
  obtain ms where ms: "ReqStart_json r = JObj ms" by (simp add: ReqStart_json_def)
  have "int_members ms"
    using ms by (auto simp: ReqStart_json_def int_append omitempty_def int_header int_strings)
  moreover have "sanit (ReqStart_json r) = ReqStart_json ?r"
    using assms(1) by (simp add: ReqStart_json_def ReqStart_ok_def encode_ok)
  moreover obtain ms' where ms': "ReqStart_json ?r = JObj ms'" by (simp add: ReqStart_json_def)
  ultimately have "json_parse (jprint (ReqStart_json r)) = Some (JObj ms')"
    using json_parse_print [of "ReqStart_json r"] ms by simp
  moreover have "json_parse (jprint (ReqStart_json ?r)) = Some (JObj ms')"
  proof -
    have "sanit (ReqStart_json ?r) = ReqStart_json ?r" "int_json (ReqStart_json ?r)"
      using ok by (simp_all add: ReqStart_json_def ReqStart_ok_def encode_ok)
    then show ?thesis using json_parse_print [of "ReqStart_json ?r"] ms' by simp
  qed
  ultimately have "unmarshal_ReqStart (MustJSON (ReqStart_json r)) = unmarshal_ReqStart (MustJSON (ReqStart_json ?r))"
    by (simp add: unmarshal_ReqStart_def unmarshal_def MustJSON_def)
  then show ?thesis
    using unmarshal_ReqStart_MustJSON [OF ok] assms(2) by (simp add: sanitize_id_iff)
qed

theorem ReqStart_mangles_invalid_utf8_witness:
  "\<exists>r'. unmarshal_ReqStart (MustJSON (ReqStart_json (zero_ReqStart\<lparr>Path := [CHR ''/'', CHR 0xE9]\<rparr>))) = (r', True) \<and>
    Path r' = [CHR ''/'', CHR 0xEF, CHR 0xBF, CHR 0xBD]"
proof -
  have "ReqStart_ok (zero_ReqStart\<lparr>Path := [CHR ''/'', CHR 0xE9]\<rparr>\<lparr>Path := []\<rparr>)" by code_simp
  moreover have "\<not> valid_utf8 [CHR ''/'', CHR 0xE9]" by code_simp
  moreover have "sanitize [CHR ''/'', CHR 0xE9] = [CHR ''/'', CHR 0xEF, CHR 0xBF, CHR 0xBD]" by code_simp
  ultimately show ?thesis
    using ReqStart_mangles_invalid_utf8 [of "zero_ReqStart\<lparr>Path := [CHR ''/'', CHR 0xE9]\<rparr>"] by auto
qed

end
