(* ===== verification/Go_Response.thy ===== *)
theory Go_Response
  imports Go_Http Proto
begin

text \<open>
  \<^verbatim>\<open>http.ResponseWriter\<close> as the server of \<^verbatim>\<open>net/http\<close> implements it, seen from a handler: the
  header map, the final status once it is written, and what went to the client.  Informational codes are
  written at once and leave the header map as it is; a second final status is ignored; a code outside
  100--999 panics.
\<close>

datatype wevent = WInterim int header | WStatus int header | WBody bytes | WFlush

record rw =
  whdr :: header
  wstatus :: "int option"
  wout :: "wevent list"
  wpanic :: bool

definition rw_WriteHeader :: "'a rw_scheme \<Rightarrow> int \<Rightarrow> 'a rw_scheme" where
  "rw_WriteHeader w code =
     (if wstatus w \<noteq> None then w
      else if code < 100 \<or> code > 999 then w\<lparr>wpanic := True\<rparr>
      else if code \<le> 199 \<and> code \<noteq> 101 then w\<lparr>wout := wout w @ [WInterim code (whdr w)]\<rparr>
      else w\<lparr>wstatus := Some code, wout := wout w @ [WStatus code (whdr w)]\<rparr>)"

text \<open>\<open>ok\<close>: the outcome of the write to the client.\<close>

definition rw_Write :: "'a rw_scheme \<Rightarrow> bytes \<Rightarrow> bool \<Rightarrow> 'a rw_scheme" where
  "rw_Write w p ok =
     (let w1 = (if wstatus w = None then rw_WriteHeader w 200 else w)
      in if ok then w1\<lparr>wout := wout w1 @ [WBody p]\<rparr> else w1)"

definition rw_Flush :: "'a rw_scheme \<Rightarrow> 'a rw_scheme" where
  "rw_Flush w =
     (let w1 = (if wstatus w = None then rw_WriteHeader w 200 else w)
      in w1\<lparr>wout := wout w1 @ [WFlush]\<rparr>)"

text \<open>The header of an \<^verbatim>\<open>http.Error\<close> answer.\<close>

definition error_header :: "header \<Rightarrow> header" where
  "error_header h =
     hset (hset (hdel h ''Content-Length'') ''Content-Type'' ''text/plain; charset=utf-8'')
       ''X-Content-Type-Options'' ''nosniff''"

definition http_Error :: "'a rw_scheme \<Rightarrow> string \<Rightarrow> int \<Rightarrow> 'a rw_scheme" where
  "http_Error w msg code =
     rw_Write (rw_WriteHeader (w\<lparr>whdr := error_header (whdr w)\<rparr>) code) (bytes_of (msg @ [CHR 0x0A])) True"

definition rw_new :: rw where
  "rw_new = \<lparr>whdr = [], wstatus = None, wout = [], wpanic = False\<rparr>"

text \<open>The bytes of the body that reached the client.\<close>

definition body_of :: "wevent list \<Rightarrow> bytes" where
  "body_of es = concat (map (\<lambda>e. case e of WBody p \<Rightarrow> p | _ \<Rightarrow> []) es)"

lemma body_of_append [simp]: "body_of (a @ b) = body_of a @ body_of b"
  by (simp add: body_of_def)

lemma body_of_simps [simp]:
  "body_of [] = []" "body_of (WBody p # es) = p @ body_of es" "body_of (WFlush # es) = body_of es"
  "body_of (WInterim c h # es) = body_of es" "body_of (WStatus c h # es) = body_of es"
  by (simp_all add: body_of_def)

end
