(* ===== verification/Gateway_Http.thy ===== *)
theory Gateway_Http
  imports Gateway_Server Wire Go_Response
begin

text \<open>
  \<^verbatim>\<open>handleClientHTTP\<close> of the gateway with its helpers.  The handler is a function of what it meets: whether
  a stream could be opened, the outcome of each send to the agent and of each write to the client, the reads
  of the request body, and the results of its successive \<^verbatim>\<open>recv\<close> calls.  It yields the frames it sent, what
  went to the client, and whether it returned, panicked, or still waits because a list of results ended.

  The goroutine that watches for a cancelled request sends one reset and closes the stream
  (\<open>client_canceled\<close>); the handler then meets failing sends and a failing \<^verbatim>\<open>recv\<close>.  The deferred
  \<^verbatim>\<open>closeWithErr(nil)\<close> is the step \<open>close_stream\<close> of the connection.
\<close>

section \<open>Response writer of the access log\<close>

record logResponseWriter = rw +
  lstatus :: int
  lbytes :: int

definition lw_new :: logResponseWriter where
  "lw_new = \<lparr>whdr = [], wstatus = None, wout = [], wpanic = False, lstatus = 0, lbytes = 0\<rparr>"

definition lw_WriteHeader :: "logResponseWriter \<Rightarrow> int \<Rightarrow> logResponseWriter" where
  "lw_WriteHeader w code = rw_WriteHeader (w\<lparr>lstatus := code\<rparr>) code"

definition lw_Write :: "logResponseWriter \<Rightarrow> bytes \<Rightarrow> bool \<Rightarrow> logResponseWriter" where
  "lw_Write w p ok =
     (let w1 = (if lstatus w = 0 then w\<lparr>lstatus := 200\<rparr> else w);
          w2 = rw_Write w1 p ok
      in if ok then w2\<lparr>lbytes := lbytes w2 + int (length p)\<rparr> else w2)"

definition statusOr :: "logResponseWriter \<Rightarrow> int \<Rightarrow> int" where
  "statusOr w dflt = (if lstatus w = 0 then dflt else lstatus w)"

definition lw_Error :: "logResponseWriter \<Rightarrow> string \<Rightarrow> int \<Rightarrow> logResponseWriter" where
  "lw_Error w msg code =
     lw_Write (lw_WriteHeader (w\<lparr>whdr := error_header (whdr w)\<rparr>) code) (bytes_of (msg @ [CHR 0x0A])) True"

definition writeInterim :: "logResponseWriter \<Rightarrow> ResStart \<Rightarrow> logResponseWriter" where
  "writeInterim w rs =
     (if Status rs \<le> 0 then w
      else lw_WriteHeader
        (w\<lparr>whdr := CopyHeaders (whdr w) (StripConnectionHeaders (ResHeader rs))\<rparr>) (Status rs))"

definition setTrailerKeys :: "header \<Rightarrow> string list \<Rightarrow> header" where
  "setTrailerKeys h keys =
     (let uniq = collect_unseen [] (map (\<lambda>k. canonicalHeaderKey (trimSpace k)) keys)
      in if keys = [] \<or> uniq = [] then h else hset h ''Trailer'' (joinWith '', '' uniq))"

section \<open>Request and environment\<close>

record Request =
  rMethod :: string
  rPath :: string
  rRawQuery :: string
  rHost :: string
  rHeader :: header
  rTrailer :: header
  rContentLength :: int

type_synonym reads = "(bytes \<times> ioerr option) list"

record http_env =
  heNew :: bool
  heSend :: "nat \<Rightarrow> bool"
  heBody :: reads
  heTrailer :: header
  heRecv :: "(ioerr + Frame) list"
  heWrite :: "nat \<Rightarrow> bool"

record hstate =
  hSent :: "(byte \<times> bytes) list"
  hSends :: nat
  hW :: logResponseWriter
  hWrites :: nat

datatype outcome = Returned | Waiting | Panicked

definition hstate_new :: hstate where
  "hstate_new = \<lparr>hSent = [], hSends = 0, hW = lw_new, hWrites = 0\<rparr>"

definition h_send :: "http_env \<Rightarrow> hstate \<Rightarrow> byte \<Rightarrow> bytes \<Rightarrow> bool \<times> hstate" where
  "h_send e st t p =
     (let ok = heSend e (hSends st)
      in (ok, st\<lparr>hSends := Suc (hSends st), hSent := (if ok then hSent st @ [(t, p)] else hSent st)\<rparr>))"

definition h_error :: "hstate \<Rightarrow> string \<Rightarrow> int \<Rightarrow> hstate" where
  "h_error st msg code = st\<lparr>hW := lw_Error (hW st) msg code\<rparr>"

text \<open>\<^verbatim>\<open>http.MaxBytesReader\<close> over the reads of a body.\<close>

fun maxBytesReader :: "nat \<Rightarrow> reads \<Rightarrow> reads" where
  "maxBytesReader n [] = []"
| "maxBytesReader n ((d, err) # rs) =
     (if length d \<le> n then (d, err) # (if err = None then maxBytesReader (n - length d) rs else [])
      else [(take n d, Some MaxBytesErr)])"

section \<open>handleClientHTTP\<close>

definition build_ReqStart :: "Request \<Rightarrow> string \<Rightarrow> ReqStart" where
  "build_ReqStart r suffixPath =
     (let h0 = stripForwardingIPHeaders (rHeader r);
          (h1, q) = applyQueryBearerAuth h0 (rRawQuery r);
          tk0 = TrailerKeysFromHeader h1;
          tk = (if tk0 = [] \<and> rTrailer r \<noteq> [] then HeaderKeys (rTrailer r) else tk0)
      in \<lparr>Method = rMethod r, Path = suffixPath, RawQuery = q, Host = rHost r,
          Header = StripConnectionHeaders h1, TrailerKeys = tk, IsWebSocket = False\<rparr>)"

datatype body_result = BodyDone | BodyStopped | BodyWaiting

fun forward_body :: "http_env \<Rightarrow> reads \<Rightarrow> hstate \<Rightarrow> body_result \<times> hstate" where
  "forward_body e [] st = (BodyWaiting, st)"
| "forward_body e ((d, err) # rs) st =
     (let (ok, st1) = (if d \<noteq> [] then h_send e st TReqData d else (True, st))
      in if \<not> ok then (BodyStopped, h_error st1 ''agent send failed'' 502)
         else case err of
           None \<Rightarrow> forward_body e rs st1
         | Some MaxBytesErr \<Rightarrow>
             (BodyStopped,
              h_error (snd (h_send e st1 TRst (bytes_of ''body too large''))) ''request body too large'' 413)
         | Some _ \<Rightarrow> (BodyDone, st1))"

text \<open>The response start: interim responses are written as they come.\<close>

fun await_start :: "http_env \<Rightarrow> (ioerr + Frame) list \<Rightarrow> hstate \<Rightarrow> (outcome + (ResStart \<times> (ioerr + Frame) list)) \<times> hstate" where
  "await_start e [] st = (Inl Waiting, st)"
| "await_start e (res # rest) st =
     (case res of
        Inl _ \<Rightarrow> (Inl Returned, h_error (snd (h_send e st TRst (bytes_of ''gateway timeout''))) ''agent no response'' 502)
      | Inr f \<Rightarrow>
          if Type f \<noteq> TResStart
          then (Inl Returned, h_error (snd (h_send e st TRst (bytes_of ''gateway timeout''))) ''agent no response'' 502)
          else
            let rs = fst (unmarshal_ResStart (Payload f))
            in if Interim rs \<or> Status rs > 0 \<and> Status rs < 200 then
                 (let st1 = st\<lparr>hW := writeInterim (hW st) rs\<rparr>
                  in if wpanic (hW st1) then (Inl Panicked, st1) else await_start e rest st1)
               else (Inr (rs, rest), st))"

definition h_writeTrailers :: "header \<Rightarrow> bytes \<Rightarrow> header" where
  "h_writeTrailers h payload =
     fold (\<lambda>(k, vv) h. hput h (canonicalHeaderKey k) vv) (fst (unmarshal_header payload)) h"

fun relay_response :: "http_env \<Rightarrow> (ioerr + Frame) list \<Rightarrow> hstate \<Rightarrow> outcome \<times> hstate" where
  "relay_response e [] st = (Waiting, st)"
| "relay_response e (Inl err # rest) st =
     (Returned, if err = ErrStreamTimeout then snd (h_send e st TRst (bytes_of ''stream idle timeout'')) else st)"
| "relay_response e (Inr f # rest) st =
     (if Type f = TResData then
        (let ok = heWrite e (hWrites st);
             st1 = st\<lparr>hW := lw_Write (hW st) (Payload f) ok, hWrites := Suc (hWrites st)\<rparr>
         in if \<not> ok then (Returned, snd (h_send e st1 TRst (bytes_of ''client write failed'')))
            else relay_response e rest (st1\<lparr>hW := rw_Flush (hW st1)\<rparr>))
      else if Type f = TResTrailer then
        relay_response e rest (st\<lparr>hW := (hW st)\<lparr>whdr := h_writeTrailers (whdr (hW st)) (Payload f)\<rparr>\<rparr>)
      else if Type f = TResEnd \<or> Type f = TRst then (Returned, st)
      else relay_response e rest st)"

definition begin_response :: "hstate \<Rightarrow> ResStart \<Rightarrow> hstate" where
  "begin_response st rs =
     (let h1 = CopyHeaders (whdr (hW st)) (StripConnectionHeaders (ResHeader rs));
          h2 = setTrailerKeys h1 (ResTrailerKeys rs);
          status = (if Status rs \<le> 0 then 502 else Status rs);
          w1 = lw_WriteHeader ((hW st)\<lparr>whdr := h2\<rparr>) status
      in st\<lparr>hW := (if wpanic w1 then w1 else rw_Flush w1)\<rparr>)"

text \<open>The request part: everything up to the end of the request; \<open>None\<close> when the handler goes on.\<close>

definition send_request :: "Server \<Rightarrow> Request \<Rightarrow> string \<Rightarrow> http_env \<Rightarrow> outcome option \<times> hstate" where
  "send_request s r suffixPath e =
     (let st0 = hstate_new
      in if \<not> heNew e then (Some Returned, h_error st0 ''too many concurrent streams'' 429)
         else if maxBodyBytes s > 0 \<and> rContentLength r > maxBodyBytes s \<and> rContentLength r \<noteq> -1
         then (Some Returned,
               snd (h_send e (h_error st0 ''request body too large'' 413) TRst (bytes_of ''body too large'')))
         else
           let body = (if maxBodyBytes s > 0 then maxBytesReader (nat (maxBodyBytes s)) (heBody e) else heBody e);
               (ok, st1) = h_send e st0 TReqStart (MustJSON (ReqStart_json (build_ReqStart r suffixPath)))
           in if \<not> ok then (Some Returned, h_error st1 ''agent send failed'' 502)
              else case forward_body e body st1 of
                (BodyWaiting, st2) \<Rightarrow> (Some Waiting, st2)
              | (BodyStopped, st2) \<Rightarrow> (Some Returned, st2)
              | (BodyDone, st2) \<Rightarrow>
                  let st3 = (if heTrailer e \<noteq> []
                             then snd (h_send e st2 TReqTrailer (MustJSON (header_json (heTrailer e)))) else st2)
                  in (None, snd (h_send e st3 TReqEnd [])))"

definition handleClientHTTP :: "Server \<Rightarrow> Request \<Rightarrow> string \<Rightarrow> http_env \<Rightarrow> outcome \<times> hstate" where
  "handleClientHTTP s r suffixPath e =
     (case send_request s r suffixPath e of
        (Some out, st) \<Rightarrow> (out, st)
      | (None, st) \<Rightarrow>
          (case await_start e (heRecv e) st of
             (Inl out, st1) \<Rightarrow> (out, st1)
           | (Inr (rs, rest), st1) \<Rightarrow>
               let st2 = begin_response st1 rs
               in if wpanic (hW st2) then (Panicked, st2) else relay_response e rest st2))"

text \<open>The goroutine for a cancelled request, on the connection.\<close>

definition client_canceled :: "agentConn \<Rightarrow> nat \<Rightarrow> bool \<Rightarrow> agentConn" where
  "client_canceled c r ok =
     stream_closeWithErr (snd (stream_send c r TRst (bytes_of ''client canceled'') ok)) r (Some ''client canceled'')"

section \<open>Lemmas\<close>

subsection \<open>The request\<close>

lemma h_send_ok:
  "heSend e (hSends st) \<Longrightarrow>
   h_send e st t p = (True, st\<lparr>hSends := Suc (hSends st), hSent := hSent st @ [(t, p)]\<rparr>)"
  by (simp add: h_send_def)

definition chunks :: "reads \<Rightarrow> bytes list" where
  "chunks rs = filter (\<lambda>d. d \<noteq> []) (map fst rs)"

text \<open>A body that is read to its end: all reads but the last succeed, the last reports \<open>err\<close>.\<close>

definition read_to_end :: "reads \<Rightarrow> ioerr \<Rightarrow> bool" where
  "read_to_end rs err \<longleftrightarrow> rs \<noteq> [] \<and> snd (last rs) = Some err \<and> (\<forall>x \<in> set (butlast rs). snd x = None)"

lemma read_to_end_Cons: "read_to_end ((d, er) # rs) err \<longleftrightarrow> (if rs = [] then er = Some err else er = None \<and> read_to_end rs err)"
  by (auto simp: read_to_end_def)

lemma chunks_Cons: "chunks ((d, er) # rs) = (if d = [] then chunks rs else d # chunks rs)"
  by (simp add: chunks_def)

lemma forward_body_complete:
  assumes "\<forall>i. heSend e i" and "read_to_end rs err" and "err \<noteq> MaxBytesErr"
  shows "forward_body e rs st = (BodyDone, st\<lparr>hSends := hSends st + length (chunks rs),
    hSent := hSent st @ map (Pair TReqData) (chunks rs)\<rparr>)"
  using assms(2)
proof (induction rs arbitrary: st)
  case (Cons x rs)
  obtain d er where x: "x = (d, er)" by (cases x)
  show ?case
  proof (cases "rs = []")
    case True
    with Cons.prems x have "er = Some err" by (simp add: read_to_end_Cons)
    with True x assms(1,3) show ?thesis by (cases err) (auto simp: h_send_ok chunks_Cons chunks_def)
  next
    case False
    with Cons.prems x have "er = None" "read_to_end rs err" by (simp_all add: read_to_end_Cons)
    with Cons.IH x assms(1) show ?thesis by (auto simp: h_send_ok chunks_Cons)
  qed
qed (simp add: read_to_end_def)

lemma maxBytesReader_fits:
  "length (concat (map fst rs)) \<le> n \<Longrightarrow> read_to_end rs err \<Longrightarrow> maxBytesReader n rs = rs"
proof (induction rs arbitrary: n)
  case (Cons x rs)
  obtain d er where x: "x = (d, er)" by (cases x)
  show ?case
  proof (cases "rs = []")
    case False
    with Cons.prems x have "er = None" "read_to_end rs err" by (simp_all add: read_to_end_Cons)
    with Cons x show ?thesis by simp
  qed (use Cons.prems x in auto)
qed simp

lemma concat_chunks: "concat (chunks rs) = concat (map fst rs)"
  by (induction rs) (auto simp: chunks_def)

text \<open>The request data among the frames sent.\<close>

definition request_data :: "(byte \<times> bytes) list \<Rightarrow> bytes" where
  "request_data fs = concat (map snd (filter (\<lambda>f. fst f = TReqData) fs))"

lemma request_data_append: "request_data (a @ b) = request_data a @ request_data b"
  by (simp add: request_data_def)

lemma request_data_h_send:
  "t \<noteq> TReqData \<Longrightarrow> request_data (hSent (snd (h_send e st t p))) = request_data (hSent st)"
  by (simp add: h_send_def Let_def request_data_def)

lemma hSent_h_error [simp]: "hSent (h_error st m c) = hSent st"
  by (simp add: h_error_def)

lemma not_data [simp]:
  "TRst \<noteq> TReqData" "TReqStart \<noteq> TReqData" "TReqEnd \<noteq> TReqData" "TReqTrailer \<noteq> TReqData"
  by (simp_all add: frame_types)

lemma request_data_snoc: "request_data (fs @ [(t, p)]) = request_data fs @ (if t = TReqData then p else [])"
  by (simp add: request_data_def)

lemma forward_body_prefix:
  "forward_body e rs st = (res, st') \<Longrightarrow>
   \<exists>x. prefix x (concat (map fst rs)) \<and> request_data (hSent st') = request_data (hSent st) @ x"
proof (induction e rs st rule: forward_body.induct)
  case (2 e d err rs st)
  define st1 where "st1 = (if d \<noteq> [] then snd (h_send e st TReqData d) else st)"
  define ok where "ok = (d \<noteq> [] \<longrightarrow> heSend e (hSends st))"
  have step: "(if d \<noteq> [] then h_send e st TReqData d else (True, st)) = (ok, st1)"
    by (simp add: st1_def ok_def h_send_def Let_def)
  have d1: "request_data (hSent st1) = request_data (hSent st) @ (if ok then d else [])"
    by (simp add: st1_def ok_def h_send_def Let_def request_data_snoc)
  show ?case
  proof (cases "ok \<and> err = None")
    case True
    then have "forward_body e rs st1 = (res, st')" using "2.prems" by (simp add: step)
    from "2.IH" [OF step [symmetric] refl _ _ this] True obtain x where
      "prefix x (concat (map fst rs))" "request_data (hSent st') = request_data (hSent st1) @ x" by auto
    with d1 True show ?thesis by (intro exI [of _ "d @ x"]) simp
  next
    case False
    then have "request_data (hSent st') = request_data (hSent st1)"
      using "2.prems" by (auto simp: step request_data_h_send split: if_splits option.splits ioerr.splits)
    with d1 show ?thesis by (intro exI [of _ "if ok then d else []"]) simp
  qed
qed simp

lemma maxBytesReader_bound: "length (concat (map fst (maxBytesReader n rs))) \<le> n"
proof (induction n rs rule: maxBytesReader.induct)
  case (2 n d err rs)
  then show ?case by (cases "length d \<le> n"; cases err) auto
qed simp

text \<open>The parts of the handler do not look at the list of results themselves.\<close>

lemma h_send_env [simp]: "h_send (e\<lparr>heRecv := x\<rparr>) = h_send e"
  by (intro ext) (simp add: h_send_def)

lemma forward_body_env [simp]: "forward_body (e\<lparr>heRecv := x\<rparr>) rs st = forward_body e rs st"
proof (induction e rs st rule: forward_body.induct)
  case (2 e d err rs st)
  then show ?case by (simp split: prod.split option.split ioerr.split)
qed simp

lemma send_request_env: "send_request s r p (e\<lparr>heRecv := x\<rparr>) = send_request s r p e"
  by (simp add: send_request_def Let_def cong: prod.case_cong_weak split: prod.splits body_result.splits)

lemma await_start_env: "await_start (e\<lparr>heRecv := x\<rparr>) rs st = await_start e rs st"
  by (induction e rs st rule: await_start.induct) (auto simp: Let_def split: sum.splits)

lemma relay_response_env: "relay_response (e\<lparr>heRecv := x\<rparr>) rs st = relay_response e rs st"
  by (induction e rs st rule: relay_response.induct) (auto simp: Let_def)

text \<open>The later parts of the handler send no request data.\<close>

lemma await_start_data: "await_start e rs st = (out, st') \<Longrightarrow> request_data (hSent st') = request_data (hSent st)"
proof (induction e rs st rule: await_start.induct)
  case (2 e res rest st)
  then show ?case
    by (auto simp: Let_def request_data_h_send split: sum.splits if_splits)
qed simp

lemma relay_response_data: "relay_response e rs st = (out, st') \<Longrightarrow> request_data (hSent st') = request_data (hSent st)"
  by (induction e rs st rule: relay_response.induct)
    (auto simp: Let_def request_data_h_send split: if_splits)

lemma send_request_data:
  assumes "maxBodyBytes s > 0"
  shows "int (length (request_data (hSent (snd (send_request s r p e))))) \<le> maxBodyBytes s"
proof -
  let ?body = "maxBytesReader (nat (maxBodyBytes s)) (heBody e)"
  obtain ok st1 where s1: "h_send e hstate_new TReqStart (MustJSON (ReqStart_json (build_ReqStart r p))) = (ok, st1)"
    by fastforce
  have nd: "request_data (hSent hstate_new) = []" by (simp add: hstate_new_def request_data_def)
  have d1: "request_data (hSent st1) = []"
    using s1 nd request_data_h_send [of TReqStart e hstate_new "MustJSON (ReqStart_json (build_ReqStart r p))"] by simp
  obtain res st2 where s2: "forward_body e ?body st1 = (res, st2)" by fastforce
  from forward_body_prefix [OF s2] obtain x where x: "prefix x (concat (map fst ?body))"
    "request_data (hSent st2) = x" using d1 by auto
  have "length x \<le> nat (maxBodyBytes s)"
    using prefix_length_le [OF x(1)] maxBytesReader_bound [of "nat (maxBodyBytes s)" "heBody e"] by linarith
  then have "int (length (request_data (hSent st2))) \<le> maxBodyBytes s" using x(2) assms by simp
  then show ?thesis
    using assms d1 nd
    by (auto simp: send_request_def Let_def s1 s2 request_data_h_send split: body_result.splits)
qed

subsection \<open>The response\<close>

lemma forward_body_hW: "forward_body e rs st = (BodyDone, st') \<Longrightarrow> hW st' = hW st \<and> hWrites st' = hWrites st"
  by (induction e rs st rule: forward_body.induct)
    (auto simp: h_send_def Let_def split: if_splits option.splits ioerr.splits)

lemma send_request_hW:
  assumes "send_request s r p e = (None, st)"
  shows "hW st = lw_new \<and> hWrites st = 0"
  using assms
  by (auto simp: send_request_def Let_def h_send_def hstate_new_def dest!: forward_body_hW
      split: if_splits body_result.splits prod.splits)

text \<open>A header key that is passed on: canonical, neither hop-by-hop nor named by \<^verbatim>\<open>Connection\<close>.\<close>

definition passed :: "header \<Rightarrow> string \<Rightarrow> bool" where
  "passed h k \<longleftrightarrow>
     k \<notin> canonicalHeaderKey ` set hopByHopHeaderKeys \<and> \<not> IsHopByHopHeaderKey k \<and>
     k \<notin> set (header_tokens (hvalues h ''Connection''))"

definition canonical_header :: "header \<Rightarrow> bool" where
  "canonical_header h \<longleftrightarrow> header_ok h \<and> (\<forall>k \<in> fst ` set h. canonicalHeaderKey k = k)"

lemma keys_Strip: "fst ` set (StripConnectionHeaders h) \<subseteq> fst ` set h"
  by (auto simp: dom_map_of_conv_image_fst [symmetric] map_of_StripConnectionHeaders dom_def split: if_splits)

lemma hvalues_sort_header: "hvalues (sort_header h) k = hvalues h k"
  by (simp add: hvalues_def hlookup_sort_header)

lemma hlookup_passed:
  assumes "canonical_header h" and "passed h k"
  shows "hlookup (CopyHeaders dst (StripConnectionHeaders (sort_header h))) k = hlookup dst k @ hlookup h k"
proof -
  let ?h = "sort_header h"
  have ok: "header_ok (StripConnectionHeaders ?h)"
    using assms(1) by (simp add: canonical_header_def header_ok_sort_header)
  have can: "\<forall>k' \<in> fst ` set (StripConnectionHeaders ?h). canonicalHeaderKey k' = k'"
  proof
    fix k' assume "k' \<in> fst ` set (StripConnectionHeaders ?h)"
    then have "k' \<in> fst ` set h" using keys_Strip [of ?h] keys_sort_header [of h] by blast
    then show "canonicalHeaderKey k' = k'" using assms(1) by (auto simp: canonical_header_def)
  qed
  have "hlookup (StripConnectionHeaders ?h) k = hlookup h k"
    using assms(2) hlookup_sort_header [of h k]
    by (simp add: hlookup_def [of "StripConnectionHeaders ?h"] map_of_StripConnectionHeaders passed_def
        hvalues_sort_header) (simp add: hlookup_def)
  then show ?thesis
    using assms(2) plain_copy.copied_canonical [OF ok can, of k]
    by (simp add: plain_copy.hlookup_copy passed_def)
qed

lemma hlookup_setTrailerKeys:
  assumes "k \<noteq> ''Trailer''"
  shows "hlookup (setTrailerKeys h keys) k = hlookup h k"
proof -
  have "canonicalHeaderKey ''Trailer'' = ''Trailer''" by code_simp
  with assms show ?thesis by (simp add: setTrailerKeys_def Let_def hlookup_hset)
qed

definition start_frame :: "u32 \<Rightarrow> ResStart \<Rightarrow> Frame" where
  "start_frame i rs = \<lparr>Type = TResStart, Stream = i, Payload = MustJSON (ResStart_json rs)\<rparr>"

lemma await_start_final:
  assumes "ResStart_ok rs" and "\<not> Interim rs" and "Status rs \<le> 0 \<or> 200 \<le> Status rs"
  shows "await_start e (Inr (start_frame i rs) # rest) st = (Inr (rs\<lparr>ResHeader := sort_header (ResHeader rs)\<rparr>, rest), st)"
  using assms by (auto simp: start_frame_def unmarshal_ResStart_MustJSON)

lemma await_start_interim:
  assumes "ResStart_ok rs" and "100 \<le> Status rs" and "Status rs < 200" and "Status rs \<noteq> 101"
    and "wstatus (hW st) = None" and "\<not> wpanic (hW st)"
    and "h = CopyHeaders (whdr (hW st)) (StripConnectionHeaders (sort_header (ResHeader rs)))"
  shows "await_start e (Inr (start_frame i rs) # rest) st = await_start e rest
    (st\<lparr>hW := (hW st)\<lparr>lstatus := Status rs, whdr := h, wout := wout (hW st) @ [WInterim (Status rs) h]\<rparr>\<rparr>)"
proof -
  have "writeInterim (hW st) (rs\<lparr>ResHeader := sort_header (ResHeader rs)\<rparr>) =
      (hW st)\<lparr>lstatus := Status rs, whdr := h, wout := wout (hW st) @ [WInterim (Status rs) h]\<rparr>"
    using assms(2-) by (simp add: writeInterim_def lw_WriteHeader_def rw_WriteHeader_def)
  then show ?thesis
    using assms(1-3,6) by (simp add: start_frame_def unmarshal_ResStart_MustJSON)
qed

lemma begin_response_status:
  assumes "wstatus (hW st) = None" and "\<not> wpanic (hW st)" and "200 \<le> Status rs" and "Status rs \<le> 999"
  shows "begin_response st rs = st\<lparr>hW := (hW st)
    \<lparr>whdr := setTrailerKeys (CopyHeaders (whdr (hW st)) (StripConnectionHeaders (ResHeader rs))) (ResTrailerKeys rs),
     wstatus := Some (Status rs), lstatus := Status rs,
     wout := wout (hW st) @ [WStatus (Status rs) (setTrailerKeys (CopyHeaders (whdr (hW st))
       (StripConnectionHeaders (ResHeader rs))) (ResTrailerKeys rs)), WFlush]\<rparr>\<rparr>"
  using assms by (simp add: begin_response_def Let_def lw_WriteHeader_def rw_WriteHeader_def rw_Flush_def)

lemma relay_response_data_frames:
  assumes "\<forall>i. heWrite e i" and "\<forall>f \<in> set fs. Type f = TResData"
    and "wstatus (hW st) \<noteq> None" and "lstatus (hW st) \<noteq> 0"
  shows "\<exists>es. relay_response e (map Inr fs @ rest) st =
      relay_response e rest (st\<lparr>hWrites := hWrites st + length fs,
        hW := (hW st)\<lparr>lbytes := lbytes (hW st) + int (length (body_of es)), wout := wout (hW st) @ es\<rparr>\<rparr>) \<and>
    body_of es = concat (map Payload fs)"
  using assms(2-)
proof (induction fs arbitrary: st)
  case Nil
  then show ?case by (intro exI [of _ "[]"]) simp
next
  case (Cons f fs)
  define st1 where "st1 = st\<lparr>hWrites := Suc (hWrites st), hW := (hW st)
    \<lparr>lbytes := lbytes (hW st) + int (length (Payload f)), wout := wout (hW st) @ [WBody (Payload f), WFlush]\<rparr>\<rparr>"
  obtain code where "wstatus (hW st) = Some code" using Cons.prems(2) by blast
  then have "relay_response e (map Inr (f # fs) @ rest) st = relay_response e (map Inr fs @ rest) st1"
    using Cons.prems assms(1)
    by (simp add: st1_def Let_def lw_Write_def rw_Write_def rw_Flush_def)
  moreover obtain es where "relay_response e (map Inr fs @ rest) st1 =
      relay_response e rest (st1\<lparr>hWrites := hWrites st1 + length fs,
        hW := (hW st1)\<lparr>lbytes := lbytes (hW st1) + int (length (body_of es)), wout := wout (hW st1) @ es\<rparr>\<rparr>)"
    "body_of es = concat (map Payload fs)"
    using Cons.IH [of st1] Cons.prems by (auto simp: st1_def)
  ultimately show ?case
    by (intro exI [of _ "[WBody (Payload f), WFlush] @ es"]) (simp add: st1_def ac_simps)
qed

lemma relay_response_extends:
  "wstatus (hW st) \<noteq> None \<Longrightarrow> \<exists>es. wout (hW (snd (relay_response e rs st))) = wout (hW st) @ es"
proof (induction e rs st rule: relay_response.induct)
  case (3 e f rest st)
  let ?w = "lw_Write (hW st) (Payload f) (heWrite e (hWrites st))"
  have w: "wstatus ?w = wstatus (hW st)" "\<exists>es. wout ?w = wout (hW st) @ es"
    using 3(4) by (auto simp: lw_Write_def rw_Write_def Let_def)
  moreover have "wstatus (rw_Flush ?w) = wstatus ?w" "wout (rw_Flush ?w) = wout ?w @ [WFlush]"
    using 3(4) w(1) by (auto simp: rw_Flush_def Let_def)
  ultimately have flush: "wstatus (rw_Flush ?w) \<noteq> None" "\<exists>es. wout (rw_Flush ?w) = wout (hW st) @ es"
    using 3(4) by auto
  show ?case
  proof (cases "Type f = TResData \<and> heWrite e (hWrites st)")
    case True
    define st' where "st' = st\<lparr>hWrites := Suc (hWrites st), hW := rw_Flush ?w\<rparr>"
    have "relay_response e (Inr f # rest) st = relay_response e rest st'"
      using True by (simp add: st'_def Let_def)
    moreover have "\<exists>es. wout (hW (snd (relay_response e rest st'))) = wout (hW st') @ es"
      using 3(1) True flush(1) by (simp add: st'_def Let_def)
    moreover have "\<exists>es. wout (hW st') = wout (hW st) @ es" using flush(2) by (simp add: st'_def)
    ultimately show ?thesis by auto
  next
    case False
    then show ?thesis using 3(2-4) w(2) by (auto simp: Let_def h_send_def)
  qed
qed (auto simp: h_send_def Let_def)

text \<open>A small request, environment and server for the examples.\<close>

definition demo_request :: Request where
  "demo_request = \<lparr>rMethod = ''POST'', rPath = ''/u1/x'', rRawQuery = [], rHost = ''h'', rHeader = [],
     rTrailer = [], rContentLength = -1\<rparr>"

definition demo_env :: "reads \<Rightarrow> (ioerr + Frame) list \<Rightarrow> http_env" where
  "demo_env body recvs = \<lparr>heNew = True, heSend = (\<lambda>_. True), heBody = body, heTrailer = [], heRecv = recvs,
     heWrite = (\<lambda>_. True)\<rparr>"

definition demo_server :: "int \<Rightarrow> Server" where
  "demo_server limit = (NewServerFromEnv (\<lambda>_. []))\<lparr>maxBodyBytes := limit\<rparr>"

section \<open>Properties\<close>

text \<open>A request whose body is read to its end within the limit, on a stream that stays open, reaches the
  agent as exactly these frames in this order: one request start, the chunks of the body, the trailers if
  there are any, and one request end.  The chunks put together are the body.\<close>

lemma http_request_forwarded:
  assumes "heNew e" and "\<forall>i. heSend e i" and "read_to_end (heBody e) err" and "err \<noteq> MaxBytesErr"
    and "maxBodyBytes s > 0 \<longrightarrow>
      int (length (concat (map fst (heBody e)))) \<le> maxBodyBytes s \<and> rContentLength r \<le> maxBodyBytes s"
  shows "\<exists>st cs. send_request s r p e = (None, st) \<and>
    hSent st = [(TReqStart, MustJSON (ReqStart_json (build_ReqStart r p)))] @ map (Pair TReqData) cs @
      (if heTrailer e \<noteq> [] then [(TReqTrailer, MustJSON (header_json (heTrailer e)))] else []) @ [(TReqEnd, [])] \<and>
    concat cs = concat (map fst (heBody e)) \<and> wout (hW st) = []"
proof -
  let ?b = "if maxBodyBytes s > 0 then maxBytesReader (nat (maxBodyBytes s)) (heBody e) else heBody e"
  have b: "?b = heBody e"
    using assms(5) maxBytesReader_fits [OF _ assms(3), of "nat (maxBodyBytes s)"] by (auto simp: le_nat_iff)
  have "\<not> (maxBodyBytes s > 0 \<and> rContentLength r > maxBodyBytes s \<and> rContentLength r \<noteq> -1)"
    using assms(5) by auto
  then have "fst (send_request s r p e) = None \<and> hSent (snd (send_request s r p e)) =
      [(TReqStart, MustJSON (ReqStart_json (build_ReqStart r p)))] @ map (Pair TReqData) (chunks (heBody e)) @
      (if heTrailer e \<noteq> [] then [(TReqTrailer, MustJSON (header_json (heTrailer e)))] else []) @ [(TReqEnd, [])] \<and>
      wout (hW (snd (send_request s r p e))) = []"
    unfolding send_request_def Let_def b using assms
    by (simp add: h_send_ok forward_body_complete hstate_new_def lw_new_def)
  then show ?thesis
    by (intro exI [of _ "snd (send_request s r p e)"] exI [of _ "chunks (heBody e)"])
      (simp add: prod_eq_iff concat_chunks)
qed

text \<open>C23. Whatever the client sends and however the connection behaves, the gateway forwards at most the
  configured number of body bytes to the agent.\<close>

theorem http_body_limit:
  assumes "maxBodyBytes s > 0"
  shows "int (length (request_data (hSent (snd (handleClientHTTP s r p e))))) \<le> maxBodyBytes s"
proof -
  obtain o1 st where s: "send_request s r p e = (o1, st)" by fastforce
  have "request_data (hSent (snd (handleClientHTTP s r p e))) = request_data (hSent st)"
  proof -
    obtain o2 st1 where a: "await_start e (heRecv e) st = (o2, st1)" by fastforce
    have b: "request_data (hSent (begin_response st1 rs)) = request_data (hSent st1)" for rs
      by (simp add: begin_response_def Let_def)
    show ?thesis
      using await_start_data [OF a] b relay_response_data [OF prod.collapse [symmetric]]
      by (auto simp: handleClientHTTP_def s a Let_def split: option.splits sum.splits)
  qed
  then show ?thesis using send_request_data [OF assms, of r p e] s by simp
qed

theorem http_body_limit_witness:
  "int (length (request_data (hSent (snd (handleClientHTTP (demo_server 2) demo_request ''/x''
     (demo_env [([1, 2, 3], None)] [])))))) \<le> 2"
  using http_body_limit [of "demo_server 2" demo_request "''/x''" "demo_env [([1, 2, 3], None)] []"]
  by (simp add: demo_server_def)

text \<open>A response of the agent reaches the client: the status is the agent's, the header has the agent's
  values for every key that is passed on, the body is the agent's data frames put together, the access log
  records that status and that many bytes, and no further frame is sent to the agent.\<close>

lemma http_response_relayed:
  assumes "send_request s r p e = (None, st)"
    and "heRecv e = Inr (start_frame i rs) # map Inr fs @ [Inr \<lparr>Type = TResEnd, Stream = i, Payload = []\<rparr>]"
    and "ResStart_ok rs" and "\<not> Interim rs" and "200 \<le> Status rs" and "Status rs \<le> 999"
    and "canonical_header (ResHeader rs)" and "\<forall>f \<in> set fs. Type f = TResData" and "\<forall>i. heWrite e i"
  shows "\<exists>st' h es. handleClientHTTP s r p e = (Returned, st') \<and> wout (hW st') = WStatus (Status rs) h # es \<and>
    body_of es = concat (map Payload fs) \<and> statusOr (hW st') 0 = Status rs \<and>
    lbytes (hW st') = int (length (concat (map Payload fs))) \<and> hSent st' = hSent st \<and>
    (\<forall>k. passed (ResHeader rs) k \<and> k \<noteq> ''Trailer'' \<longrightarrow> hlookup h k = hlookup (ResHeader rs) k)"
proof -
  let ?rs = "rs\<lparr>ResHeader := sort_header (ResHeader rs)\<rparr>"
  let ?rest = "map Inr fs @ [Inr \<lparr>Type = TResEnd, Stream = i, Payload = []\<rparr>]"
  let ?h = "setTrailerKeys (CopyHeaders [] (StripConnectionHeaders (sort_header (ResHeader rs)))) (ResTrailerKeys rs)"
  have w: "hW st = lw_new" using send_request_hW [OF assms(1)] by simp
  define st2 where "st2 = st\<lparr>hW := lw_new\<lparr>whdr := ?h, wstatus := Some (Status rs), lstatus := Status rs,
      wout := [WStatus (Status rs) ?h, WFlush]\<rparr>\<rparr>"
  have st2: "begin_response st ?rs = st2"
    using assms(5,6) unfolding st2_def by (subst begin_response_status) (simp_all add: w lw_new_def)
  have w2: "wstatus (hW st2) \<noteq> None" "lstatus (hW st2) \<noteq> 0" "\<not> wpanic (hW st2)"
    using assms(5) by (simp_all add: st2_def lw_new_def)
  obtain es where es: "relay_response e ?rest st2 =
      relay_response e [Inr \<lparr>Type = TResEnd, Stream = i, Payload = []\<rparr>] (st2\<lparr>hWrites := hWrites st2 + length fs,
        hW := (hW st2)\<lparr>lbytes := lbytes (hW st2) + int (length (body_of es)), wout := wout (hW st2) @ es\<rparr>\<rparr>)"
    "body_of es = concat (map Payload fs)"
    using relay_response_data_frames [OF assms(9,8) w2(1,2)] by blast
  have types: "TResEnd \<noteq> TResData" "TResEnd \<noteq> TResTrailer" by (simp_all add: frame_types)
  have a: "await_start e (heRecv e) st = (Inr (?rs, ?rest), st)"
    unfolding assms(2) using assms(3-5) by (intro await_start_final) auto
  have h: "\<forall>k. passed (ResHeader rs) k \<and> k \<noteq> ''Trailer'' \<longrightarrow> hlookup ?h k = hlookup (ResHeader rs) k"
    using hlookup_passed [OF assms(7), of _ "[]"] by (simp add: hlookup_setTrailerKeys) (simp add: hlookup_def)
  show ?thesis
    using assms(5) h es w2(3) types unfolding handleClientHTTP_def assms(1) prod.case option.case a sum.case Let_def st2
    by (simp add: st2_def lw_new_def statusOr_def)
qed

text \<open>Headers of an interim response stay in the header map: the final response repeats them, in front of
  the values of the same header in the final response.\<close>

theorem http_interim_headers_repeated:
  assumes "send_request s r p e = (None, st)"
    and "heRecv e = Inr (start_frame i rs1) # Inr (start_frame i rs2) # rest"
    and "ResStart_ok rs1" and "100 \<le> Status rs1" and "Status rs1 < 200" and "Status rs1 \<noteq> 101"
    and "ResStart_ok rs2" and "\<not> Interim rs2" and "200 \<le> Status rs2" and "Status rs2 \<le> 999"
    and "canonical_header (ResHeader rs1)" and "canonical_header (ResHeader rs2)"
    and "passed (ResHeader rs1) k" and "passed (ResHeader rs2) k" and "k \<noteq> ''Trailer''"
  shows "\<exists>h1 h2 es. wout (hW (snd (handleClientHTTP s r p e))) =
      WInterim (Status rs1) h1 # WStatus (Status rs2) h2 # WFlush # es \<and>
    hlookup h1 k = hlookup (ResHeader rs1) k \<and>
    hlookup h2 k = hlookup (ResHeader rs1) k @ hlookup (ResHeader rs2) k"
proof -
  let ?rs2 = "rs2\<lparr>ResHeader := sort_header (ResHeader rs2)\<rparr>"
  let ?h1 = "CopyHeaders [] (StripConnectionHeaders (sort_header (ResHeader rs1)))"
  let ?h2 = "setTrailerKeys (CopyHeaders ?h1 (StripConnectionHeaders (sort_header (ResHeader rs2)))) (ResTrailerKeys rs2)"
  have w: "hW st = lw_new" using send_request_hW [OF assms(1)] by simp
  define st1 where "st1 = st\<lparr>hW := lw_new\<lparr>lstatus := Status rs1, whdr := ?h1, wout := [WInterim (Status rs1) ?h1]\<rparr>\<rparr>"
  have step: "await_start e (heRecv e) st = await_start e (Inr (start_frame i rs2) # rest) st1"
    unfolding assms(2) st1_def
    by (subst await_start_interim [OF assms(3-6), of _ ?h1]) (simp_all add: w lw_new_def)
  have a: "await_start e (heRecv e) st = (Inr (?rs2, rest), st1)"
    unfolding step using assms(7-9) by (intro await_start_final) auto
  define st2 where "st2 = begin_response st1 ?rs2"
  have st2: "wout (hW st2) = [WInterim (Status rs1) ?h1, WStatus (Status rs2) ?h2, WFlush]" "\<not> wpanic (hW st2)"
    "wstatus (hW st2) \<noteq> None"
    unfolding st2_def using assms(9,10)
    by (subst begin_response_status; simp add: st1_def lw_new_def)+
  have l: "hlookup ?h1 k = hlookup (ResHeader rs1) k"
    "hlookup ?h2 k = hlookup (ResHeader rs1) k @ hlookup (ResHeader rs2) k"
    using hlookup_passed [OF assms(11,13), of "[]"] hlookup_passed [OF assms(12,14), of ?h1] assms(15)
    by (simp_all add: hlookup_setTrailerKeys hlookup_def [of "[]"])
  obtain es where "wout (hW (snd (relay_response e rest st2))) = wout (hW st2) @ es"
    using relay_response_extends [OF st2(3), of e rest] by blast
  then have "wout (hW (snd (handleClientHTTP s r p e))) =
      WInterim (Status rs1) ?h1 # WStatus (Status rs2) ?h2 # WFlush # es"
    using st2 unfolding handleClientHTTP_def assms(1) prod.case option.case a sum.case Let_def st2_def [symmetric]
    by simp
  with l show ?thesis by blast
qed

text \<open>A final status that the agent reports above 999 makes the response writer panic: the client gets no
  response.\<close>

theorem http_bad_status_panics:
  assumes "send_request s r p e = (None, st)" and "heRecv e = Inr (start_frame i rs) # rest"
    and "ResStart_ok rs" and "\<not> Interim rs" and "Status rs > 999"
  shows "\<exists>st'. handleClientHTTP s r p e = (Panicked, st') \<and> wout (hW st') = []"
proof -
  have w: "hW st = lw_new" using send_request_hW [OF assms(1)] by simp
  have a: "await_start e (heRecv e) st = (Inr (rs\<lparr>ResHeader := sort_header (ResHeader rs)\<rparr>, rest), st)"
    unfolding assms(2) using assms(3-5) by (intro await_start_final) auto
  show ?thesis
    using assms(5) unfolding handleClientHTTP_def assms(1) prod.case option.case a sum.case Let_def
    by (simp add: begin_response_def Let_def lw_WriteHeader_def rw_WriteHeader_def w lw_new_def)
qed

theorem http_bad_status_panics_witness:
  "\<exists>st'. handleClientHTTP (demo_server 8) demo_request ''/x'' (demo_env [([], Some EOF)]
      [Inr (start_frame 1 \<lparr>Status = 1000, ResHeader = [], ResTrailerKeys = [], Interim = False\<rparr>)]) = (Panicked, st')"
proof -
  let ?rs = "\<lparr>Status = 1000, ResHeader = [], ResTrailerKeys = [], Interim = False\<rparr>"
  let ?e = "demo_env [([], Some EOF)] [Inr (start_frame 1 ?rs)]"
  have "\<exists>st. send_request (demo_server 8) demo_request ''/x'' ?e = (None, st)"
    by (simp add: send_request_def demo_server_def demo_request_def demo_env_def hstate_new_def h_send_def)
  then obtain st where st: "send_request (demo_server 8) demo_request ''/x'' ?e = (None, st)" ..
  have "ResStart_ok ?rs" by code_simp
  with http_bad_status_panics [OF st, of 1 ?rs "[]"] show ?thesis by (auto simp: demo_env_def)
qed

text \<open>C24. A reset looks like the end of the response.  Whatever came before, the handler treats a reset frame exactly
  as it treats the regular end: the client gets the same response, so a response that the agent had to abort
  half way is delivered as if it were complete.
\<close>

theorem http_reset_looks_complete:
  "handleClientHTTP s r suffixPath (e\<lparr>heRecv := fs @ [Inr \<lparr>Type = TRst, Stream = i, Payload = reason\<rparr>]\<rparr>) =
   handleClientHTTP s r suffixPath (e\<lparr>heRecv := fs @ [Inr \<lparr>Type = TResEnd, Stream = i, Payload = []\<rparr>]\<rparr>)"
proof -
  let ?rst = "Inr \<lparr>Type = TRst, Stream = i, Payload = reason\<rparr>"
  let ?fin = "Inr \<lparr>Type = TResEnd, Stream = i, Payload = []\<rparr>"
  note env = await_start_env relay_response_env send_request_env
  have relay: "relay_response e (fs @ [?rst]) st = relay_response e (fs @ [?fin]) st" for fs st
    by (induction e fs st rule: relay_response.induct) (auto simp: Let_def frame_types)
  have await: "(\<exists>out st'. await_start e (fs @ [?rst]) st = (Inl out, st') \<and> await_start e (fs @ [?fin]) st = (Inl out, st')) \<or>
      (\<exists>rs rest st'. await_start e (fs @ [?rst]) st = (Inr (rs, rest @ [?rst]), st') \<and>
                      await_start e (fs @ [?fin]) st = (Inr (rs, rest @ [?fin]), st'))" for fs st
  proof (induction e fs st rule: await_start.induct)
    case (2 e res rest st)
    then show ?case by (cases res) (auto simp: Let_def)
  qed (simp add: frame_types)
  obtain out st where "send_request s r suffixPath e = (out, st)" by fastforce
  then show ?thesis
    using await [of fs st] relay by (cases out) (auto simp: handleClientHTTP_def env Let_def)
qed

end
