(* ===== verification/Go_Crypto.thy ===== *)
theory Go_Crypto
  imports Prelude
begin

text \<open>
  \<^verbatim>\<open>crypto/sha1\<close> and \<^verbatim>\<open>encoding/base64\<close>, which the WebSocket handshake needs: the SHA-1 digest of a
  byte string (FIPS 180) and the standard base64 encoding with padding.
\<close>

section \<open>SHA-1\<close>

definition rotl32 :: "nat \<Rightarrow> u32 \<Rightarrow> u32" where
  "rotl32 n w = push_bit n w OR drop_bit (32 - n) w"

definition put_u64 :: "u64 \<Rightarrow> bytes" where
  "put_u64 w = put_u32 (ucast (drop_bit 32 w)) @ put_u32 (ucast w)"

text \<open>The padded message: a one bit, zeros up to 8 bytes below a block, the length in bits.\<close>

definition sha1_pad :: "bytes \<Rightarrow> bytes" where
  "sha1_pad m =
     m @ [0x80] @ replicate ((119 - length m mod 64) mod 64) 0 @ put_u64 (of_nat (8 * length m))"

fun words_of :: "bytes \<Rightarrow> u32 list" where
  "words_of (a # b # c # d # r) = get_u32 [a, b, c, d] # words_of r"
| "words_of _ = []"

text \<open>The message schedule, extended from the 16 words of a block, newest word first.\<close>

fun sha1_schedule :: "nat \<Rightarrow> u32 list \<Rightarrow> u32 list" where
  "sha1_schedule 0 ws = rev ws"
| "sha1_schedule (Suc n) ws =
     sha1_schedule n (rotl32 1 (ws ! 2 XOR ws ! 7 XOR ws ! 13 XOR ws ! 15) # ws)"

type_synonym sha1_state = "u32 \<times> u32 \<times> u32 \<times> u32 \<times> u32"

definition sha1_f :: "nat \<Rightarrow> u32 \<Rightarrow> u32 \<Rightarrow> u32 \<Rightarrow> u32" where
  "sha1_f t b c d =
     (if t < 20 then (b AND c) OR (NOT b AND d)
      else if t < 40 then b XOR c XOR d
      else if t < 60 then (b AND c) OR (b AND d) OR (c AND d)
      else b XOR c XOR d)"

definition sha1_k :: "nat \<Rightarrow> u32" where
  "sha1_k t =
     (if t < 20 then 0x5A827999 else if t < 40 then 0x6ED9EBA1
      else if t < 60 then 0x8F1BBCDC else 0xCA62C1D6)"

fun sha1_rounds :: "nat \<Rightarrow> u32 list \<Rightarrow> sha1_state \<Rightarrow> sha1_state" where
  "sha1_rounds t [] s = s"
| "sha1_rounds t (w # ws) (a, b, c, d, e) =
     sha1_rounds (Suc t) ws (rotl32 5 a + sha1_f t b c d + e + sha1_k t + w, a, rotl32 30 b, c, d)"

definition sha1_block :: "sha1_state \<Rightarrow> u32 list \<Rightarrow> sha1_state" where
  "sha1_block s ws =
     (case (s, sha1_rounds 0 (sha1_schedule 64 (rev ws)) s) of
        ((a, b, c, d, e), (a', b', c', d', e')) \<Rightarrow> (a + a', b + b', c + c', d + d', e + e'))"

function sha1_blocks :: "sha1_state \<Rightarrow> u32 list \<Rightarrow> sha1_state" where
  "sha1_blocks s ws = (if ws = [] then s else sha1_blocks (sha1_block s (take 16 ws)) (drop 16 ws))"
  by pat_completeness auto
termination
  by (relation "measure (\<lambda>(s, ws). length ws)") auto

declare sha1_blocks.simps [simp del]

definition sha1_init :: sha1_state where
  "sha1_init = (0x67452301, 0xEFCDAB89, 0x98BADCFE, 0x10325476, 0xC3D2E1F0)"

definition sha1 :: "bytes \<Rightarrow> bytes" where
  "sha1 m =
     (case sha1_blocks sha1_init (words_of (sha1_pad m)) of
        (a, b, c, d, e) \<Rightarrow> put_u32 a @ put_u32 b @ put_u32 c @ put_u32 d @ put_u32 e)"

section \<open>Base64\<close>

definition base64_char :: "nat \<Rightarrow> char" where
  "base64_char n =
     ''ABCDEFGHIJKLMNOPQRSTUVWXYZabcdefghijklmnopqrstuvwxyz0123456789+/'' ! n"

fun base64 :: "bytes \<Rightarrow> string" where
  "base64 [] = []"
| "base64 [a] =
     (let n = unat a
      in [base64_char (n div 4), base64_char (n mod 4 * 16), CHR ''='', CHR ''=''])"
| "base64 [a, b] =
     (let n = unat a; m = unat b
      in [base64_char (n div 4), base64_char (n mod 4 * 16 + m div 16), base64_char (m mod 16 * 4), CHR ''=''])"
| "base64 (a # b # c # r) =
     (let n = unat a; m = unat b; l = unat c
      in [base64_char (n div 4), base64_char (n mod 4 * 16 + m div 16),
          base64_char (m mod 16 * 4 + l div 64), base64_char (l mod 64)] @ base64 r)"

section \<open>Lemmas\<close>

lemma length_sha1: "length (sha1 m) = 20"
  by (simp add: sha1_def split: prod.splits)

lemma length_base64: "length (base64 b) = 4 * ((length b + 2) div 3)"
proof (induction b rule: base64.induct)
  case (4 a b c r)
  have "(5 + length r) div 3 = Suc (Suc (Suc (length r)) div 3)" by presburger
  with 4 show ?case by (simp add: Let_def)
qed (simp_all add: Let_def)

text \<open>The base64 alphabet and padding: printable ASCII without white space.\<close>

lemma base64_char_graphic:
  assumes "n < 64"
  shows "33 \<le> (of_char (base64_char n) :: nat) \<and> (of_char (base64_char n) :: nat) < 127"
proof -
  have "\<forall>c \<in> set ''ABCDEFGHIJKLMNOPQRSTUVWXYZabcdefghijklmnopqrstuvwxyz0123456789+/''.
      33 \<le> (of_char c :: nat) \<and> (of_char c :: nat) < 127" by simp
  from bspec [OF this nth_mem, of n] assms show ?thesis unfolding base64_char_def by simp
qed

lemma base64_indices:
  fixes a b c :: byte
  shows "unat a div 4 < 64" "unat a mod 4 * 16 < 64" "unat a mod 4 * 16 + unat b div 16 < 64"
    "unat b mod 16 * 4 < 64" "unat b mod 16 * 4 + unat c div 64 < 64" "unat c mod 64 < 64"
proof -
  have lt: "unat w < 256" for w :: byte using unsigned_less [of w] by simp
  show "unat a div 4 < 64" using lt [of a] by (simp add: div_less_iff_less_mult)
  have a: "unat a mod 4 < 4" and b: "unat b mod 16 < 16" by simp_all
  have "unat b div 16 < 16" "unat c div 64 < 4"
    using lt [of b] lt [of c] by (simp_all add: div_less_iff_less_mult)
  with a b show "unat a mod 4 * 16 < 64" "unat a mod 4 * 16 + unat b div 16 < 64"
    "unat b mod 16 * 4 < 64" "unat b mod 16 * 4 + unat c div 64 < 64" "unat c mod 64 < 64"
    by linarith+
qed

lemma base64_graphic: "c \<in> set (base64 b) \<Longrightarrow> 33 \<le> (of_char c :: nat) \<and> (of_char c :: nat) < 127"
proof (induction b rule: base64.induct)
  case (4 x y z r)
  let ?l = "[base64_char (unat x div 4), base64_char (unat x mod 4 * 16 + unat y div 16),
    base64_char (unat y mod 16 * 4 + unat z div 64), base64_char (unat z mod 64)]"
  have "c \<in> set ?l \<or> c \<in> set (base64 r)" using "4.prems" by (simp only: base64.simps Let_def set_append Un_iff)
  moreover have "33 \<le> (of_char d :: nat) \<and> (of_char d :: nat) < 127" if "d \<in> set ?l" for d
    using that by (auto simp: base64_char_graphic base64_indices)
  ultimately show ?case using "4.IH" by blast
next
  case (3 x y)
  then show ?case by (auto simp: Let_def base64_char_graphic base64_indices)
next
  case (2 x)
  then show ?case by (auto simp: Let_def base64_char_graphic base64_indices)
qed simp

end
