(* ===== verification/Gateway_Ws.thy ===== *)
theory Gateway_Ws
  imports Gateway_Http Go_Crypto
begin

text \<open>
  The WebSocket handlers of the gateway: \<^verbatim>\<open>handleClientWebSocket\<close>, \<^verbatim>\<open>handleClientWebSocketTransparent\<close>
  and \<^verbatim>\<open>handleClientWebSocketTransparentRaw\<close>.  Each opens a stream, has the agent dial its target, and
  answers the client; this part is a function of the results it meets (\<open>http_env\<close>, as for plain requests).
  Then goroutines relay in both directions.  Their shared state is a record, and each event is what one
  goroutine does between two synchronisation points; a list of events is one interleaving, and an event that
  its goroutine cannot perform is skipped.
\<close>

section \<open>Helpers\<close>

definition isFramedRelayMode :: "string \<Rightarrow> bool" where
  "isFramedRelayMode mode =
     (let value = toLower (trimSpace mode) in value = [] \<or> value = WsRelayModeFramed)"

definition isRawRelayMode :: "string \<Rightarrow> bool" where
  "isRawRelayMode mode = (let value = toLower (trimSpace mode) in value = WsRelayModeRaw)"

definition newline_or_null :: "char \<Rightarrow> bool" where
  "newline_or_null c \<longleftrightarrow> ord_of c = 13 \<or> ord_of c = 10 \<or> ord_of c = 0"

definition control_char :: "char \<Rightarrow> bool" where
  "control_char c \<longleftrightarrow> ord_of c < 0x20 \<and> ord_of c \<noteq> 9 \<or> ord_of c = 0x7F"

text \<open>
  The source ranges over the runes of the value; a rune below 0x80 is one byte, and no byte of a longer rune
  is below 0x80.
\<close>

definition sanitizeWebSocketHeaderValue :: "string \<Rightarrow> string result" where
  "sanitizeWebSocketHeaderValue raw =
     (let value = trimSpace raw
      in case filter (\<lambda>c. newline_or_null c \<or> control_char c) value of
           [] \<Rightarrow> Inr value
         | c # _ \<Rightarrow>
             if newline_or_null c then Inl ''contains forbidden newline/null''
             else Inl ''contains control character'')"

definition websocketGUID :: string where
  "websocketGUID = ''258EAFA5-E914-47DA-95CA-C5AB0DC85B11''"

definition websocketAccept :: "string \<Rightarrow> string" where
  "websocketAccept key = base64 (sha1 (bytes_of (trimSpace key @ websocketGUID)))"

definition crlf :: string where "crlf = [CHR 0x0D, CHR 0x0A]"

fun sanitize_all :: "string list \<Rightarrow> string list result" where
  "sanitize_all [] = Inr []"
| "sanitize_all (e # es) =
     (case sanitizeWebSocketHeaderValue e of
        Inl er \<Rightarrow> Inl er
      | Inr v \<Rightarrow>
          (case sanitize_all es of
             Inl er \<Rightarrow> Inl er
           | Inr vs \<Rightarrow> Inr (if v = [] then vs else v # vs)))"

text \<open>
  \<^verbatim>\<open>hijackAndWriteWebSocketSwitchingProtocols\<close>: \<open>hijacker\<close> whether the writer can be hijacked, \<open>hijacked\<close>
  whether it was, \<open>wok i\<close> the outcome of the \<open>i\<close>th write (the last one is the flush).  The result is the
  text written to the client.
\<close>

definition switching_lines :: "string \<Rightarrow> string \<Rightarrow> string list \<Rightarrow> string list" where
  "switching_lines key subprotocol extensions =
     [''HTTP/1.1 101 Switching Protocols'' @ crlf,
      ''Upgrade: websocket'' @ crlf @ ''Connection: Upgrade'' @ crlf,
      ''Sec-WebSocket-Accept: '' @ websocketAccept key @ crlf] @
     (if subprotocol \<noteq> [] then [''Sec-WebSocket-Protocol: '' @ subprotocol @ crlf] else []) @
     map (\<lambda>ext. ''Sec-WebSocket-Extensions: '' @ ext @ crlf) extensions @ [crlf]"

definition hijackAndWrite ::
  "bool \<Rightarrow> header \<Rightarrow> WsOpenOK \<Rightarrow> bool \<Rightarrow> (nat \<Rightarrow> bool) \<Rightarrow> string result" where
  "hijackAndWrite hijacker hdr openOK hijacked wok =
     (if \<not> hijacker then Inl ''response writer does not support hijacking''
      else case sanitizeWebSocketHeaderValue (Subprotocol openOK) of
        Inl _ \<Rightarrow> Inl ''invalid websocket subprotocol''
      | Inr subprotocol \<Rightarrow>
          (case sanitize_all (Extensions openOK) of
             Inl _ \<Rightarrow> Inl ''invalid websocket extensions''
           | Inr extensions \<Rightarrow>
               let key = trimSpace (hget hdr ''Sec-WebSocket-Key'')
               in if key = [] then Inl ''missing Sec-WebSocket-Key''
                  else if \<not> hijacked then Inl ''hijack failed''
                  else
                    let ls = switching_lines key subprotocol extensions
                    in if list_all wok [0 ..< Suc (length ls)] then Inr (concat ls)
                       else Inl ''write failed''))"

section \<open>Opening\<close>

definition ws_ReqStart :: "header \<Rightarrow> string \<Rightarrow> Request \<Rightarrow> string \<Rightarrow> ReqStart" where
  "ws_ReqStart h q r suffixPath =
     \<lparr>Method = rMethod r, Path = suffixPath, RawQuery = q, Host = rHost r, Header = h, TrailerKeys = [],
      IsWebSocket = True\<rparr>"

text \<open>The WebSocket handlers answer on the plain response writer.\<close>

definition w_error :: "hstate \<Rightarrow> string \<Rightarrow> int \<Rightarrow> hstate" where
  "w_error st msg code = st\<lparr>hW := http_Error (hW st) msg code\<rparr>"

definition writeAgentWSOpenErr :: "hstate \<Rightarrow> hstate" where
  "writeAgentWSOpenErr st = w_error st ''agent ws open failed'' 502"

datatype ws_open = WsRefused | WsWaiting | WsOpened WsOpenOK

definition ws_handshake :: "(string \<Rightarrow> bool) \<Rightarrow> ReqStart \<Rightarrow> http_env \<Rightarrow> ws_open \<times> hstate" where
  "ws_handshake relay_ok rs e =
     (if \<not> heNew e then (WsRefused, w_error hstate_new ''too many concurrent streams'' 429)
      else
        let (ok, st1) = h_send e hstate_new TReqStart (MustJSON (ReqStart_json rs))
        in if \<not> ok then (WsRefused, w_error st1 ''agent send failed'' 502)
           else case heRecv e of
             [] \<Rightarrow> (WsWaiting, st1)
           | Inl _ # _ \<Rightarrow>
               (WsRefused, w_error (snd (h_send e st1 TRst (bytes_of ''agent ws timeout''))) ''agent ws timeout'' 502)
           | Inr f # _ \<Rightarrow>
               if Type f = TWsOpenErr then (WsRefused, writeAgentWSOpenErr st1)
               else if Type f \<noteq> TWsOpenOK then
                 (WsRefused, w_error (snd (h_send e st1 TRst (bytes_of ''agent ws bad handshake'')))
                    ''agent ws bad handshake'' 502)
               else
                 let ok = fst (unmarshal_WsOpenOK (Payload f))
                 in if \<not> relay_ok (RelayMode ok) then
                      (WsRefused, w_error (snd (h_send e st1 TRst (bytes_of ''agent ws relay mismatch'')))
                         ''agent ws relay mismatch'' 502)
                    else (WsOpened ok, st1))"

text \<open>
  The upgrade of the client in the framed handlers; \<open>upgraded\<close> is the outcome of \<^verbatim>\<open>upgrader.Upgrade\<close>.  The
  result is the response header of the upgrade once both sides are open.
\<close>

datatype ws_result = WsFailed | WsPending | WsRelaying header | WsRawRelaying string

definition framed_upgrade :: "bool \<Rightarrow> http_env \<Rightarrow> ws_open \<times> hstate \<Rightarrow> ws_result \<times> hstate" where
  "framed_upgrade upgraded e x =
     (case x of
        (WsRefused, st) \<Rightarrow> (WsFailed, st)
      | (WsWaiting, st) \<Rightarrow> (WsPending, st)
      | (WsOpened ok, st) \<Rightarrow>
          (case (if Subprotocol ok \<noteq> [] then sanitizeWebSocketHeaderValue (Subprotocol ok) else Inr []) of
             Inl _ \<Rightarrow>
               (WsFailed, w_error (snd (h_send e st TRst (bytes_of ''agent ws bad subprotocol'')))
                  ''agent ws bad handshake'' 502)
           | Inr sp \<Rightarrow>
               if \<not> upgraded then
                 (WsFailed, snd (h_send e st TWsClose
                    (MustJSON (WsClose_json \<lparr>Code = CloseProtocolError, Reason = ''client upgrade failed''\<rparr>))))
               else (WsRelaying (if sp \<noteq> [] then hset [] ''Sec-WebSocket-Protocol'' sp else []), st)))"

definition handleClientWebSocket :: "Request \<Rightarrow> string \<Rightarrow> bool \<Rightarrow> http_env \<Rightarrow> ws_result \<times> hstate" where
  "handleClientWebSocket r suffixPath upgraded e =
     (let (h, q) = applyQueryBearerAuth (stripForwardingIPHeaders (rHeader r)) (rRawQuery r)
      in framed_upgrade upgraded e (ws_handshake isFramedRelayMode (ws_ReqStart h q r suffixPath) e))"

definition handleClientWebSocketTransparent :: "Request \<Rightarrow> string \<Rightarrow> bool \<Rightarrow> http_env \<Rightarrow> ws_result \<times> hstate" where
  "handleClientWebSocketTransparent r suffixPath upgraded e =
     framed_upgrade upgraded e (ws_handshake isFramedRelayMode
       (ws_ReqStart (stripForwardingIPHeaders (rHeader r)) (rRawQuery r) r suffixPath) e)"

definition handleClientWebSocketTransparentRaw ::
  "Request \<Rightarrow> string \<Rightarrow> bool \<Rightarrow> bool \<Rightarrow> (nat \<Rightarrow> bool) \<Rightarrow> http_env \<Rightarrow> ws_result \<times> hstate" where
  "handleClientWebSocketTransparentRaw r suffixPath hijacker hijacked wok e =
     (case ws_handshake isRawRelayMode
        (ws_ReqStart (stripForwardingIPHeaders (rHeader r)) (rRawQuery r) r suffixPath) e of
        (WsRefused, st) \<Rightarrow> (WsFailed, st)
      | (WsWaiting, st) \<Rightarrow> (WsPending, st)
      | (WsOpened ok, st) \<Rightarrow>
          (case hijackAndWrite hijacker (rHeader r) ok hijacked wok of
             Inl _ \<Rightarrow> (WsFailed, snd (h_send e st TRst (bytes_of ''client upgrade failed'')))
           | Inr text \<Rightarrow> (WsRawRelaying text, st)))"

section \<open>Relaying\<close>

datatype wsmsg = WMsg int bytes | WCloseMsg int string | WPing | WRaw bytes

text \<open>
  The goroutines of a relay: the reader, the handler with its frame loop, the watcher and the ping loop.
  \<open>rReader\<close> and \<open>rMain\<close> hold while the first two loop, \<open>rReaderIn\<close> and \<open>rMainIn\<close> while they are inside
  \<^verbatim>\<open>sendCloseToAgent\<close> on their way out.  The watcher waits for the context, sends the reset, closes the
  stream.  \<open>rPingFailed\<close>: the ping loop has met an error and closes the client next.
\<close>

datatype watcher = WatchWait | WatchSend | WatchClose | WatchEnded

record wsr =
  rSent :: "(byte \<times> bytes) list"
  rCli :: "wsmsg list"
  rOnce :: bool
  rDone :: bool
  rCancelled :: bool
  rReader :: bool
  rReaderIn :: bool
  rMain :: bool
  rMainIn :: bool
  rWatch :: watcher
  rPing :: bool
  rPingFailed :: bool
  rCliClosed :: bool
  rStClosed :: bool
  rBuffered :: bool

definition wsr_new :: wsr where
  "wsr_new = \<lparr>rSent = [], rCli = [], rOnce = False, rDone = False, rCancelled = False, rReader = True,
     rReaderIn = False, rMain = True, rMainIn = False, rWatch = WatchWait, rPing = True, rPingFailed = False,
     rCliClosed = False, rStClosed = False, rBuffered = True\<rparr>"

text \<open>\<^verbatim>\<open>st.send\<close>: \<open>ok\<close> is the outcome of the write; a closed stream refuses.\<close>

definition ws_send :: "wsr \<Rightarrow> byte \<Rightarrow> bytes \<Rightarrow> bool \<Rightarrow> bool \<times> wsr" where
  "ws_send x t p ok =
     (if ok \<and> \<not> rStClosed x then (True, x\<lparr>rSent := rSent x @ [(t, p)]\<rparr>) else (False, x))"

definition ws_payload :: "int \<Rightarrow> bytes \<Rightarrow> bytes" where
  "ws_payload mt data = of_int mt # data"

definition data_message :: "int \<Rightarrow> bool" where
  "data_message mt \<longleftrightarrow> mt = TextMessage \<or> mt = BinaryMessage"

text \<open>
  \<^verbatim>\<open>sendCloseToAgent\<close> sends inside \<^verbatim>\<open>closeOnce.Do\<close>; the flag \<^verbatim>\<open>closeDone\<close> is stored after the send
  and before any caller returns, which is a step of its own (\<open>closer_returns\<close>, with the caller's \<^verbatim>\<open>cancel\<close>).
\<close>

definition sendCloseToAgent :: "wsr \<Rightarrow> int \<Rightarrow> string \<Rightarrow> bool \<Rightarrow> wsr" where
  "sendCloseToAgent x code reason ok =
     (if rOnce x then x
      else (snd (ws_send x TWsClose (MustJSON (WsClose_json \<lparr>Code = code, Reason = reason\<rparr>)) ok))
        \<lparr>rOnce := True\<rparr>)"

definition closer_returns :: "wsr \<Rightarrow> wsr" where
  [simp]: "closer_returns x = x\<lparr>rDone := True, rCancelled := True\<rparr>"

definition reader_exit :: "wsr \<Rightarrow> wsr" where
  "reader_exit x = x\<lparr>rReader := False, rCancelled := True\<rparr>"

definition main_exit :: "wsr \<Rightarrow> wsr" where
  "main_exit x = x\<lparr>rMain := False, rCancelled := True\<rparr>"

text \<open>One turn of the goroutine that reads from the client.\<close>

definition client_msg :: "wsr \<Rightarrow> int \<Rightarrow> bytes \<Rightarrow> bool \<Rightarrow> wsr" where
  "client_msg x mt data ok =
     (if \<not> data_message mt then x
      else case ws_send x TWsC2A (ws_payload mt data) ok of
        (True, x1) \<Rightarrow> x1
      | (False, x1) \<Rightarrow> reader_exit x1)"

definition client_err :: "wsr \<Rightarrow> ioerr \<Rightarrow> bool \<Rightarrow> wsr" where
  "client_err x err ok =
     (case CloseFromErr (Some err) of
        (code, reason, True) \<Rightarrow> sendCloseToAgent x code reason ok
      | _ \<Rightarrow> sendCloseToAgent x CloseGoingAway ''client closed'' ok)
       \<lparr>rReader := False, rReaderIn := True\<rparr>"

text \<open>One frame in the main loop; \<open>coerce\<close> is the handler of transparent mode.\<close>

definition frame_message :: "bool \<Rightarrow> bytes \<Rightarrow> int \<times> bytes" where
  "frame_message coerce p =
     (let mt = uint (hd p)
      in ((if coerce \<and> \<not> data_message mt then BinaryMessage else mt), tl p))"

definition agent_frame :: "bool \<Rightarrow> wsr \<Rightarrow> Frame \<Rightarrow> ioerr option \<Rightarrow> bool \<Rightarrow> wsr" where
  "agent_frame coerce x f werr ok =
     (if Type f = TWsA2C then
        (if Payload f = [] then x
         else case werr of
           None \<Rightarrow> (case frame_message coerce (Payload f) of (mt, data) \<Rightarrow> x\<lparr>rCli := rCli x @ [WMsg mt data]\<rparr>)
         | Some er \<Rightarrow>
             (case CloseFromErr (Some er) of
                (code, reason, True) \<Rightarrow> (sendCloseToAgent x code reason ok)\<lparr>rMain := False, rMainIn := True\<rparr>
              | _ \<Rightarrow> main_exit (snd (ws_send x TRst (bytes_of ''client write failed'') ok))))
      else if Type f = TWsClose then
        (let c = fst (unmarshal_WsClose (Payload f))
         in main_exit (x\<lparr>rDone := True, rCli := rCli x @ [WCloseMsg (SanitizeCloseCode (Code c)) (Reason c)]\<rparr>))
      else if Type f = TRst then main_exit x
      else x)"

text \<open>
  The goroutine that waits for the end of the context: it reads \<^verbatim>\<open>closeDone\<close>, sends the reset if the flag was
  not set, and closes the stream; other goroutines may run between these.
\<close>

definition watch_step :: "wsr \<Rightarrow> bool \<Rightarrow> wsr" where
  "watch_step x ok =
     (case rWatch x of
        WatchWait \<Rightarrow> if rCancelled x then x\<lparr>rWatch := if rDone x then WatchClose else WatchSend\<rparr> else x
      | WatchSend \<Rightarrow> (snd (ws_send x TRst (bytes_of ''ws client closed'') ok))\<lparr>rWatch := WatchClose\<rparr>
      | WatchClose \<Rightarrow> x\<lparr>rStClosed := True, rWatch := WatchEnded\<rparr>
      | WatchEnded \<Rightarrow> x)"

text \<open>
  The events.  \<open>EvClientMsg\<close> and \<open>EvClientErr\<close> are results of the reader's \<^verbatim>\<open>ReadMessage\<close> (it meets
  \<^verbatim>\<open>net.ErrClosed\<close> only after this side has closed the client), \<open>EvAgentFrame\<close> and \<open>EvAgentErr\<close> results
  of \<^verbatim>\<open>st.recv(0)\<close> (it fails only on a closed stream), \<open>EvCtxSeen\<close> the check at the head of the frame loop,
  \<open>EvReaderReturns\<close> and \<open>EvMainReturns\<close> the returns from \<^verbatim>\<open>sendCloseToAgent\<close>, \<open>EvPing\<close> and \<open>EvPingEnds\<close>
  the turns of the ping loop, \<open>EvHandlerCloses\<close> and \<open>EvFinish\<close> the deferred \<^verbatim>\<open>wsClient.Close()\<close> and
  \<^verbatim>\<open>st.closeWithErr(nil)\<close> of the handler, in this order.  From outside come the end of the request's context
  (\<open>EvCancel\<close>) and of the stream (\<open>EvStreamGone\<close>: its connection ended or its queue overflowed).
\<close>

datatype wsevent =
    EvClientMsg int bytes bool
  | EvClientErr ioerr bool
  | EvAgentFrame Frame "ioerr option" bool
  | EvAgentErr
  | EvCtxSeen
  | EvReaderReturns
  | EvMainReturns
  | EvWatch bool
  | EvPing bool
  | EvPingEnds
  | EvHandlerCloses
  | EvFinish
  | EvCancel
  | EvStreamGone

text \<open>
  The ping loop runs when an interval is configured: a failed ping cancels the context and closes the client;
  otherwise the loop ends with the context.
\<close>

definition clientPongWait :: "Server \<Rightarrow> duration option" where
  "clientPongWait s =
     (if clientWSPingInterval s \<le> 0 then None
      else Some (wrap64 (wrap64 (clientWSPingInterval s * 2) + 5 * Second)))"

definition client_ping :: "wsr \<Rightarrow> bool \<Rightarrow> wsr" where
  [simp]: "client_ping x ok =
     (if ok then x\<lparr>rCli := rCli x @ [WPing]\<rparr> else x\<lparr>rCancelled := True, rPingFailed := True\<rparr>)"

definition ping_ends :: "wsr \<Rightarrow> wsr" where
  [simp]: "ping_ends x =
     (if rPingFailed x then x\<lparr>rCliClosed := True, rPing := False\<rparr>
      else if rCancelled x then x\<lparr>rPing := False\<rparr> else x)"

fun framed_step :: "bool \<Rightarrow> bool \<Rightarrow> wsr \<Rightarrow> wsevent \<Rightarrow> wsr" where
  "framed_step coerce pings x (EvClientMsg mt data ok) = (if rReader x then client_msg x mt data ok else x)"
| "framed_step coerce pings x (EvClientErr err ok) =
     (if rReader x \<and> (err = ErrClosed \<longrightarrow> rCliClosed x) then client_err x err ok else x)"
| "framed_step coerce pings x (EvAgentFrame f werr ok) = (if rMain x then agent_frame coerce x f werr ok else x)"
| "framed_step coerce pings x EvAgentErr = (if rMain x \<and> rStClosed x then main_exit x else x)"
| "framed_step coerce pings x EvCtxSeen = (if rMain x \<and> rCancelled x then main_exit x else x)"
| "framed_step coerce pings x EvReaderReturns = (if rReaderIn x then (closer_returns x)\<lparr>rReaderIn := False\<rparr> else x)"
| "framed_step coerce pings x EvMainReturns = (if rMainIn x then (closer_returns x)\<lparr>rMainIn := False\<rparr> else x)"
| "framed_step coerce pings x (EvWatch ok) = watch_step x ok"
| "framed_step coerce pings x (EvPing ok) =
     (if pings \<and> rPing x \<and> \<not> rPingFailed x then client_ping x ok else x)"
| "framed_step coerce pings x EvPingEnds = (if pings \<and> rPing x then ping_ends x else x)"
| "framed_step coerce pings x EvHandlerCloses = (if rMain x \<or> rMainIn x then x else x\<lparr>rCliClosed := True\<rparr>)"
| "framed_step coerce pings x EvFinish =
     (if rMain x \<or> rMainIn x \<or> \<not> rCliClosed x then x else x\<lparr>rStClosed := True\<rparr>)"
| "framed_step coerce pings x EvCancel = x\<lparr>rCancelled := True\<rparr>"
| "framed_step coerce pings x EvStreamGone = x\<lparr>rStClosed := True\<rparr>"

definition framed_run :: "bool \<Rightarrow> bool \<Rightarrow> wsevent list \<Rightarrow> wsr" where
  "framed_run coerce pings evs = fold (\<lambda>ev x. framed_step coerce pings x ev) evs wsr_new"

subsection \<open>Raw relaying\<close>

definition raw_closeStream :: "wsr \<Rightarrow> string \<Rightarrow> bool \<Rightarrow> wsr" where
  "raw_closeStream x reason ok =
     (if rOnce x then x
      else (snd (ws_send x TRst (bytes_of reason) ok))\<lparr>rOnce := True, rStClosed := True, rCancelled := True\<rparr>)"

text \<open>
  The bytes the hijacked reader had buffered go first (\<open>None\<close>: they could not be read); then one turn per
  read, with the data and the error it returned.
\<close>

definition raw_buffered :: "wsr \<Rightarrow> bytes option \<Rightarrow> bool \<Rightarrow> bool \<Rightarrow> wsr" where
  "raw_buffered x b ok ok2 =
     (let x = x\<lparr>rBuffered := False\<rparr>
      in case b of
           None \<Rightarrow> reader_exit (raw_closeStream x ''raw client buffered read failed'' ok2)
         | Some d \<Rightarrow>
             if d = [] then x
             else (case ws_send x TWsC2A d ok of
                     (True, x1) \<Rightarrow> x1
                   | (False, x1) \<Rightarrow> reader_exit (raw_closeStream x1 ''raw send to agent failed'' ok2)))"

definition raw_read :: "wsr \<Rightarrow> bytes \<Rightarrow> ioerr option \<Rightarrow> bool \<Rightarrow> bool \<Rightarrow> wsr" where
  "raw_read x d err ok ok2 =
     (case (if d \<noteq> [] then ws_send x TWsC2A d ok else (True, x)) of
        (False, x1) \<Rightarrow> reader_exit (raw_closeStream x1 ''raw send to agent failed'' ok2)
      | (True, x1) \<Rightarrow>
          (case err of
             None \<Rightarrow> x1
           | Some er \<Rightarrow>
               reader_exit (raw_closeStream x1
                 (if er = EOF \<or> er = ErrClosed then ''raw client closed'' else ''raw client read failed'') ok2)))"

definition raw_frame :: "wsr \<Rightarrow> Frame \<Rightarrow> bool \<Rightarrow> bool \<Rightarrow> wsr" where
  "raw_frame x f wok ok =
     (if Type f = TWsA2C then
        (if Payload f = [] then x
         else if wok then x\<lparr>rCli := rCli x @ [WRaw (Payload f)]\<rparr>
         else main_exit (raw_closeStream x ''raw client write failed'' ok))
      else if Type f = TWsClose \<or> Type f = TRst
      then main_exit (raw_closeStream x ''agent closed stream'' ok)
      else x)"

datatype rawevent =
    RvBuffered "bytes option" bool bool
  | RvRead bytes "ioerr option" bool bool
  | RvFrame Frame bool bool
  | RvAgentErr bool
  | RvCtxSeen
  | RvCancel
  | RvFinish

fun raw_step :: "wsr \<Rightarrow> rawevent \<Rightarrow> wsr" where
  "raw_step x (RvBuffered b ok ok2) = (if rReader x \<and> rBuffered x then raw_buffered x b ok ok2 else x)"
| "raw_step x (RvRead d err ok ok2) = (if rReader x \<and> \<not> rBuffered x then raw_read x d err ok ok2 else x)"
| "raw_step x (RvFrame f wok ok) = (if rMain x then raw_frame x f wok ok else x)"
| "raw_step x (RvAgentErr ok) = (if rMain x then main_exit (raw_closeStream x ''agent stream closed'' ok) else x)"
| "raw_step x RvCtxSeen = (if rMain x \<and> rCancelled x then main_exit x else x)"
| "raw_step x RvCancel = x\<lparr>rCancelled := True\<rparr>"
| "raw_step x RvFinish = (if rMain x then x else x\<lparr>rStClosed := True\<rparr>)"

definition raw_run :: "rawevent list \<Rightarrow> wsr" where
  "raw_run evs = fold (\<lambda>ev x. raw_step x ev) evs wsr_new"

section \<open>Lemmas\<close>

text \<open>What the relay carried, and what it was given to carry.\<close>

definition sent_of :: "byte \<Rightarrow> (byte \<times> bytes) list \<Rightarrow> bytes list" where
  "sent_of t fs = map snd (filter (\<lambda>f. fst f = t) fs)"

fun messages_of :: "wsmsg list \<Rightarrow> (int \<times> bytes) list" where
  "messages_of [] = []"
| "messages_of (WMsg mt d # ms) = (mt, d) # messages_of ms"
| "messages_of (_ # ms) = messages_of ms"

fun client_payload :: "wsevent \<Rightarrow> bytes list" where
  "client_payload (EvClientMsg mt d ok) = (if data_message mt then [ws_payload mt d] else [])"
| "client_payload _ = []"

definition client_payloads :: "wsevent list \<Rightarrow> bytes list" where
  "client_payloads evs = concat (map client_payload evs)"

fun agent_message :: "bool \<Rightarrow> wsevent \<Rightarrow> (int \<times> bytes) list" where
  "agent_message coerce (EvAgentFrame f werr ok) =
     (if Type f = TWsA2C \<and> Payload f \<noteq> [] then [frame_message coerce (Payload f)] else [])"
| "agent_message coerce _ = []"

definition agent_messages :: "bool \<Rightarrow> wsevent list \<Rightarrow> (int \<times> bytes) list" where
  "agent_messages coerce evs = concat (map (agent_message coerce) evs)"

lemma sent_of_append [simp]: "sent_of t (a @ b) = sent_of t a @ sent_of t b"
  by (simp add: sent_of_def)

lemma sent_of_single [simp]: "sent_of t [(u, p)] = (if u = t then [p] else [])" "sent_of t [] = []"
  by (simp_all add: sent_of_def)

lemma messages_of_append [simp]: "messages_of (a @ b) = messages_of a @ messages_of b"
  by (induction a rule: messages_of.induct) auto

lemma ws_types [simp]:
  "TRst \<noteq> TWsC2A" "TWsClose \<noteq> TWsC2A" "TWsA2C \<noteq> TWsC2A" "TWsC2A \<noteq> TWsClose" "TRst \<noteq> TWsClose"
  "TWsClose \<noteq> TWsA2C" "TRst \<noteq> TWsA2C" "TWsC2A \<noteq> TRst" "TWsClose \<noteq> TRst" "TWsA2C \<noteq> TWsClose" "TWsA2C \<noteq> TRst"
  by (simp_all add: frame_types)

text \<open>What the operations that end a goroutine leave alone.\<close>

lemma ws_close_keeps [simp]:
  "sent_of TWsC2A (rSent (sendCloseToAgent x c r ok)) = sent_of TWsC2A (rSent x)"
  "rCli (sendCloseToAgent x c r ok) = rCli x" "rReader (sendCloseToAgent x c r ok) = rReader x"
  "rMain (sendCloseToAgent x c r ok) = rMain x" "rCancelled (sendCloseToAgent x c r ok) = rCancelled x"
  "sent_of TWsC2A (rSent (snd (ws_send x TRst p ok))) = sent_of TWsC2A (rSent x)"
  "rCli (snd (ws_send x t p ok)) = rCli x" "rReader (snd (ws_send x t p ok)) = rReader x"
  "rMain (snd (ws_send x t p ok)) = rMain x" "rOnce (snd (ws_send x t p ok)) = rOnce x"
  "rCancelled (snd (ws_send x t p ok)) = rCancelled x" "rWatch (snd (ws_send x t p ok)) = rWatch x"
  "rStClosed (snd (ws_send x t p ok)) = rStClosed x" "rDone (snd (ws_send x t p ok)) = rDone x"
  by (simp_all add: sendCloseToAgent_def ws_send_def)

lemma exit_keeps [simp]:
  "rSent (main_exit x) = rSent x" "rCli (main_exit x) = rCli x" "rReader (main_exit x) = rReader x"
  "\<not> rMain (main_exit x)" "rSent (reader_exit x) = rSent x" "rCli (reader_exit x) = rCli x"
  "\<not> rReader (reader_exit x)" "rMain (reader_exit x) = rMain x" "rOnce (main_exit x) = rOnce x"
  "rOnce (reader_exit x) = rOnce x" "rStClosed (main_exit x) = rStClosed x" "rStClosed (reader_exit x) = rStClosed x"
  by (simp_all add: main_exit_def reader_exit_def)

lemma CloseFromErr_cases:
  "(case CloseFromErr (Some e) of (c, r, True) \<Rightarrow> f c r | (c, r, False) \<Rightarrow> g) =
     (case e of CloseErr c r \<Rightarrow> f c r | _ \<Rightarrow> g)"
  by (cases e) auto

text \<open>Both directions satisfy the contract of a relay.\<close>

lemmas framed_ops = client_msg_def client_err_def agent_frame_def watch_step_def ws_send_def Let_def CloseFromErr_cases

lemmas framed_ends = sendCloseToAgent_def closer_returns_def main_exit_def reader_exit_def

lemmas outcome_splits = option.splits ioerr.splits prod.splits watcher.splits

interpretation to_agent: relay "framed_step coerce pings" "\<lambda>x. sent_of TWsC2A (rSent x)" rReader client_payload "\<lambda>_ _. True"
  for coerce pings
proof
  fix x ev
  show "rReader x \<and> sent_of TWsC2A (rSent (framed_step coerce pings x ev)) = sent_of TWsC2A (rSent x) @ client_payload ev"
    if "rReader (framed_step coerce pings x ev)"
    using that
    by (cases ev) (auto simp: framed_ops reader_exit_def split: outcome_splits if_splits)
  show "prefix (sent_of TWsC2A (rSent (framed_step coerce pings x ev))) (sent_of TWsC2A (rSent x) @ client_payload ev)"
    by (cases ev) (auto simp: framed_ops reader_exit_def split: outcome_splits if_splits)
  show "sent_of TWsC2A (rSent (framed_step coerce pings x ev)) = sent_of TWsC2A (rSent x)" if "\<not> rReader x"
    using that by (cases ev) (auto simp: framed_ops split: outcome_splits if_splits)
qed

interpretation to_client: relay "framed_step coerce pings" "\<lambda>x. messages_of (rCli x)" rMain "agent_message coerce" "\<lambda>_ _. True"
  for coerce pings
proof
  fix x ev
  show "rMain x \<and> messages_of (rCli (framed_step coerce pings x ev)) = messages_of (rCli x) @ agent_message coerce ev"
    if "rMain (framed_step coerce pings x ev)"
    using that
    by (cases ev) (auto simp: framed_ops split: outcome_splits if_splits)
  show "prefix (messages_of (rCli (framed_step coerce pings x ev))) (messages_of (rCli x) @ agent_message coerce ev)"
    by (cases ev) (auto simp: framed_ops split: outcome_splits if_splits)
  show "messages_of (rCli (framed_step coerce pings x ev)) = messages_of (rCli x)" if "\<not> rMain x"
    using that by (cases ev) (auto simp: framed_ops split: outcome_splits if_splits)
qed

lemma to_agent_enabled [simp]: "to_agent.enabled_run coerce pings x evs"
  by (induction evs arbitrary: x) simp_all

lemma to_client_enabled [simp]: "to_client.enabled_run coerce pings x evs"
  by (induction evs arbitrary: x) simp_all

lemma framed_run_relays:
  fixes evs coerce pings
  defines "x \<equiv> framed_run coerce pings evs"
  shows "prefix (sent_of TWsC2A (rSent x)) (client_payloads evs)"
    "rReader x \<Longrightarrow> sent_of TWsC2A (rSent x) = client_payloads evs"
    "prefix (messages_of (rCli x)) (agent_messages coerce evs)"
    "rMain x \<Longrightarrow> messages_of (rCli x) = agent_messages coerce evs"
  using to_agent.run_relays [of wsr_new coerce pings evs] to_client.run_relays [of wsr_new coerce pings evs]
  by (simp_all add: x_def framed_run_def to_agent.run_def to_client.run_def client_payloads_def agent_messages_def wsr_new_def)

lemma framed_run_snoc: "framed_run coerce pings (evs @ [ev]) = framed_step coerce pings (framed_run coerce pings evs) ev"
  by (simp add: framed_run_def)

definition close_inv :: "wsr \<Rightarrow> bool" where
  "close_inv x \<longleftrightarrow> length (sent_of TWsClose (rSent x)) \<le> (if rOnce x then 1 else 0)"

lemma close_inv_cong: "rSent y = rSent x \<Longrightarrow> rOnce y = rOnce x \<Longrightarrow> close_inv y = close_inv x"
  by (simp add: close_inv_def)

lemma close_inv_sendClose: "close_inv x \<Longrightarrow> close_inv (sendCloseToAgent x c r ok)"
  by (cases "rOnce x") (auto simp: close_inv_def sendCloseToAgent_def ws_send_def)

lemma close_inv_send: "t \<noteq> TWsClose \<Longrightarrow> close_inv (snd (ws_send x t p ok)) = close_inv x"
  by (simp add: close_inv_def ws_send_def)

lemma close_inv_exit [simp]:
  "close_inv (main_exit x) = close_inv x" "close_inv (reader_exit x) = close_inv x"
  "close_inv (x\<lparr>rCancelled := c\<rparr>) = close_inv x" "close_inv (x\<lparr>rCli := m\<rparr>) = close_inv x"
  "close_inv (x\<lparr>rDone := c\<rparr>) = close_inv x" "close_inv (x\<lparr>rStClosed := c\<rparr>) = close_inv x"
  "close_inv (x\<lparr>rWatch := w\<rparr>) = close_inv x" "close_inv (x\<lparr>rReader := c\<rparr>) = close_inv x"
  "close_inv (x\<lparr>rReaderIn := c\<rparr>) = close_inv x" "close_inv (x\<lparr>rMain := c\<rparr>) = close_inv x"
  "close_inv (x\<lparr>rMainIn := c\<rparr>) = close_inv x" "close_inv (x\<lparr>rPing := c\<rparr>) = close_inv x"
  "close_inv (x\<lparr>rPingFailed := c\<rparr>) = close_inv x" "close_inv (x\<lparr>rCliClosed := c\<rparr>) = close_inv x"
  by (simp_all add: close_inv_def)

lemma close_inv_step: "close_inv x \<Longrightarrow> close_inv (framed_step coerce pings x ev)"
proof (induction coerce pings x ev rule: framed_step.induct)
  case (1 coerce pings x mt data ok)
  then show ?case
    using close_inv_send [of TWsC2A x "ws_payload mt data" ok]
    by (auto simp: client_msg_def split: prod.splits bool.splits)
next
  case (2 coerce pings x err ok)
  then show ?case by (cases err) (auto simp: client_err_def close_inv_sendClose)
next
  case (3 coerce pings x f werr ok)
  then show ?case
    by (cases werr)
      (auto simp: agent_frame_def Let_def close_inv_send close_inv_sendClose split: prod.splits bool.splits)
qed (auto simp: watch_step_def closer_returns_def close_inv_send split: watcher.splits)

lemma close_inv_run: "close_inv (framed_run coerce pings evs)"
proof (induction evs rule: rev_induct)
  case Nil
  then show ?case by (simp add: close_inv_def framed_run_def wsr_new_def)
next
  case (snoc ev evs)
  then show ?case by (simp only: framed_run_snoc close_inv_step)
qed

subsection \<open>Raw relaying\<close>

fun raw_input1 :: "rawevent \<Rightarrow> bytes" where
  "raw_input1 (RvBuffered (Some d) ok ok2) = d"
| "raw_input1 (RvRead d err ok ok2) = d"
| "raw_input1 _ = []"

definition raw_input :: "rawevent list \<Rightarrow> bytes" where
  "raw_input evs = concat (map raw_input1 evs)"

fun raw_agent1 :: "rawevent \<Rightarrow> bytes" where
  "raw_agent1 (RvFrame f wok ok) = (if Type f = TWsA2C then Payload f else [])"
| "raw_agent1 _ = []"

definition raw_agent :: "rawevent list \<Rightarrow> bytes" where
  "raw_agent evs = concat (map raw_agent1 evs)"

fun raw_bytes :: "wsmsg list \<Rightarrow> bytes" where
  "raw_bytes [] = []"
| "raw_bytes (WRaw d # ms) = d @ raw_bytes ms"
| "raw_bytes (_ # ms) = raw_bytes ms"

lemma raw_bytes_append [simp]: "raw_bytes (a @ b) = raw_bytes a @ raw_bytes b"
  by (induction a rule: raw_bytes.induct) auto

lemma raw_closeStream_keeps [simp]:
  "sent_of TWsC2A (rSent (raw_closeStream x r ok)) = sent_of TWsC2A (rSent x)"
  "rCli (raw_closeStream x r ok) = rCli x" "rReader (raw_closeStream x r ok) = rReader x"
  "rMain (raw_closeStream x r ok) = rMain x" "rBuffered (raw_closeStream x r ok) = rBuffered x"
  by (simp_all add: raw_closeStream_def ws_send_def)

text \<open>Events in the order the reader performs them: the buffered bytes first, once, and then the reads.\<close>

fun reader_order :: "bool \<Rightarrow> rawevent list \<Rightarrow> bool" where
  "reader_order b [] = True"
| "reader_order b (RvBuffered d ok ok2 # evs) = (b \<and> reader_order False evs)"
| "reader_order b (RvRead d err ok ok2 # evs) = (\<not> b \<and> reader_order b evs)"
| "reader_order b (_ # evs) = reader_order b evs"

definition reader_turn :: "wsr \<Rightarrow> rawevent \<Rightarrow> bool" where
  "reader_turn x ev \<longleftrightarrow>
     rReader x \<longrightarrow> (case ev of RvBuffered _ _ _ \<Rightarrow> rBuffered x | RvRead _ _ _ _ \<Rightarrow> \<not> rBuffered x | _ \<Rightarrow> True)"

lemmas raw_ops = raw_buffered_def raw_read_def raw_frame_def main_exit_def reader_exit_def ws_send_def Let_def

interpretation raw_to_agent: relay raw_step "\<lambda>x. concat (sent_of TWsC2A (rSent x))" rReader raw_input1 reader_turn
proof
  fix x ev
  assume turn: "reader_turn x ev"
  show "rReader x \<and> concat (sent_of TWsC2A (rSent (raw_step x ev))) = concat (sent_of TWsC2A (rSent x)) @ raw_input1 ev"
    if "rReader (raw_step x ev)"
    using that turn
    by (cases "(ev)" rule: raw_input1.cases)
      (auto simp: reader_turn_def raw_ops split: if_splits option.splits)
  show "prefix (concat (sent_of TWsC2A (rSent (raw_step x ev)))) (concat (sent_of TWsC2A (rSent x)) @ raw_input1 ev)"
    using turn
    by (cases "(ev)" rule: raw_input1.cases)
      (auto simp: reader_turn_def raw_ops split: if_splits option.splits)
next
  fix x ev
  show "concat (sent_of TWsC2A (rSent (raw_step x ev))) = concat (sent_of TWsC2A (rSent x))" if "\<not> rReader x"
    using that by (cases ev) (auto simp: raw_frame_def main_exit_def)
qed

interpretation raw_to_client: relay raw_step "\<lambda>x. raw_bytes (rCli x)" rMain raw_agent1 reader_turn
proof
  fix x ev
  assume turn: "reader_turn x ev"
  show "rMain x \<and> raw_bytes (rCli (raw_step x ev)) = raw_bytes (rCli x) @ raw_agent1 ev" if "rMain (raw_step x ev)"
    using that by (cases ev) (auto simp: raw_ops raw_closeStream_def split: if_splits option.splits)
  show "prefix (raw_bytes (rCli (raw_step x ev))) (raw_bytes (rCli x) @ raw_agent1 ev)"
    by (cases ev) (auto simp: raw_ops raw_closeStream_def split: if_splits option.splits)
next
  fix x ev
  show "raw_bytes (rCli (raw_step x ev)) = raw_bytes (rCli x)" if "\<not> rMain x"
    using that by (cases ev) (auto simp: raw_ops raw_closeStream_def split: if_splits option.splits)
qed

lemma rBuffered_step:
  assumes "rReader (raw_step x ev)"
  shows "rReader x" "rBuffered (raw_step x ev) \<longleftrightarrow> rBuffered x \<and> (case ev of RvBuffered _ _ _ \<Rightarrow> False | _ \<Rightarrow> True)"
  using assms by (cases ev; auto simp: raw_ops split: if_splits option.splits)+

lemma reader_turn_simps [simp]:
  "reader_turn x (RvBuffered d ok ok2) \<longleftrightarrow> rReader x \<longrightarrow> rBuffered x"
  "reader_turn x (RvRead buf err ok ok2) \<longleftrightarrow> rReader x \<longrightarrow> \<not> rBuffered x"
  "reader_turn x (RvFrame f wok ok)" "reader_turn x (RvAgentErr ok)" "reader_turn x RvCtxSeen" "reader_turn x RvCancel"
  "reader_turn x RvFinish"
  by (auto simp: reader_turn_def)

lemma reader_order_enabled:
  "reader_order b evs \<Longrightarrow> (rReader x \<Longrightarrow> rBuffered x = b) \<Longrightarrow>
     raw_to_agent.enabled_run x evs \<and> raw_to_client.enabled_run x evs"
proof (induction evs arbitrary: x b)
  case (Cons ev evs)
  let ?b = "b \<and> (case ev of RvBuffered _ _ _ \<Rightarrow> False | _ \<Rightarrow> True)"
  have "reader_order ?b evs" "reader_turn x ev" using Cons.prems by (cases ev; auto)+
  moreover have "rReader (raw_step x ev) \<Longrightarrow> rBuffered (raw_step x ev) = ?b"
    using rBuffered_step [of x ev] Cons.prems by auto
  ultimately show ?case using Cons.IH [of ?b "raw_step x ev"] by simp
qed simp

lemma raw_run_snoc: "raw_run (evs @ [ev]) = raw_step (raw_run evs) ev"
  by (simp add: raw_run_def)

lemma raw_run_relays:
  assumes "reader_order True evs"
  shows "prefix (concat (sent_of TWsC2A (rSent (raw_run evs)))) (raw_input evs)"
    "rReader (raw_run evs) \<Longrightarrow> concat (sent_of TWsC2A (rSent (raw_run evs))) = raw_input evs"
    "prefix (raw_bytes (rCli (raw_run evs))) (raw_agent evs)"
    "rMain (raw_run evs) \<Longrightarrow> raw_bytes (rCli (raw_run evs)) = raw_agent evs"
  using raw_to_agent.run_relays [of wsr_new evs] raw_to_client.run_relays [of wsr_new evs]
    reader_order_enabled [OF assms, of wsr_new]
  by (simp_all add: raw_run_def raw_to_agent.run_def raw_to_client.run_def raw_input_def raw_agent_def wsr_new_def)

text \<open>Sends on a stream that is closed go nowhere; an ended raw relay has told the agent once.\<close>

definition rst_inv :: "wsr \<Rightarrow> bool" where
  "rst_inv x \<longleftrightarrow> length (sent_of TRst (rSent x)) \<le> (if rOnce x then 1 else 0)"

lemma rst_inv_close: "rst_inv x \<Longrightarrow> rst_inv (raw_closeStream x r ok)"
  by (cases "rOnce x") (auto simp: rst_inv_def raw_closeStream_def ws_send_def)

lemma rst_inv_simps [simp]:
  "rst_inv (main_exit x) = rst_inv x" "rst_inv (reader_exit x) = rst_inv x"
  "rst_inv (x\<lparr>rCancelled := c\<rparr>) = rst_inv x" "rst_inv (x\<lparr>rCli := m\<rparr>) = rst_inv x"
  "rst_inv (x\<lparr>rStClosed := c\<rparr>) = rst_inv x" "rst_inv (x\<lparr>rBuffered := c\<rparr>) = rst_inv x"
  by (simp_all add: rst_inv_def)

lemma rst_inv_send: "t \<noteq> TRst \<Longrightarrow> rst_inv (snd (ws_send x t p ok)) = rst_inv x"
  by (simp add: rst_inv_def ws_send_def)

lemma rst_inv_sent: "ws_send x t p ok = (b, y) \<Longrightarrow> t \<noteq> TRst \<Longrightarrow> rst_inv x \<Longrightarrow> rst_inv y"
  using rst_inv_send [of t x p ok] by simp

lemma rst_inv_step: "rst_inv x \<Longrightarrow> rst_inv (raw_step x ev)"
proof (cases ev)
  case (RvBuffered b ok ok2)
  assume "rst_inv x"
  with RvBuffered show ?thesis
    by (cases b) (auto simp: raw_buffered_def Let_def rst_inv_close
        elim!: rst_inv_sent intro!: rst_inv_close split: prod.splits bool.splits)
next
  case (RvRead d err ok ok2)
  assume "rst_inv x"
  with RvRead show ?thesis
    by (cases err) (auto simp: raw_read_def rst_inv_close
        elim!: rst_inv_sent intro!: rst_inv_close split: prod.splits bool.splits if_splits)
next
  case (RvFrame f wok ok)
  assume "rst_inv x"
  with RvFrame show ?thesis by (simp add: raw_frame_def rst_inv_close)
qed (simp_all add: rst_inv_close)

lemma rst_inv_run: "rst_inv (raw_run evs)"
proof (induction evs rule: rev_induct)
  case Nil
  then show ?case by (simp add: rst_inv_def raw_run_def wsr_new_def)
next
  case (snoc ev evs)
  then show ?case by (simp only: raw_run_snoc rst_inv_step)
qed

subsection \<open>The end of a relay\<close>

lemma framed_step_mono: "rStClosed x \<Longrightarrow> rStClosed (framed_step c p x ev)"
  by (cases ev) (auto simp: framed_ops framed_ends split: outcome_splits)

text \<open>
  A goroutine that has left its loop has cancelled the context or is about to, and a watcher that has ended has
  closed the stream, a ping loop that failed has cancelled the context.
\<close>

definition end_inv :: "wsr \<Rightarrow> bool" where
  "end_inv x \<longleftrightarrow> (\<not> rReader x \<longrightarrow> rReaderIn x \<or> rCancelled x) \<and> (\<not> rMain x \<longrightarrow> rMainIn x \<or> rCancelled x) \<and>
     (rWatch x \<noteq> WatchWait \<or> rPingFailed x \<longrightarrow> rCancelled x) \<and> (rWatch x = WatchEnded \<longrightarrow> rStClosed x)"

lemma end_inv_run: "end_inv (framed_run c p evs)"
proof (induction evs rule: rev_induct)
  case Nil
  then show ?case by (simp add: end_inv_def framed_run_def wsr_new_def)
next
  case (snoc ev evs)
  then show ?case
    unfolding framed_run_snoc end_inv_def
    by (cases ev) (auto simp: framed_ops framed_ends split: outcome_splits)
qed

text \<open>
  The events in which the relay acts by itself: it waits for nothing from outside.  A read of the client is
  among them only with the error that closing the client causes.
\<close>

fun own :: "wsevent \<Rightarrow> bool" where
  "own (EvClientErr err ok) \<longleftrightarrow> err = ErrClosed"
| "own (EvClientMsg mt data ok) = False"
| "own (EvAgentFrame f werr ok) = False"
| "own (EvPing ok) = False"
| "own EvCancel = False"
| "own EvStreamGone = False"
| "own _ = True"

definition turn :: "bool \<Rightarrow> bool \<Rightarrow> wsr \<Rightarrow> wsevent \<Rightarrow> bool" where
  "turn c p x ev \<longleftrightarrow> own ev \<and> framed_step c p x ev \<noteq> x"


fun watch_left :: "watcher \<Rightarrow> nat" where
  "watch_left WatchWait = 3" | "watch_left WatchSend = 2" | "watch_left WatchClose = 1" | "watch_left WatchEnded = 0"

definition work_left :: "wsr \<Rightarrow> nat" where
  "work_left x = 2 * of_bool (rReader x) + of_bool (rReaderIn x) + 2 * of_bool (rMain x) + of_bool (rMainIn x) +
     watch_left (rWatch x) + of_bool (rPing x) + of_bool (\<not> rCliClosed x) + of_bool (\<not> rStClosed x)"

lemma closed_again [simp]:
  "rCliClosed x \<Longrightarrow> x\<lparr>rCliClosed := True\<rparr> = x" "rStClosed x \<Longrightarrow> x\<lparr>rStClosed := True\<rparr> = x"
  by (cases x; simp)+

lemma work_left_keeps [simp]:
  "work_left (x\<lparr>rCli := m\<rparr>) = work_left x" "work_left (x\<lparr>rSent := s\<rparr>) = work_left x"
  "work_left (x\<lparr>rDone := b\<rparr>) = work_left x" "work_left (x\<lparr>rOnce := b\<rparr>) = work_left x"
  "work_left (x\<lparr>rCancelled := b\<rparr>) = work_left x" "work_left (x\<lparr>rPingFailed := b\<rparr>) = work_left x"
  by (simp_all add: work_left_def)

lemma work_left_sends [simp]:
  "work_left (snd (ws_send x t q ok)) = work_left x" "work_left (sendCloseToAgent x code reason ok) = work_left x"
  by (simp_all add: ws_send_def sendCloseToAgent_def)















definition relay_ended :: "bool \<Rightarrow> wsr \<Rightarrow> bool" where
  "relay_ended p x \<longleftrightarrow> \<not> rReader x \<and> \<not> rReaderIn x \<and> \<not> rMain x \<and> \<not> rMainIn x \<and> rWatch x = WatchEnded \<and>
     (p \<longrightarrow> \<not> rPing x) \<and> rCliClosed x \<and> rStClosed x"



text \<open>Which events had working sends, and whether the agent closed.\<close>

fun sends_work :: "wsevent \<Rightarrow> bool" where
  "sends_work (EvClientMsg mt d ok) = ok"
| "sends_work (EvClientErr err ok) = ok"
| "sends_work (EvAgentFrame f werr ok) = ok"
| "sends_work (EvWatch ok) = ok"
| "sends_work _ = True"

fun agent_close :: "wsevent \<Rightarrow> bool" where
  "agent_close (EvAgentFrame f werr ok) \<longleftrightarrow> Type f = TWsClose"
| "agent_close _ = False"

definition told :: "wsevent list \<Rightarrow> wsr \<Rightarrow> bool" where
  "told evs x \<longleftrightarrow> list_ex agent_close evs \<or> sent_of TWsClose (rSent x) @ sent_of TRst (rSent x) \<noteq> []"

lemma sent_grows: "prefix (rSent x) (rSent (framed_step c p x ev))"
  by (cases ev) (auto simp: framed_ops framed_ends split: outcome_splits)

lemma told_mono: "told evs x \<Longrightarrow> told (evs @ [ev]) (framed_step c p x ev)"
  using sent_grows [of x c p ev] by (auto simp: told_def prefix_def)

text \<open>Whoever is inside \<^verbatim>\<open>sendCloseToAgent\<close> has come through the once.\<close>

lemma closer_once:
  "rReaderIn (framed_run c p evs) \<or> rMainIn (framed_run c p evs) \<Longrightarrow> rOnce (framed_run c p evs)"
proof (induction evs rule: rev_induct)
  case Nil
  then show ?case by (simp add: framed_run_def wsr_new_def)
next
  case (snoc ev evs)
  then show ?case
    unfolding framed_run_snoc
    by (cases ev) (auto simp: framed_ops framed_ends split: outcome_splits if_splits)
qed

lemma told_close_inv:
  "list_all sends_work evs \<Longrightarrow> \<not> rStClosed (framed_run c p evs) \<Longrightarrow>
     rOnce (framed_run c p evs) \<or> rDone (framed_run c p evs) \<or> rWatch (framed_run c p evs) = WatchClose \<Longrightarrow>
     told evs (framed_run c p evs)"
proof (induction evs rule: rev_induct)
  case Nil
  then show ?case by (simp add: framed_run_def wsr_new_def)
next
  case (snoc ev evs)
  let ?x = "framed_run c p evs"
  have open_x: "\<not> rStClosed ?x" using snoc.prems framed_step_mono by (auto simp: framed_run_snoc)
  show ?case
  proof (cases "rOnce ?x \<or> rDone ?x \<or> rWatch ?x = WatchClose")
    case True
    then show ?thesis using snoc open_x by (simp add: framed_run_snoc told_mono)
  next
    case False
    with closer_once [of c p evs] have "\<not> rReaderIn ?x" "\<not> rMainIn ?x" by auto
    with False open_x snoc.prems show ?thesis
      unfolding framed_run_snoc told_def
      by (cases ev) (auto simp: framed_ops framed_ends split: outcome_splits if_splits)
  qed
qed

subsection \<open>The switching response\<close>

lemma sanitize_safe:
  assumes "sanitizeWebSocketHeaderValue raw = Inr v"
  shows "v = trimSpace raw" "c \<in> set v \<Longrightarrow> \<not> newline_or_null c \<and> \<not> control_char c"
  using assms by (auto simp: sanitizeWebSocketHeaderValue_def Let_def filter_empty_conv split: list.splits if_splits)

lemma sanitize_all_safe:
  "sanitize_all es = Inr vs \<Longrightarrow> v \<in> set vs \<Longrightarrow> c \<in> set v \<Longrightarrow> \<not> newline_or_null c"
proof (induction es arbitrary: vs)
  case (Cons e es)
  then show ?case by (auto split: sum.splits if_splits dest: sanitize_safe)
qed simp

lemma websocketAccept_safe: "c \<in> set (websocketAccept key) \<Longrightarrow> \<not> newline_or_null c"
  using base64_graphic [of c "sha1 (bytes_of (trimSpace key @ websocketGUID))"]
  by (auto simp: websocketAccept_def newline_or_null_def)

lemma safe_filter: "(\<And>c. c \<in> set s \<Longrightarrow> \<not> newline_or_null c) \<Longrightarrow> filter newline_or_null s = []"
  by (simp add: filter_empty_conv)

lemma filter_crlf: "filter newline_or_null crlf = crlf"
  by (simp add: crlf_def newline_or_null_def)

lemma filter_lines:
  "(\<And>v c. v \<in> set vs \<Longrightarrow> c \<in> set v \<Longrightarrow> \<not> newline_or_null c) \<Longrightarrow> filter newline_or_null pre = [] \<Longrightarrow>
     filter newline_or_null (concat (map (\<lambda>v. pre @ v @ crlf) vs)) = concat (replicate (length vs) crlf)"
proof (induction vs)
  case (Cons v vs)
  then have "filter newline_or_null v = []" by (auto intro: safe_filter)
  moreover have "filter newline_or_null (concat (map (\<lambda>v. pre @ v @ crlf) vs)) = concat (replicate (length vs) crlf)"
    using Cons by (metis list.set_intros(2))
  ultimately show ?case using Cons.prems by (simp add: filter_crlf)
qed simp

lemma sanitize_all_length:
  "sanitize_all es = Inr vs \<Longrightarrow> length vs = length (filter (\<lambda>e. trimSpace e \<noteq> []) es)"
proof (induction es arbitrary: vs)
  case (Cons e es)
  then show ?case by (auto split: sum.splits if_splits dest: sanitize_safe(1))
qed simp

lemma switching_filter:
  assumes "\<And>c. c \<in> set sp \<Longrightarrow> \<not> newline_or_null c" "\<And>v c. v \<in> set es \<Longrightarrow> c \<in> set v \<Longrightarrow> \<not> newline_or_null c"
  shows "filter newline_or_null (concat (switching_lines key sp es)) =
           concat (replicate (5 + (if sp = [] then 0 else 1) + length es) crlf)"
proof -
  have lit: "filter newline_or_null ''HTTP/1.1 101 Switching Protocols'' = []" "filter newline_or_null ''Upgrade: websocket'' = []"
    "filter newline_or_null ''Connection: Upgrade'' = []" "filter newline_or_null ''Sec-WebSocket-Accept: '' = []"
    "filter newline_or_null ''Sec-WebSocket-Protocol: '' = []" "filter newline_or_null ''Sec-WebSocket-Extensions: '' = []"
    by (simp_all add: newline_or_null_def)
  have "filter newline_or_null (concat (switching_lines key sp es)) =
      crlf @ crlf @ crlf @ crlf @ (if sp \<noteq> [] then crlf else []) @ concat (replicate (length es) crlf) @ crlf"
    unfolding switching_lines_def
    by (cases "sp = []")
      (simp_all only: concat_append concat.simps filter_append lit safe_filter [OF websocketAccept_safe] filter_crlf
        filter_lines [OF assms(2) lit(6)] append_Nil append_Nil2 append_assoc safe_filter [OF assms(1)] filter.simps(1)
        if_True if_False simp_thms)
  moreover have "concat (replicate n crlf) @ crlf = concat (replicate (Suc n) crlf)" for n
    by (simp only: replicate_append_same [symmetric] replicate_Suc concat_append concat.simps append_Nil2)
  ultimately show ?thesis by (simp add: numeral_eq_Suc)
qed

section \<open>Properties\<close>

text \<open>Framed relaying preserves messages.  Under every interleaving of the client reader, the frame loop, the
  watcher, the ping loop and cancellation, the data messages sent to the agent are a prefix of those the
  client sent, in order, each as its opcode byte and its data, and all of them while the reader runs; the
  messages written to the client are a prefix of the agent's non-empty ones, in order, and all of them while
  the frame loop runs; and the agent is sent at most one close frame.  This holds for both framed handlers
  (\<open>coerce\<close> marks the one of transparent mode), so the transparent handler wraps messages with their opcode
  as well.
\<close>

theorem framed_relay_order:
  fixes evs coerce pings
  defines "x \<equiv> framed_run coerce pings evs"
  shows "prefix (sent_of TWsC2A (rSent x)) (client_payloads evs) \<and>
         (rReader x \<longrightarrow> sent_of TWsC2A (rSent x) = client_payloads evs) \<and>
         prefix (messages_of (rCli x)) (agent_messages coerce evs) \<and>
         (rMain x \<longrightarrow> messages_of (rCli x) = agent_messages coerce evs) \<and>
         length (sent_of TWsClose (rSent x)) \<le> 1"
proof -
  have "close_inv x" unfolding x_def by (rule close_inv_run)
  then have "length (sent_of TWsClose (rSent x)) \<le> 1" by (cases "rOnce x") (auto simp: close_inv_def)
  with framed_run_relays [of coerce pings evs] show ?thesis by (simp add: x_def)
qed

text \<open>Raw relaying is a byte stream in both directions: under every interleaving in which the reader takes the
  buffered bytes before its reads, the bytes sent to the agent are a prefix of the client's bytes (all of them
  while the reader runs), those written to the client are a prefix of the agent's, and the agent is sent at
  most one reset.
\<close>

theorem raw_relay_stream:
  fixes evs
  defines "x \<equiv> raw_run evs"
  assumes "reader_order True evs"
  shows "prefix (concat (sent_of TWsC2A (rSent x))) (raw_input evs) \<and>
         (rReader x \<longrightarrow> concat (sent_of TWsC2A (rSent x)) = raw_input evs) \<and>
         prefix (raw_bytes (rCli x)) (raw_agent evs) \<and> (rMain x \<longrightarrow> raw_bytes (rCli x) = raw_agent evs) \<and>
         length (sent_of TRst (rSent x)) \<le> 1"
proof -
  have "rst_inv x" unfolding x_def by (rule rst_inv_run)
  then have "length (sent_of TRst (rSent x)) \<le> 1" by (cases "rOnce x") (auto simp: rst_inv_def)
  with raw_run_relays [OF assms(2)] show ?thesis by (simp add: x_def)
qed

theorem raw_relay_stream_witness:
  "concat (sent_of TWsC2A (rSent (raw_run [RvBuffered (Some [129]) True True, RvRead [1, 65] None True True]))) = [129, 1, 65]"
proof -
  let ?evs = "[RvBuffered (Some [129]) True True, RvRead [1, 65] None True True] :: rawevent list"
  have "reader_order True ?evs" "rReader (raw_run ?evs)" "raw_input ?evs = [129, 1, 65]" by code_simp+
  with raw_relay_stream [of ?evs] show ?thesis by simp
qed



text \<open>C20. The agent learns of the end.  If sends work, then a watcher that comes to closing a stream that is still
  open does so after the agent has closed the relay itself or was sent a close or a reset; and two turns of the
  watcher from any state in which the context is cancelled and the stream open get there.
\<close>

theorem framed_end_told:
  fixes evs c p
  defines "x \<equiv> framed_run c p evs" and "y \<equiv> framed_run c p (evs @ [EvWatch True, EvWatch True])"
  assumes "list_all sends_work evs" "\<not> rStClosed x"
  shows "(rWatch x = WatchClose \<longrightarrow> told evs x) \<and>
    (rCancelled x \<longrightarrow> told (evs @ [EvWatch True, EvWatch True]) y)"
proof -
  have t: "rOnce x \<or> rDone x \<or> rWatch x = WatchClose \<longrightarrow> told evs x" using told_close_inv [of evs c p] assms by simp
  have y: "y = watch_step (watch_step x True) True" by (simp add: y_def x_def framed_run_def)
  have "rWatch x \<noteq> WatchEnded" using end_inv_run [of c p evs] assms(4) by (auto simp: end_inv_def x_def)
  with t assms(4) have "rCancelled x \<longrightarrow> told (evs @ [EvWatch True, EvWatch True]) y"
    unfolding y by (cases "rWatch x") (auto simp: watch_step_def told_def ws_send_def)
  with t show ?thesis by blast
qed

theorem framed_end_told_witness:
  "told [EvPing False, EvWatch True, EvWatch True] (framed_run False True [EvPing False, EvWatch True, EvWatch True])"
proof -
  have "list_all sends_work [EvPing False]" "rCancelled (framed_run False True [EvPing False])"
    "\<not> rStClosed (framed_run False True [EvPing False])" by code_simp+
  then show ?thesis using framed_end_told [of "[EvPing False]" False True] by simp
qed

text \<open>The condition on the stream matters.  When a failed ping cancels the context while the frame loop is between
  two frames, the handler may return, and close the stream, before the watcher and the reader have their turn:
  then both find the stream closed and the agent is sent nothing at all.
\<close>

theorem framed_end_race:
  "\<exists>evs. list_all sends_work evs \<and> \<not> list_ex agent_close evs \<and> relay_ended True (framed_run c True evs) \<and>
     rSent (framed_run c True evs) = []"
  by (rule exI [of _ "[EvPing False, EvCtxSeen, EvHandlerCloses, EvFinish, EvWatch True, EvWatch True, EvWatch True,
        EvPingEnds, EvClientErr ErrClosed True, EvReaderReturns]"])
    (simp add: framed_run_def wsr_new_def main_exit_def watch_step_def client_err_def ws_send_def
      sendCloseToAgent_def closer_returns_def relay_ended_def)

text \<open>C21. The agent cannot inject header lines into the client's response.  When the upgrade response is written, its
  line breaks are exactly those ending the status line, the fixed header lines, the subprotocol line (if the
  agent named one), one line per non-blank extension and the empty line; and the accept value is the one RFC
  6455 prescribes for the client's key, 28 characters long.
\<close>

theorem switching_response_lines:
  assumes "hijackAndWrite hijacker hdr openOK hijacked wok = Inr resp"
  shows "filter newline_or_null resp =
           concat (replicate (5 + (if trimSpace (Subprotocol openOK) = [] then 0 else 1) +
             length (filter (\<lambda>e. trimSpace e \<noteq> []) (Extensions openOK))) crlf) \<and>
         prefix (''HTTP/1.1 101 Switching Protocols'' @ crlf @ ''Upgrade: websocket'' @ crlf @ ''Connection: Upgrade'' @ crlf @
           ''Sec-WebSocket-Accept: '' @ websocketAccept (hget hdr ''Sec-WebSocket-Key'') @ crlf) resp \<and>
         length (websocketAccept (hget hdr ''Sec-WebSocket-Key'')) = 28"
proof -
  obtain sp es where sp: "sanitizeWebSocketHeaderValue (Subprotocol openOK) = Inr sp"
    and es: "sanitize_all (Extensions openOK) = Inr es"
    and resp: "resp = concat (switching_lines (trimSpace (hget hdr ''Sec-WebSocket-Key'')) sp es)"
    using assms by (auto simp: hijackAndWrite_def Let_def split: sum.splits if_splits)
  have "trimSpace (Subprotocol openOK) = sp" using sanitize_safe(1) [OF sp] by simp
  moreover have "filter newline_or_null resp = concat (replicate (5 + (if sp = [] then 0 else 1) + length es) crlf)"
    unfolding resp using sanitize_safe(2) [OF sp] sanitize_all_safe [OF es] by (intro switching_filter) auto
  moreover have "length (websocketAccept key) = 28" for key
    by (simp add: websocketAccept_def length_base64 length_sha1)
  moreover have "websocketAccept (trimSpace k) = websocketAccept k" for k by (simp add: websocketAccept_def)
  ultimately show ?thesis
    using sanitize_all_length [OF es] by (simp add: resp switching_lines_def)
qed

theorem switching_response_lines_witness:
  "filter newline_or_null (concat (switching_lines ''x3JJHMbDL1EzLkh9GBhXDw=='' ''chat'' [''permessage-deflate''])) = concat (replicate 7 crlf)"
proof -
  let ?hdr = "[(''Sec-Websocket-Key'', [''x3JJHMbDL1EzLkh9GBhXDw==''])] :: header"
  let ?ok = "\<lparr>Subprotocol = ''chat'', RelayMode = WsRelayModeRaw, Extensions = ['' '', '' permessage-deflate'']\<rparr>"
  have "sanitizeWebSocketHeaderValue ''chat'' = Inr ''chat''" by code_simp
  moreover have "sanitize_all ['' '', '' permessage-deflate''] = Inr [''permessage-deflate'']" by code_simp
  moreover have "trimSpace (hget ?hdr ''Sec-WebSocket-Key'') = ''x3JJHMbDL1EzLkh9GBhXDw==''" by code_simp
  ultimately have "hijackAndWrite True ?hdr ?ok True (\<lambda>_. True) =
      Inr (concat (switching_lines ''x3JJHMbDL1EzLkh9GBhXDw=='' ''chat'' [''permessage-deflate'']))"
    by (simp add: hijackAndWrite_def Let_def list_all_iff del: sanitize_all.simps)
  from switching_response_lines [OF this]
  have "filter newline_or_null (concat (switching_lines ''x3JJHMbDL1EzLkh9GBhXDw=='' ''chat'' [''permessage-deflate''])) =
      concat (replicate (5 + (if trimSpace ''chat'' = [] then 0 else 1) + length (filter (\<lambda>e. trimSpace e \<noteq> []) ['' '', '' permessage-deflate''])) crlf)"
    by simp
  moreover have "(5 + (if trimSpace ''chat'' = [] then 0 else 1) + length (filter (\<lambda>e. trimSpace e \<noteq> []) ['' '', '' permessage-deflate''])) = 7"
    by code_simp
  ultimately show ?thesis by metis
qed

end
