(* ===== verification/Agent_Conn.thy ===== *)
theory Agent_Conn
  imports Gateway_Ws
begin

text \<open>
  The agent's side of a registered connection (\<^verbatim>\<open>internal/agent/agent.go\<close>): the agent's settings, the target
  predicates, the negotiation of the proxy mode, and \<^verbatim>\<open>connState\<close> with the streams the gateway opens on it.

  As on the gateway's side, stream objects live in a list and are referred to by position, the way their
  handlers hold pointers to them.  A handler goroutine is a flag of its stream.  \<open>agent_step\<close> interleaves the
  read loop, the handlers and the teardown; \<open>ok\<close> is always the outcome of a write to the gateway.
\<close>

section \<open>Settings\<close>

text \<open>\<^verbatim>\<open>Agent\<close> without its HTTP client, of which only the response header timeout is configured.\<close>

record Agent =
  registerURL :: URL
  registerDialAddr :: string
  registerXToken :: string
  registerBearerToken :: string
  registerProxyMode :: string
  registerTargetKind :: string
  targetBase :: URL
  wsReadLimit :: int
  responseHeaderTimeout :: duration

definition targetKindFromRegisterURL :: "URL option \<Rightarrow> string" where
  "targetKindFromRegisterURL u =
     (case u of
        None \<Rightarrow> TargetKindUnknown
      | Some u \<Rightarrow>
          (case NormalizeTargetKind (qget (fst (ParseQuery (uRawQuery u))) ''target_kind'') of
             Inl _ \<Rightarrow> TargetKindUnknown
           | Inr kind \<Rightarrow> kind))"

definition proxyModeFromRegisterURL :: "URL option \<Rightarrow> string" where
  "proxyModeFromRegisterURL u =
     (case u of
        None \<Rightarrow> ProxyModeLegacyFramed
      | Some u \<Rightarrow>
          (case NormalizeProxyMode (qget (fst (ParseQuery (uRawQuery u))) ''proxy_mode'') of
             Inl _ \<Rightarrow> ProxyModeLegacyFramed
           | Inr mode \<Rightarrow> mode))"

text \<open>The agent has its own copy of the gateway's \<^verbatim>\<open>envDuration\<close>.\<close>

definition agent_envDuration :: "env \<Rightarrow> string \<Rightarrow> duration \<Rightarrow> duration" where
  "agent_envDuration env key dflt = duration_value (env key) dflt"

definition New :: "env \<Rightarrow> URL \<Rightarrow> string \<Rightarrow> string \<Rightarrow> string \<Rightarrow> URL \<Rightarrow> Agent" where
  "New env regURL dialAddr xToken bearer target =
     \<lparr>registerURL = regURL, registerDialAddr = dialAddr, registerXToken = xToken, registerBearerToken = bearer,
      registerProxyMode = proxyModeFromRegisterURL (Some regURL),
      registerTargetKind = targetKindFromRegisterURL (Some regURL), targetBase = target,
      wsReadLimit = WSReadLimitBytes,
      responseHeaderTimeout = agent_envDuration env ''HTTPS_PROXY_FIRST_RESPONSE_TIMEOUT'' (30 * Second)\<rparr>"

definition isTCPTarget :: "URL option \<Rightarrow> bool" where
  "isTCPTarget target =
     (case target of None \<Rightarrow> False | Some u \<Rightarrow> equalFold (trimSpace (uScheme u)) ''tcp'')"

definition isWebSocketTarget :: "URL option \<Rightarrow> bool" where
  "isWebSocketTarget target =
     (case target of
        None \<Rightarrow> False
      | Some u \<Rightarrow> (let scheme = toLower (trimSpace (uScheme u)) in scheme = ''ws'' \<or> scheme = ''wss''))"

definition shouldUseRawTransparentWS :: "string \<Rightarrow> bool" where
  "shouldUseRawTransparentWS kind = equalFold (trimSpace kind) TargetKindWebSocket"

text \<open>\<open>resp\<close>: the header of the handshake response, if there was one.\<close>

definition negotiatedProxyModeFromHandshake :: "header option \<Rightarrow> string \<Rightarrow> string" where
  "negotiatedProxyModeFromHandshake resp fallback =
     (let fallback = (if trimSpace fallback = [] then ProxyModeLegacyFramed else fallback)
      in case resp of
           None \<Rightarrow> fallback
         | Some h \<Rightarrow>
             (let raw = trimSpace (hget h HeaderProxyMode)
              in if raw = [] then fallback
                 else case NormalizeProxyMode raw of Inl _ \<Rightarrow> fallback | Inr mode \<Rightarrow> mode))"

section \<open>Streams\<close>

definition agentReceiveQueueFrames :: nat where "agentReceiveQueueFrames = 128"

record astream =
  aId :: u32
  aRx :: "Frame list"
  aClosed :: bool
  aRunning :: bool

record connState =
  aProxyMode :: string
  aStreams :: "(u32 \<times> nat) list"
  aObjs :: "astream list"
  aWire :: "bytes list"
  aReading :: bool
  aHeld :: "nat list"

definition newConnState :: "string \<Rightarrow> connState" where
  "newConnState mode = \<lparr>aProxyMode = mode, aStreams = [], aObjs = [], aWire = [], aReading = True, aHeld = []\<rparr>"

definition updA :: "connState \<Rightarrow> nat \<Rightarrow> (astream \<Rightarrow> astream) \<Rightarrow> connState" where
  "updA c r g = c\<lparr>aObjs := (aObjs c)[r := g (aObjs c ! r)]\<rparr>"

definition agent_send :: "connState \<Rightarrow> byte \<Rightarrow> u32 \<Rightarrow> bytes \<Rightarrow> bool \<Rightarrow> bool \<times> connState" where
  "agent_send c t ident payload ok =
     (ok, if ok then c\<lparr>aWire := aWire c @ [EncodeFrame t ident payload]\<rparr> else c)"

definition astream_close :: "connState \<Rightarrow> nat \<Rightarrow> connState" where
  "astream_close c r = updA c r (\<lambda>s. s\<lparr>aClosed := True\<rparr>)"

definition agent_forgetStream :: "connState \<Rightarrow> u32 \<Rightarrow> connState" where
  "agent_forgetStream c ident =
     (let c1 = c\<lparr>aStreams := AList.delete ident (aStreams c)\<rparr>
      in case map_of (aStreams c) ident of None \<Rightarrow> c1 | Some r \<Rightarrow> astream_close c1 r)"

definition getOrCreateStream :: "connState \<Rightarrow> u32 \<Rightarrow> nat \<times> connState" where
  "getOrCreateStream c ident =
     (case map_of (aStreams c) ident of
        Some r \<Rightarrow> (r, c)
      | None \<Rightarrow>
          (let r = length (aObjs c)
           in (r, c\<lparr>aObjs := aObjs c @ [\<lparr>aId = ident, aRx = [], aClosed = False, aRunning = True\<rparr>],
                    aStreams := AList.update ident r (aStreams c)\<rparr>)))"

text \<open>\<open>pickClosed\<close>: when both cases of the select are ready, the closed channel is taken.\<close>

definition deliverFrame :: "bool \<Rightarrow> bool \<Rightarrow> connState \<Rightarrow> nat \<Rightarrow> Frame \<Rightarrow> bool \<times> connState" where
  "deliverFrame pickClosed ok c r f =
     (let s = aObjs c ! r
      in if length (aRx s) < agentReceiveQueueFrames \<and> \<not> (aClosed s \<and> pickClosed)
         then (True, updA c r (\<lambda>s. s\<lparr>aRx := aRx s @ [f]\<rparr>))
         else if aClosed s then (False, c)
         else (False, agent_forgetStream (snd (agent_send c TRst (aId s) (bytes_of ''stream rx overflow'') ok)) (aId s)))"

text \<open>One message of \<^verbatim>\<open>readLoop\<close>.\<close>

definition agent_readLoop_msg :: "bool \<Rightarrow> bool \<Rightarrow> connState \<Rightarrow> int \<Rightarrow> bytes \<Rightarrow> connState" where
  "agent_readLoop_msg pick ok c mt msg =
     (if mt \<noteq> BinaryMessage then c
      else case DecodeFrame msg of
             Inl _ \<Rightarrow> c
           | Inr f \<Rightarrow> (case getOrCreateStream c (Stream f) of (r, c1) \<Rightarrow> snd (deliverFrame pick ok c1 r f)))"

definition closeAllStreams :: "connState \<Rightarrow> connState" where
  "closeAllStreams c = fold (\<lambda>r c. astream_close c r) (map snd (aStreams c)) (c\<lparr>aStreams := []\<rparr>)"

section \<open>handleStream\<close>

text \<open>What the handler of a stream does with the first frame: refuse the stream, or go on with its head.\<close>

datatype dispatch =
    Refuse string
  | RunWebSocketTransparent ReqStart
  | RunWebSocket ReqStart
  | RunHTTP ReqStart

definition handleStream_dispatch :: "string \<Rightarrow> URL option \<Rightarrow> Frame \<Rightarrow> dispatch" where
  "handleStream_dispatch mode target f =
     (if Type f \<noteq> TReqStart then Refuse ''missing req_start''
      else case unmarshal_ReqStart (Payload f) of
             (rs, ok) \<Rightarrow>
               if \<not> ok then Refuse ''bad req_start''
               else if IsWebSocket rs then
                 (if mode = ProxyModeTransparentTunnel then RunWebSocketTransparent rs else RunWebSocket rs)
               else if isTCPTarget target then Refuse ''tcp target only supports websocket upgrade''
               else RunHTTP rs)"

text \<open>A handler takes the next frame of its stream; a handler that returns forgets its stream by identifier.\<close>

definition agent_poll :: "nat \<Rightarrow> connState \<Rightarrow> (Frame \<times> connState) option" where
  "agent_poll r c =
     (case aRx (aObjs c ! r) of [] \<Rightarrow> None | f # fs \<Rightarrow> Some (f, updA c r (\<lambda>s. s\<lparr>aRx := fs\<rparr>)))"

definition handler_exit :: "connState \<Rightarrow> nat \<Rightarrow> connState" where
  "handler_exit c r = updA (agent_forgetStream c (aId (aObjs c ! r))) r (\<lambda>s. s\<lparr>aRunning := False\<rparr>)"

text \<open>The refusing branches of \<^verbatim>\<open>handleStream\<close>, start to end.\<close>

definition handleStream_refuse :: "connState \<Rightarrow> nat \<Rightarrow> string \<Rightarrow> bool \<Rightarrow> connState" where
  "handleStream_refuse c r reason ok =
     handler_exit (snd (agent_send c TRst (aId (aObjs c ! r)) (bytes_of reason) ok)) r"

section \<open>Interleaving\<close>

text \<open>
  Each step is what the code does under one lock, or one channel operation.  \<^verbatim>\<open>forgetStream\<close> and
  \<^verbatim>\<open>closeAllStreams\<close> take streams out of the map under its lock and close them afterwards: in between, the
  streams are in the hands of their goroutines (\<open>aHeld\<close>).  The read loop may deliver to a stream it looked up before.
\<close>

definition forget_take :: "connState \<Rightarrow> u32 \<Rightarrow> connState" where
  "forget_take c ident =
     (case map_of (aStreams c) ident of
        None \<Rightarrow> c
      | Some r \<Rightarrow> c\<lparr>aStreams := AList.delete ident (aStreams c), aHeld := aHeld c @ [r]\<rparr>)"

definition closeAll_take :: "connState \<Rightarrow> connState" where
  "closeAll_take c = c\<lparr>aStreams := [], aHeld := aHeld c @ map snd (aStreams c)\<rparr>"

definition held_close :: "connState \<Rightarrow> nat \<Rightarrow> connState" where
  "held_close c i = astream_close (c\<lparr>aHeld := take i (aHeld c) @ drop (Suc i) (aHeld c)\<rparr>) (aHeld c ! i)"

text \<open>The select of \<^verbatim>\<open>deliverFrame\<close>; its default case goes on with a send and a \<^verbatim>\<open>forgetStream\<close>.\<close>

definition deliver_select :: "bool \<Rightarrow> connState \<Rightarrow> nat \<Rightarrow> Frame \<Rightarrow> connState" where
  "deliver_select pickClosed c r f =
     (let s = aObjs c ! r
      in if length (aRx s) < agentReceiveQueueFrames \<and> \<not> (aClosed s \<and> pickClosed)
         then updA c r (\<lambda>s. s\<lparr>aRx := aRx s @ [f]\<rparr>) else c)"

inductive agent_step :: "connState \<Rightarrow> connState \<Rightarrow> bool" where
  read_open: "aReading c \<Longrightarrow> agent_step c (snd (getOrCreateStream c ident))"
| read_deliver: "aReading c \<Longrightarrow> r < length (aObjs c) \<Longrightarrow> aId (aObjs c ! r) = Stream f \<Longrightarrow>
    agent_step c (deliver_select pick c r f)"
| read_end: "agent_step c (c\<lparr>aReading := False\<rparr>)"
| poll: "r < length (aObjs c) \<Longrightarrow> agent_poll r c = Some (f, c') \<Longrightarrow> agent_step c c'"
| send: "agent_step c (snd (agent_send c t ident p ok))"
| close: "r < length (aObjs c) \<Longrightarrow> agent_step c (astream_close c r)"
| forget: "r < length (aObjs c) \<Longrightarrow> agent_step c (forget_take c (aId (aObjs c ! r)))"
| held: "i < length (aHeld c) \<Longrightarrow> agent_step c (held_close c i)"
| stopped: "r < length (aObjs c) \<Longrightarrow> agent_step c (updA c r (\<lambda>s. s\<lparr>aRunning := False\<rparr>))"
| teardown: "\<not> aReading c \<Longrightarrow> agent_step c (closeAll_take c)"

definition agent_init :: "connState \<Rightarrow> bool" where
  "agent_init c \<longleftrightarrow> (\<exists>mode. c = newConnState mode)"

definition agent_reach :: "connState \<Rightarrow> bool" where
  "agent_reach c \<longleftrightarrow> (\<exists>c0. agent_init c0 \<and> agent_step\<^sup>*\<^sup>* c0 c)"

definition agent_inv :: "connState \<Rightarrow> bool" where
  "agent_inv c \<longleftrightarrow>
     distinct (map fst (aStreams c)) \<and>
     (\<forall>i r. map_of (aStreams c) i = Some r \<longrightarrow> r < length (aObjs c) \<and> aId (aObjs c ! r) = i) \<and>
     (\<forall>r < length (aObjs c). length (aRx (aObjs c ! r)) \<le> agentReceiveQueueFrames \<and>
        (map_of (aStreams c) (aId (aObjs c ! r)) = Some r \<or> r \<in> set (aHeld c) \<or> aClosed (aObjs c ! r))) \<and>
     (\<forall>r \<in> set (aHeld c). r < length (aObjs c))"

section \<open>Lemmas\<close>

lemma updA_sel [simp]:
  "aObjs (updA c r g) = (aObjs c)[r := g (aObjs c ! r)]" "aStreams (updA c r g) = aStreams c"
  "aWire (updA c r g) = aWire c" "aReading (updA c r g) = aReading c" "aProxyMode (updA c r g) = aProxyMode c"
  "aHeld (updA c r g) = aHeld c"
  by (simp_all add: updA_def)

lemma agent_send_sel [simp]:
  "aObjs (snd (agent_send c t i p ok)) = aObjs c" "aStreams (snd (agent_send c t i p ok)) = aStreams c"
  "aReading (snd (agent_send c t i p ok)) = aReading c" "aHeld (snd (agent_send c t i p ok)) = aHeld c"
  by (simp_all add: agent_send_def)

lemma agent_invI:
  assumes "distinct (map fst (aStreams c))"
    and "\<And>i r. map_of (aStreams c) i = Some r \<Longrightarrow> r < length (aObjs c) \<and> aId (aObjs c ! r) = i"
    and "\<And>r. r < length (aObjs c) \<Longrightarrow> length (aRx (aObjs c ! r)) \<le> agentReceiveQueueFrames"
    and "\<And>r. r < length (aObjs c) \<Longrightarrow> \<not> aClosed (aObjs c ! r) \<Longrightarrow>
      map_of (aStreams c) (aId (aObjs c ! r)) = Some r \<or> r \<in> set (aHeld c)"
    and "\<And>r. r \<in> set (aHeld c) \<Longrightarrow> r < length (aObjs c)"
  shows "agent_inv c"
  using assms unfolding agent_inv_def by blast

lemma agent_invD:
  assumes "agent_inv c"
  shows "distinct (map fst (aStreams c))"
    and "map_of (aStreams c) i = Some r \<Longrightarrow> r < length (aObjs c)"
    and "map_of (aStreams c) i = Some r \<Longrightarrow> aId (aObjs c ! r) = i"
    and "r < length (aObjs c) \<Longrightarrow> length (aRx (aObjs c ! r)) \<le> agentReceiveQueueFrames"
    and "r < length (aObjs c) \<Longrightarrow> \<not> aClosed (aObjs c ! r) \<Longrightarrow>
      map_of (aStreams c) (aId (aObjs c ! r)) = Some r \<or> r \<in> set (aHeld c)"
    and "r \<in> set (aHeld c) \<Longrightarrow> r < length (aObjs c)"
  using assms unfolding agent_inv_def by blast+

lemma agent_inv_cong:
  "agent_inv c \<Longrightarrow> aStreams c' = aStreams c \<Longrightarrow> aObjs c' = aObjs c \<Longrightarrow> aHeld c' = aHeld c \<Longrightarrow> agent_inv c'"
  unfolding agent_inv_def by metis

text \<open>A change of one stream object that keeps its identifier, its bound and, once closed, the closing.\<close>

lemma agent_inv_upd:
  assumes "agent_inv c" "r < length (aObjs c)" "aId (g (aObjs c ! r)) = aId (aObjs c ! r)"
    and "aClosed (aObjs c ! r) \<Longrightarrow> aClosed (g (aObjs c ! r))" "length (aRx (g (aObjs c ! r))) \<le> agentReceiveQueueFrames"
  shows "agent_inv (updA c r g)"
proof (rule agent_invI)
  note inv = agent_invD [OF assms(1)]
  show "distinct (map fst (aStreams (updA c r g)))" using inv(1) by simp
  show "j < length (aObjs (updA c r g)) \<and> aId (aObjs (updA c r g) ! j) = i"
    if "map_of (aStreams (updA c r g)) i = Some j" for i j
    using that inv(2,3) [of i j] assms(3) by (cases "j = r") auto
  show "length (aRx (aObjs (updA c r g) ! j)) \<le> agentReceiveQueueFrames" if "j < length (aObjs (updA c r g))" for j
    using that inv(4) [of j] assms(2,5) by (cases "j = r") auto
  show "map_of (aStreams (updA c r g)) (aId (aObjs (updA c r g) ! j)) = Some j \<or> j \<in> set (aHeld (updA c r g))"
    if "j < length (aObjs (updA c r g))" "\<not> aClosed (aObjs (updA c r g) ! j)" for j
    using that inv(5) [of j] assms(2,3,4) by (cases "j = r") auto
  show "j < length (aObjs (updA c r g))" if "j \<in> set (aHeld (updA c r g))" for j using that inv(6) by simp
qed

lemma agent_inv_close: "agent_inv c \<Longrightarrow> r < length (aObjs c) \<Longrightarrow> agent_inv (astream_close c r)"
  unfolding astream_close_def by (rule agent_inv_upd) (auto dest: agent_invD(4))

lemma astream_close_sel:
  "length (aObjs (astream_close c r)) = length (aObjs c)"
  "j < length (aObjs c) \<Longrightarrow>
     aObjs (astream_close c r) ! j = (if j = r then (aObjs c ! j)\<lparr>aClosed := True\<rparr> else aObjs c ! j)"
  "aStreams (astream_close c r) = aStreams c" "aHeld (astream_close c r) = aHeld c" "aReading (astream_close c r) = aReading c"
  by (simp_all add: astream_close_def)

lemma agent_inv_forget_take: "agent_inv c \<Longrightarrow> agent_inv (forget_take c i)"
proof (cases "map_of (aStreams c) i")
  case (Some r)
  assume inv: "agent_inv c"
  note d = agent_invD [OF inv]
  let ?c = "forget_take c i"
  have c: "aStreams ?c = AList.delete i (aStreams c)" "aHeld ?c = aHeld c @ [r]" "aObjs ?c = aObjs c"
    using Some by (simp_all add: forget_take_def)
  show ?thesis
  proof (rule agent_invI)
    show "distinct (map fst (aStreams ?c))" using d(1) by (simp add: c AList.distinct_delete)
    show "j < length (aObjs ?c) \<and> aId (aObjs ?c ! j) = k" if "map_of (aStreams ?c) k = Some j" for k j
      using that d(2,3) [of k j] by (auto simp: c AList.delete_conv' split: if_splits)
    show "map_of (aStreams ?c) (aId (aObjs ?c ! j)) = Some j \<or> j \<in> set (aHeld ?c)"
      if "j < length (aObjs ?c)" "\<not> aClosed (aObjs ?c ! j)" for j
      using that d(5) [of j] Some by (auto simp: c AList.delete_conv')
  qed (use d(2,4,6) Some in \<open>auto simp: c\<close>)
qed (simp add: forget_take_def)

lemma agent_inv_held_close:
  assumes "agent_inv c" and "i < length (aHeld c)"
  shows "agent_inv (held_close c i)"
proof (rule agent_invI)
  note d = agent_invD [OF assms(1)]
  let ?r = "aHeld c ! i" and ?h = "take i (aHeld c) @ drop (Suc i) (aHeld c)"
  have "aHeld c = take i (aHeld c) @ ?r # drop (Suc i) (aHeld c)" using assms(2) by (simp add: id_take_nth_drop)
  then have h: "set (aHeld c) = insert ?r (set ?h)" by (metis Un_insert_right list.simps(15) set_append)
  have sel: "aStreams (held_close c i) = aStreams c" "aHeld (held_close c i) = ?h" "length (aObjs (held_close c i)) = length (aObjs c)"
    "j < length (aObjs c) \<Longrightarrow> aObjs (held_close c i) ! j = (if j = ?r then (aObjs c ! j)\<lparr>aClosed := True\<rparr> else aObjs c ! j)" for j
    by (simp_all add: held_close_def astream_close_sel)
  show "distinct (map fst (aStreams (held_close c i)))" using d(1) by (simp add: sel)
  show "j < length (aObjs (held_close c i)) \<and> aId (aObjs (held_close c i) ! j) = k"
    if "map_of (aStreams (held_close c i)) k = Some j" for k j using that d(2,3) [of k j] by (auto simp: sel)
  show "length (aRx (aObjs (held_close c i) ! j)) \<le> agentReceiveQueueFrames" if "j < length (aObjs (held_close c i))" for j
    using that d(4) [of j] by (auto simp: sel)
  show "map_of (aStreams (held_close c i)) (aId (aObjs (held_close c i) ! j)) = Some j \<or> j \<in> set (aHeld (held_close c i))"
    if "j < length (aObjs (held_close c i))" "\<not> aClosed (aObjs (held_close c i) ! j)" for j
    using that d(5) [of j] h by (auto simp: sel split: if_splits)
  show "j < length (aObjs (held_close c i))" if "j \<in> set (aHeld (held_close c i))" for j
    using that d(6) [of j] h by (auto simp: sel)
qed

lemma agent_inv_closeAll_take: "agent_inv c \<Longrightarrow> agent_inv (closeAll_take c)"
proof (rule agent_invI)
  assume inv: "agent_inv c"
  note d = agent_invD [OF inv]
  have m: "r \<in> snd ` set (aStreams c)" if "map_of (aStreams c) i = Some r" for i r using map_of_SomeD [OF that] by force
  have "r < length (aObjs c)" if "r \<in> snd ` set (aStreams c)" for r
    using that d(1,2) by (auto simp: image_iff dest: map_of_is_SomeI)
  then show "r < length (aObjs (closeAll_take c))" if "r \<in> set (aHeld (closeAll_take c))" for r
    using that d(6) by (auto simp: closeAll_take_def)
  show "map_of (aStreams (closeAll_take c)) (aId (aObjs (closeAll_take c) ! j)) = Some j \<or> j \<in> set (aHeld (closeAll_take c))"
    if "j < length (aObjs (closeAll_take c))" "\<not> aClosed (aObjs (closeAll_take c) ! j)" for j
    using that d(5) [of j] m by (auto simp: closeAll_take_def)
qed (auto simp: closeAll_take_def dest: agent_invD(4))

lemma agent_inv_getOrCreate:
  assumes "agent_inv c" "getOrCreateStream c i = (r, c')"
  shows "agent_inv c'" "r < length (aObjs c')" "map_of (aStreams c') i = Some r"
proof -
  note d = agent_invD [OF assms(1)]
  show "agent_inv c'"
  proof (cases "map_of (aStreams c) i")
    case None
    then have c': "aStreams c' = AList.update i (length (aObjs c)) (aStreams c)"
      "aObjs c' = aObjs c @ [\<lparr>aId = i, aRx = [], aClosed = False, aRunning = True\<rparr>]" "aHeld c' = aHeld c"
      using assms(2) by (auto simp: getOrCreateStream_def Let_def)
    show ?thesis
    proof (rule agent_invI)
      show "distinct (map fst (aStreams c'))" using d(1) by (simp add: c' AList.distinct_update)
      show "j < length (aObjs c') \<and> aId (aObjs c' ! j) = k" if "map_of (aStreams c') k = Some j" for k j
        using that d(2,3) [of k j] by (auto simp: c' AList.update_conv' nth_append split: if_splits)
      show "length (aRx (aObjs c' ! j)) \<le> agentReceiveQueueFrames" if "j < length (aObjs c')" for j
        using that d(4) [of j] by (auto simp: c' nth_append less_Suc_eq)
      show "map_of (aStreams c') (aId (aObjs c' ! j)) = Some j \<or> j \<in> set (aHeld c')"
        if "j < length (aObjs c')" "\<not> aClosed (aObjs c' ! j)" for j
        using that d(5) [of j] None by (auto simp: c' nth_append less_Suc_eq AList.update_conv' split: if_splits)
      show "j < length (aObjs c')" if "j \<in> set (aHeld c')" for j using that d(6) [of j] by (simp add: c')
    qed
  qed (use assms in \<open>auto simp: getOrCreateStream_def\<close>)
  show "r < length (aObjs c')" "map_of (aStreams c') i = Some r"
    using assms d(2) by (auto simp: getOrCreateStream_def Let_def AList.update_conv' split: option.splits)
qed

lemma agent_inv_step: "agent_step c c' \<Longrightarrow> agent_inv c \<Longrightarrow> agent_inv c'"
proof (induction rule: agent_step.induct)
  case (read_open c ident)
  then show ?case using agent_inv_getOrCreate(1) [of c ident] by (cases "getOrCreateStream c ident") auto
next
  case (read_deliver c r f pick)
  then show ?case by (auto simp: deliver_select_def Let_def intro: agent_inv_upd)
next
  case (poll r c f c')
  then show ?case
    using agent_invD(4) [of c r]
    by (auto simp: agent_poll_def split: list.splits intro!: agent_inv_upd)
next
  case (send c t ident p ok)
  then show ?case by (elim agent_inv_cong) simp_all
next
  case (read_end c)
  then show ?case by (elim agent_inv_cong) simp_all
next
  case (stopped r c)
  then show ?case by (intro agent_inv_upd) (auto dest: agent_invD(4))
qed (auto intro: agent_inv_close agent_inv_forget_take agent_inv_held_close agent_inv_closeAll_take)

lemma agent_inv_new: "agent_inv (newConnState mode)"
  by (simp add: agent_inv_def newConnState_def)

subsection \<open>The whole calls are runs of the steps\<close>

lemma forget_sel [simp]:
  "aStreams (agent_forgetStream c i) = AList.delete i (aStreams c)"
  "length (aObjs (agent_forgetStream c i)) = length (aObjs c)"
  "aReading (agent_forgetStream c i) = aReading c" "aWire (agent_forgetStream c i) = aWire c"
  "aHeld (agent_forgetStream c i) = aHeld c"
  by (simp_all add: agent_forgetStream_def astream_close_def Let_def split: option.splits)

lemma forget_obj:
  "j < length (aObjs c) \<Longrightarrow> aObjs (agent_forgetStream c i) ! j =
     (if map_of (aStreams c) i = Some j then (aObjs c ! j)\<lparr>aClosed := True\<rparr> else aObjs c ! j)"
  by (auto simp: agent_forgetStream_def astream_close_def Let_def nth_list_update split: option.splits)

lemma delete_absent: "map_of xs i = None \<Longrightarrow> AList.delete i xs = xs"
  by (simp add: AList.delete_eq map_of_eq_None_iff filter_id_conv) force

lemma forget_run:
  "agent_forgetStream c i =
     (case map_of (aStreams c) i of None \<Rightarrow> c | Some _ \<Rightarrow> held_close (forget_take c i) (length (aHeld c)))"
  by (auto simp: agent_forgetStream_def forget_take_def held_close_def astream_close_def updA_def delete_absent Let_def
      split: option.splits)

lemma agent_inv_forget: "agent_inv c \<Longrightarrow> agent_inv (agent_forgetStream c i)"
  unfolding forget_run
  by (auto split: option.splits intro!: agent_inv_held_close agent_inv_forget_take) (simp add: forget_take_def)

lemma steps_forget:
  assumes "r < length (aObjs c)"
  shows "agent_step\<^sup>*\<^sup>* c (agent_forgetStream c (aId (aObjs c ! r)))"
proof (cases "map_of (aStreams c) (aId (aObjs c ! r))")
  case (Some q)
  let ?d = "forget_take c (aId (aObjs c ! r))"
  have "length (aHeld c) < length (aHeld ?d)" using Some by (simp add: forget_take_def)
  then have "agent_step ?d (held_close ?d (length (aHeld c)))" by (rule agent_step.held)
  with agent_step.forget [OF assms] show ?thesis
    unfolding forget_run using Some by (simp add: converse_rtranclp_into_rtranclp)
qed (simp add: forget_run)

lemma agent_steps_deliver:
  assumes "aReading c" and "r < length (aObjs c)" and "aId (aObjs c ! r) = Stream f"
  shows "agent_step\<^sup>*\<^sup>* c (snd (deliverFrame pick ok c r f))"
proof (cases "length (aRx (aObjs c ! r)) < agentReceiveQueueFrames \<or> aClosed (aObjs c ! r)")
  case True
  then have "snd (deliverFrame pick ok c r f) = deliver_select pick c r f"
    by (auto simp: deliverFrame_def deliver_select_def Let_def)
  then show ?thesis using r_into_rtranclp [of agent_step, OF agent_step.read_deliver [OF assms]] by simp
next
  case False
  let ?d = "snd (agent_send c TRst (aId (aObjs c ! r)) (bytes_of ''stream rx overflow'') ok)"
  have "agent_step\<^sup>*\<^sup>* ?d (agent_forgetStream ?d (aId (aObjs ?d ! r)))" using assms(2) by (intro steps_forget) simp
  with agent_step.send have "agent_step\<^sup>*\<^sup>* c (agent_forgetStream ?d (aId (aObjs ?d ! r)))"
    by (rule converse_rtranclp_into_rtranclp)
  then show ?thesis using False by (simp add: deliverFrame_def Let_def)
qed

lemma agent_steps_readLoop_msg:
  assumes "agent_inv c" and "aReading c"
  shows "agent_step\<^sup>*\<^sup>* c (agent_readLoop_msg pick ok c mt msg)"
proof -
  have "agent_step\<^sup>*\<^sup>* c (snd (deliverFrame pick ok c1 r f))" if g: "getOrCreateStream c (Stream f) = (r, c1)" for f r c1
  proof -
    note i = agent_inv_getOrCreate [OF assms(1) g]
    have "aReading c1" using g assms(2) by (auto simp: getOrCreateStream_def Let_def split: option.splits)
    then have "agent_step\<^sup>*\<^sup>* c1 (snd (deliverFrame pick ok c1 r f))"
      using i agent_invD(3) [OF i(1,3)] by (intro agent_steps_deliver) auto
    moreover have "agent_step c c1" using agent_step.read_open [OF assms(2), of "Stream f"] g by simp
    ultimately show ?thesis by (rule converse_rtranclp_into_rtranclp [rotated])
  qed
  then show ?thesis by (auto simp: agent_readLoop_msg_def split: sum.splits prod.splits)
qed

lemma steps_exit:
  assumes "r < length (aObjs c)"
  shows "agent_step\<^sup>*\<^sup>* c (handler_exit c r)"
proof -
  have "agent_step (agent_forgetStream c (aId (aObjs c ! r))) (handler_exit c r)"
    unfolding handler_exit_def using assms by (intro agent_step.stopped) simp
  with steps_forget [OF assms] show ?thesis by (rule rtranclp.rtrancl_into_rtrancl)
qed

text \<open>The goroutines that hold streams can finish, one after the other.\<close>

lemma held_closes:
  assumes "aHeld c = rs @ h"
  shows "agent_step\<^sup>*\<^sup>* c (fold (\<lambda>r c. astream_close c r) rs (c\<lparr>aHeld := h\<rparr>))"
  using assms
proof (induction rs arbitrary: c)
  case (Cons r rs)
  let ?d = "held_close c 0"
  have d: "?d = astream_close (c\<lparr>aHeld := rs @ h\<rparr>) r" using Cons.prems by (simp add: held_close_def)
  have "agent_step c ?d" using Cons.prems by (intro agent_step.held) simp
  moreover have "agent_step\<^sup>*\<^sup>* ?d (fold (\<lambda>r c. astream_close c r) rs (?d\<lparr>aHeld := h\<rparr>))"
    by (rule Cons.IH) (simp add: d astream_close_sel)
  moreover have "?d\<lparr>aHeld := h\<rparr> = astream_close (c\<lparr>aHeld := h\<rparr>) r" by (simp add: d astream_close_def updA_def)
  ultimately show ?case by (simp add: converse_rtranclp_into_rtranclp)
next
  case Nil
  then have "c\<lparr>aHeld := h\<rparr> = c" by simp
  then show ?case by simp
qed

lemma steps_closeAll:
  assumes "\<not> aReading c" and "aHeld c = []"
  shows "agent_step\<^sup>*\<^sup>* c (closeAllStreams c)"
proof -
  have empty: "c\<lparr>aStreams := [], aHeld := []\<rparr> = c\<lparr>aStreams := []\<rparr>" using assms(2) by simp
  have "agent_step\<^sup>*\<^sup>* (closeAll_take c) (closeAllStreams c)"
    using held_closes [of "closeAll_take c" "map snd (aStreams c)" "[]"] assms(2)
    unfolding closeAll_take_def closeAllStreams_def by (simp add: empty)
  with agent_step.teardown [OF assms(1)] show ?thesis by (rule converse_rtranclp_into_rtranclp)
qed

lemma closes_obj:
  "j < length (aObjs c) \<Longrightarrow> aObjs (fold (\<lambda>r c. astream_close c r) rs c) ! j =
     (if j \<in> set rs then (aObjs c ! j)\<lparr>aClosed := True\<rparr> else aObjs c ! j)"
  by (induction rs arbitrary: c) (auto simp: astream_close_sel)

lemma closes_sel [simp]:
  "length (aObjs (fold (\<lambda>r c. astream_close c r) rs c)) = length (aObjs c)"
  "aStreams (fold (\<lambda>r c. astream_close c r) rs c) = aStreams c"
  "aReading (fold (\<lambda>r c. astream_close c r) rs c) = aReading c"
  "aHeld (fold (\<lambda>r c. astream_close c r) rs c) = aHeld c"
  by (induction rs arbitrary: c) (simp_all add: astream_close_def)

lemma agent_inv_deliver: "agent_inv c \<Longrightarrow> r < length (aObjs c) \<Longrightarrow> agent_inv (snd (deliverFrame pick ok c r f))"
proof -
  assume a: "agent_inv c" "r < length (aObjs c)"
  moreover have "agent_inv (agent_forgetStream (snd (agent_send c t i p ok)) i)" for t i p
    using a by (intro agent_inv_forget) (erule agent_inv_cong; simp)
  ultimately show ?thesis by (auto simp: deliverFrame_def Let_def intro: agent_inv_upd)
qed

interpretation agent_conn: safety agent_init agent_step agent_inv
  by unfold_locales (auto simp: agent_init_def agent_inv_new intro: agent_inv_step)

lemma agent_reach_inv: "agent_reach c \<Longrightarrow> agent_inv c"
  using agent_conn.reach_inv by (simp add: agent_conn.reach_def agent_reach_def)

text \<open>The receive queue of an agent stream satisfies the contract of bounded queues.\<close>

definition in_map :: "nat \<Rightarrow> connState \<Rightarrow> bool" where
  "in_map r c \<longleftrightarrow> r < length (aObjs c) \<and> (map_of (aStreams c) (aId (aObjs c ! r)) = Some r \<or> aClosed (aObjs c ! r))"

lemma deliver_obj:
  assumes "in_map r c"
  shows "in_map r (snd (deliverFrame b ok c r f))"
    and "\<not> aClosed (aObjs c ! r) \<Longrightarrow> \<not> length (aRx (aObjs c ! r)) < agentReceiveQueueFrames \<Longrightarrow>
      aObjs (snd (deliverFrame b ok c r f)) ! r = (aObjs c ! r)\<lparr>aClosed := True\<rparr>"
  using assms by (auto simp: in_map_def deliverFrame_def Let_def forget_obj)

interpretation agent_rx: bounded_rx agentReceiveQueueFrames "\<lambda>c. aRx (aObjs c ! r)"
  "\<lambda>c. aClosed (aObjs c ! r)" "\<lambda>c. agent_inv c \<and> in_map r c"
  "\<lambda>pick c f. snd (deliverFrame pick ok c r f)" "agent_poll r" for r ok
proof
  fix c :: connState and b f fs
  assume inv: "agent_inv c \<and> in_map r c"
  then have r: "r < length (aObjs c)" by (simp add: in_map_def)
  show "agent_inv (snd (deliverFrame b ok c r f)) \<and> in_map r (snd (deliverFrame b ok c r f))"
    using inv r by (simp add: agent_inv_deliver deliver_obj)
  show "length (aRx (aObjs c ! r)) \<le> agentReceiveQueueFrames" using inv r agent_invD(4) by blast
  show "aRx (aObjs (snd (deliverFrame b ok c r f)) ! r) = aRx (aObjs c ! r) @ [f] \<and>
      \<not> aClosed (aObjs (snd (deliverFrame b ok c r f)) ! r)"
    if "\<not> aClosed (aObjs c ! r)" "length (aRx (aObjs c ! r)) < agentReceiveQueueFrames"
    using that r by (simp add: deliverFrame_def)
  show "aRx (aObjs (snd (deliverFrame b ok c r f)) ! r) = aRx (aObjs c ! r) \<and>
      aClosed (aObjs (snd (deliverFrame b ok c r f)) ! r)"
    if "\<not> aClosed (aObjs c ! r)" "\<not> length (aRx (aObjs c ! r)) < agentReceiveQueueFrames"
    using that inv by (simp add: deliver_obj)
  show "aClosed (aObjs (snd (deliverFrame b ok c r f)) ! r) \<and>
      (aRx (aObjs (snd (deliverFrame b ok c r f)) ! r) = aRx (aObjs c ! r) \<or>
       length (aRx (aObjs c ! r)) < agentReceiveQueueFrames \<and>
       aRx (aObjs (snd (deliverFrame b ok c r f)) ! r) = aRx (aObjs c ! r) @ [f])"
    if "aClosed (aObjs c ! r)"
    using that r by (simp add: deliverFrame_def Let_def)
  show "\<exists>s'. agent_poll r c = Some (f, s') \<and> aRx (aObjs s' ! r) = fs \<and>
      aClosed (aObjs s' ! r) = aClosed (aObjs c ! r) \<and> agent_inv s' \<and> in_map r s'"
    if "aRx (aObjs c ! r) = f # fs"
    using that inv r agent_invD(4) [of c r] by (auto simp: agent_poll_def in_map_def intro!: agent_inv_upd)
qed (simp add: agent_poll_def)

text \<open>What the teardown establishes, and every later step keeps.\<close>

definition torn_down :: "nat \<Rightarrow> connState \<Rightarrow> bool" where
  "torn_down n c \<longleftrightarrow> \<not> aReading c \<and> aStreams c = [] \<and> length (aObjs c) = n \<and>
     (\<forall>r < n. aClosed (aObjs c ! r) \<or> r \<in> set (aHeld c))"

lemma torn_down_held:
  assumes "torn_down n c" and "i < length (aHeld c)"
  shows "torn_down n (held_close c i)"
proof -
  let ?r = "aHeld c ! i" and ?h = "take i (aHeld c) @ drop (Suc i) (aHeld c)"
  have "aHeld c = take i (aHeld c) @ ?r # drop (Suc i) (aHeld c)" using assms(2) by (simp add: id_take_nth_drop)
  then have "set (aHeld c) = insert ?r (set ?h)" by (metis Un_insert_right list.simps(15) set_append)
  then show ?thesis using assms(1) by (auto simp: torn_down_def held_close_def astream_close_sel)
qed

lemma torn_down_step: "agent_step c c' \<Longrightarrow> torn_down n c \<Longrightarrow> torn_down n c'"
proof (induction rule: agent_step.induct)
  case (poll r c f c')
  then show ?case by (auto simp: torn_down_def agent_poll_def nth_list_update split: list.splits)
next
  case (close r c)
  then show ?case by (auto simp: torn_down_def astream_close_sel)
next
  case (forget r c)
  then show ?case by (simp add: torn_down_def forget_take_def)
next
  case (held i c)
  then show ?case by (rule torn_down_held [rotated])
next
  case (stopped r c)
  then show ?case by (auto simp: torn_down_def nth_list_update)
qed (auto simp: torn_down_def closeAll_take_def)

lemma torn_down_steps: "agent_step\<^sup>*\<^sup>* c c' \<Longrightarrow> torn_down n c \<Longrightarrow> torn_down n c'"
  by (induction rule: rtranclp_induct) (auto intro: torn_down_step)

section \<open>Properties\<close>

text \<open>C9. The teardown of the agent's connection reaches every stream.  Once the read loop has ended and
  \<^verbatim>\<open>closeAllStreams\<close> has emptied the map, under any interleaving before and after, the map stays empty, no further
  stream is opened, and every stream that was ever opened is closed or in the hands of a goroutine that closes it
  next, be it \<^verbatim>\<open>closeAllStreams\<close> itself or a \<^verbatim>\<open>forgetStream\<close> that took it out before; these goroutines can finish
  from any such state, and when they have, every stream is closed, so every handler can end.
\<close>

theorem agent_teardown_complete:
  assumes "agent_reach c" and "\<not> aReading c" and "agent_step\<^sup>*\<^sup>* (closeAll_take c) c'"
  shows "length (aObjs c') = length (aObjs c) \<and> aStreams c' = [] \<and>
    (\<forall>r < length (aObjs c'). aClosed (aObjs c' ! r) \<or> r \<in> set (aHeld c')) \<and>
    (aHeld c' = [] \<longrightarrow> (\<forall>r < length (aObjs c'). aClosed (aObjs c' ! r))) \<and>
    (\<exists>c''. agent_step\<^sup>*\<^sup>* c' c'' \<and> aHeld c'' = [] \<and> (\<forall>r < length (aObjs c). aClosed (aObjs c'' ! r)))"
proof -
  have "torn_down (length (aObjs c)) (closeAll_take c)"
    using agent_invD(5) [OF agent_inv_closeAll_take [OF agent_reach_inv [OF assms(1)]]] assms(2)
    by (auto simp: torn_down_def closeAll_take_def)
  with torn_down_steps [OF assms(3)] have t: "torn_down (length (aObjs c)) c'" .
  let ?c = "fold (\<lambda>r c. astream_close c r) (aHeld c') (c'\<lparr>aHeld := []\<rparr>)"
  have s: "agent_step\<^sup>*\<^sup>* c' ?c" by (rule held_closes) simp
  moreover have "aHeld ?c = []" by simp
  moreover from this torn_down_steps [OF s t] have "\<forall>r < length (aObjs c). aClosed (aObjs ?c ! r)" by (simp add: torn_down_def)
  ultimately have "\<exists>c''. agent_step\<^sup>*\<^sup>* c' c'' \<and> aHeld c'' = [] \<and> (\<forall>r < length (aObjs c). aClosed (aObjs c'' ! r))" by blast
  with t show ?thesis by (auto simp: torn_down_def)
qed

theorem agent_teardown_complete_witness:
  "\<exists>c. agent_reach c \<and> length (aObjs c) = 1 \<and> \<not> aClosed (aObjs c ! 0) \<and> aHeld (closeAll_take c) = [0] \<and>
     (\<exists>c''. agent_step\<^sup>*\<^sup>* (closeAll_take c) c'' \<and> aClosed (aObjs c'' ! 0))"
proof -
  define c0 where "c0 = newConnState ProxyModeLegacyFramed"
  define c1 where "c1 = snd (getOrCreateStream c0 1)"
  define c where "c = c1\<lparr>aReading := False\<rparr>"
  have "agent_step c0 c1" unfolding c1_def by (rule agent_step.read_open) (simp add: c0_def newConnState_def)
  moreover have "agent_step c1 c" unfolding c_def by (rule agent_step.read_end)
  ultimately have "agent_step\<^sup>*\<^sup>* c0 c" by (meson converse_rtranclp_into_rtranclp rtranclp.rtrancl_refl)
  then have reach: "agent_reach c" unfolding agent_reach_def agent_init_def c0_def by blast
  have l: "length (aObjs c) = 1" "\<not> aClosed (aObjs c ! 0)" "aHeld (closeAll_take c) = [0]"
    by (simp_all add: c_def c1_def c0_def newConnState_def getOrCreateStream_def closeAll_take_def)
  have "\<exists>c''. agent_step\<^sup>*\<^sup>* (closeAll_take c) c'' \<and> aClosed (aObjs c'' ! 0)"
    using agent_teardown_complete [OF reach _ rtranclp.rtrancl_refl] l(1) by (auto simp: c_def)
  with reach l show ?thesis by blast
qed

text \<open>C12. Agent streams are bounded queues: a reachable connection never holds more than 128 frames for a stream, and
  as long as a stream stays open and in its map, the frames delivered are those its handler took followed by those
  queued.
\<close>

theorem agent_rx_fifo:
  assumes "agent_reach c" and "r < length (aObjs c)" and "r \<notin> set (aHeld c)" and "aRx (aObjs c ! r) = []"
    and "agent_rx.qrun ok r c evs = (got, c')"
  shows "(\<forall>q < length (aObjs c). length (aRx (aObjs c ! q)) \<le> 128) \<and>
    length (aRx (aObjs c' ! r)) \<le> 128 \<and> (aClosed (aObjs c' ! r) \<or> offered evs = got @ aRx (aObjs c' ! r))"
proof -
  have i: "agent_inv c" by (rule agent_reach_inv [OF assms(1)])
  then have inv: "agent_inv c \<and> in_map r c" using agent_invD(5) [OF i assms(2)] assms(2,3) by (auto simp: in_map_def)
  have "agent_inv c' \<and> in_map r c'" using agent_rx.qrun_invar [OF inv assms(5)] .
  then have "length (aRx (aObjs c' ! r)) \<le> 128"
    using agent_invD(4) [of c' r] by (simp add: agentReceiveQueueFrames_def in_map_def)
  then show ?thesis
    using agent_rx.qrun_fifo [OF inv assms(5)] assms(4) agent_invD(4) [OF i] by (auto simp: agentReceiveQueueFrames_def)
qed

theorem agent_rx_fifo_witness:
  "\<exists>c got c'. agent_reach c \<and>
     agent_rx.qrun True 0 c [Offer True \<lparr>Type = TReqData, Stream = 1, Payload = [1]\<rparr>, Take] = (got, c') \<and>
     [\<lparr>Type = TReqData, Stream = 1, Payload = [1]\<rparr>] = got @ aRx (aObjs c' ! 0)"
proof -
  let ?f = "\<lparr>Type = TReqData, Stream = 1, Payload = [1]\<rparr>"
  define c0 where "c0 = newConnState ProxyModeLegacyFramed"
  define c where "c = snd (getOrCreateStream c0 1)"
  have c: "aObjs c = [\<lparr>aId = 1, aRx = [], aClosed = False, aRunning = True\<rparr>]" "aHeld c = []"
    by (simp_all add: c_def c0_def newConnState_def getOrCreateStream_def)
  have "agent_step c0 c" unfolding c_def by (rule agent_step.read_open) (simp add: c0_def newConnState_def)
  then have reach: "agent_reach c" unfolding agent_reach_def agent_init_def c0_def by blast
  obtain got c' where run: "agent_rx.qrun True 0 c [Offer True ?f, Take] = (got, c')" by fastforce
  have "\<not> aClosed (aObjs c' ! 0)"
    using run [unfolded agent_rx.qrun.simps] c by (auto simp: deliverFrame_def agentReceiveQueueFrames_def agent_poll_def)
  with agent_rx_fifo [OF reach _ _ _ run] c have "[?f] = got @ aRx (aObjs c' ! 0)" by simp
  with reach run show ?thesis by blast
qed

end
