(* ===== verification/Agent_Http.thy ===== *)
theory Agent_Http
  imports Agent_Conn
begin

text \<open>
  \<^verbatim>\<open>handleHTTP\<close> of the agent: the request to the target is built from the head of the stream, a goroutine
  (the pump) feeds the body and the trailers from the stream's frames, and the response of the target goes
  back as frames.  The target is met through the HTTP client of the standard library; what it answers is an
  argument: its interim responses, then an error or a response with the reads of its body.
\<close>

section \<open>The request to the target\<close>

text \<open>\<^verbatim>\<open>http.NewRequestWithContext\<close>: the empty method is \<^verbatim>\<open>GET\<close>, any other has to be a token.\<close>

definition requestMethod :: "string \<Rightarrow> string option" where
  "requestMethod m =
     (if m = [] then Some ''GET'' else if list_all validHeaderFieldByte m then Some m else None)"

record upstream_req =
  qMethod :: string
  qURL :: URL
  qHost :: string
  qHeader :: header
  qContentLength :: int

text \<open>
  A new request has no trailer map; the trailer keys of the head install one with empty values.  The body is
  a pipe, so the length is unknown (0 with a body) unless a \<^verbatim>\<open>Content-Length\<close> is given.
\<close>

definition trailer_keys :: "string list \<Rightarrow> header" where
  "trailer_keys ks = fold (\<lambda>k h. hput h (canonicalHeaderKey k) []) ks []"

definition build_upstream :: "URL \<Rightarrow> ReqStart \<Rightarrow> string \<Rightarrow> upstream_req" where
  "build_upstream base rs meth =
     (let h = StripConnectionHeaders (CopyHeaders [] (Header rs));
          cl = hget h ''Content-Length''
      in \<lparr>qMethod = meth, qURL = (JoinURL base (Path rs))\<lparr>uRawQuery := RawQuery rs\<rparr>, qHost = Host rs,
          qHeader = (if TrailerKeys rs \<noteq> [] then hdel h ''Content-Length'' else h),
          qContentLength =
            (if TrailerKeys rs \<noteq> [] then -1
             else if cl \<noteq> [] then (case parseInt cl of Some n \<Rightarrow> if n \<ge> 0 then n else 0 | None \<Rightarrow> 0) else 0)\<rparr>)"

section \<open>The pump\<close>

text \<open>
  What the pump meets: a frame of the stream with the outcome of the write into the pipe, the closing of the
  stream, or the end of the request's context.
\<close>

datatype pump_event = PFrame Frame bool | PClosed | PCtxDone

record pump =
  pWritten :: bytes
  pTrailer :: "header option"
  pCancelled :: bool
  pEnded :: bool

definition pump_new :: pump where
  "pump_new = \<lparr>pWritten = [], pTrailer = None, pCancelled = False, pEnded = False\<rparr>"

definition pump_trailer :: "header option \<Rightarrow> bytes \<Rightarrow> header option" where
  "pump_trailer t payload =
     Some (fold (\<lambda>(k, vv) h. hput h (canonicalHeaderKey k) vv) (fst (unmarshal_header payload))
       (case t of None \<Rightarrow> [] | Some h \<Rightarrow> h))"

definition pump_frame :: "pump \<Rightarrow> Frame \<Rightarrow> bool \<Rightarrow> pump" where
  "pump_frame p f wok =
     (if Type f = TReqData then
        (if Payload f = [] then p
         else if wok then p\<lparr>pWritten := pWritten p @ Payload f\<rparr>
         else p\<lparr>pCancelled := True, pEnded := True\<rparr>)
      else if Type f = TReqTrailer then p\<lparr>pTrailer := pump_trailer (pTrailer p) (Payload f)\<rparr>
      else if Type f = TReqEnd then p\<lparr>pEnded := True\<rparr>
      else if Type f = TRst then p\<lparr>pCancelled := True, pEnded := True\<rparr>
      else p)"

fun body_pump :: "pump \<Rightarrow> pump_event list \<Rightarrow> pump" where
  "body_pump p [] = p"
| "body_pump p (ev # evs) =
     (if pEnded p then p
      else body_pump
        (case ev of
           PFrame f wok \<Rightarrow> pump_frame p f wok
         | PClosed \<Rightarrow> p\<lparr>pCancelled := True, pEnded := True\<rparr>
         | PCtxDone \<Rightarrow> p\<lparr>pEnded := True\<rparr>) evs)"

text \<open>
  The pump starts before the handler installs the trailer keys: \<open>early\<close> are the events it handles before that
  assignment, \<open>late\<close> those after it.
\<close>

definition request_pump :: "ReqStart \<Rightarrow> pump_event list \<Rightarrow> pump_event list \<Rightarrow> pump" where
  "request_pump rs early late =
     (let p = body_pump pump_new early
      in body_pump (if TrailerKeys rs \<noteq> [] then p\<lparr>pTrailer := Some (trailer_keys (TrailerKeys rs))\<rparr> else p) late)"

section \<open>The response of the target\<close>

record response =
  pStatus :: int
  pHeader :: header
  pTrailerKeys :: header
  pReads :: reads
  pTrailers :: header

type_synonym asent = "(byte \<times> bytes) list"

text \<open>A send to the gateway: \<open>oks n\<close> is the outcome of the send number \<open>n\<close>.\<close>

definition a_send :: "(nat \<Rightarrow> bool) \<Rightarrow> nat \<times> asent \<Rightarrow> byte \<Rightarrow> bytes \<Rightarrow> bool \<times> nat \<times> asent" where
  "a_send oks x t p = (case x of (n, sent) \<Rightarrow> (oks n, Suc n, if oks n then sent @ [(t, p)] else sent))"

definition interim_start :: "int \<times> header \<Rightarrow> ResStart" where
  "interim_start x =
     \<lparr>Status = fst x, ResHeader = StripConnectionHeaders (snd x), ResTrailerKeys = [], Interim = True\<rparr>"

definition send_interims :: "(nat \<Rightarrow> bool) \<Rightarrow> (int \<times> header) list \<Rightarrow> nat \<times> asent \<Rightarrow> nat \<times> asent" where
  "send_interims oks = fold (\<lambda>i x. snd (a_send oks x TResStart (MustJSON (ResStart_json (interim_start i)))))"

definition response_start :: "response \<Rightarrow> ResStart" where
  "response_start resp =
     \<lparr>Status = pStatus resp, ResHeader = StripConnectionHeaders (pHeader resp),
      ResTrailerKeys = HeaderKeys (pTrailerKeys resp), Interim = False\<rparr>"

fun send_body :: "(nat \<Rightarrow> bool) \<Rightarrow> reads \<Rightarrow> nat \<times> asent \<Rightarrow> body_result \<times> nat \<times> asent" where
  "send_body oks [] x = (BodyWaiting, x)"
| "send_body oks ((d, err) # rs) x =
     (let (ok, x1) = (if d \<noteq> [] then a_send oks x TResData d else (True, x))
      in if \<not> ok then (BodyStopped, x1)
         else case err of None \<Rightarrow> send_body oks rs x1 | Some _ \<Rightarrow> (BodyDone, x1))"

definition send_response :: "(nat \<Rightarrow> bool) \<Rightarrow> response \<Rightarrow> nat \<times> asent \<Rightarrow> body_result \<times> nat \<times> asent" where
  "send_response oks resp x =
     (case a_send oks x TResStart (MustJSON (ResStart_json (response_start resp))) of
        (False, x1) \<Rightarrow> (BodyStopped, x1)
      | (True, x1) \<Rightarrow>
          (case send_body oks (pReads resp) x1 of
             (BodyDone, x2) \<Rightarrow>
               (case (if pTrailers resp \<noteq> []
                      then a_send oks x2 TResTrailer (MustJSON (header_json (pTrailers resp))) else (True, x2)) of
                  (False, x3) \<Rightarrow> (BodyStopped, x3)
                | (True, x3) \<Rightarrow> (BodyDone, snd (a_send oks x3 TResEnd [])))
           | other \<Rightarrow> other))"

text \<open>\<open>answer\<close>: what \<^verbatim>\<open>httpClient.Do\<close> yields for the request.  The handler then waits for the pump to end.\<close>

definition bad_gateway :: ResStart where
  "bad_gateway = \<lparr>Status = 502, ResHeader = [], ResTrailerKeys = [], Interim = False\<rparr>"

definition agent_handleHTTP ::
  "URL \<Rightarrow> ReqStart \<Rightarrow> (upstream_req \<Rightarrow> (int \<times> header) list \<times> (string + response)) \<Rightarrow> (nat \<Rightarrow> bool) \<Rightarrow> body_result \<times> asent" where
  "agent_handleHTTP base rs answer oks =
     (case requestMethod (Method rs) of
        None \<Rightarrow> (BodyStopped, snd (snd (a_send oks (0, []) TRst (bytes_of ''bad request''))))
      | Some meth \<Rightarrow>
          (case answer (build_upstream base rs meth) of
             (interims, Inl _) \<Rightarrow>
               (let x1 = send_interims oks interims (0, []);
                    x2 = snd (a_send oks x1 TResStart (MustJSON (ResStart_json bad_gateway)))
                in (BodyDone, snd (snd (a_send oks x2 TResEnd []))))
           | (interims, Inr resp) \<Rightarrow>
               apsnd snd (send_response oks resp (send_interims oks interims (0, [])))))"

section \<open>Lemmas\<close>

subsection \<open>The pump\<close>

lemma body_pump_ended [simp]: "pEnded p \<Longrightarrow> body_pump p evs = p"
  by (cases evs) simp_all

lemma body_pump_append: "body_pump p (xs @ ys) = body_pump (body_pump p xs) ys"
  by (induction p xs rule: body_pump.induct) auto

definition data_events :: "bytes list \<Rightarrow> u32 \<Rightarrow> pump_event list" where
  "data_events cs i = map (\<lambda>d. PFrame \<lparr>Type = TReqData, Stream = i, Payload = d\<rparr> True) cs"

lemma body_pump_data:
  "\<not> pEnded p \<Longrightarrow> body_pump p (data_events cs i) = p\<lparr>pWritten := pWritten p @ concat cs\<rparr>"
  by (induction cs arbitrary: p) (auto simp: data_events_def pump_frame_def)

lemma pump_types [simp]:
  "TReqEnd \<noteq> TReqData" "TReqEnd \<noteq> TReqTrailer" "TRst \<noteq> TReqData" "TRst \<noteq> TReqTrailer" "TRst \<noteq> TReqEnd"
  "TReqTrailer \<noteq> TReqData"
  by (simp_all add: frame_types)

subsection \<open>The response\<close>

lemma a_send_ok: "oks n \<Longrightarrow> a_send oks (n, sent) t p = (True, Suc n, sent @ [(t, p)])"
  by (simp add: a_send_def)

lemma send_body_complete:
  assumes "\<forall>i. oks i" and "read_to_end rs err"
  shows "send_body oks rs (n, sent) = (BodyDone, n + length (chunks rs), sent @ map (Pair TResData) (chunks rs))"
  using assms(2)
proof (induction rs arbitrary: n sent)
  case (Cons x rs)
  obtain d er where x: "x = (d, er)" by (cases x)
  show ?case
  proof (cases "rs = []")
    case True
    with Cons.prems x have "er = Some err" by (simp add: read_to_end_Cons)
    with True x assms(1) show ?thesis by (auto simp: a_send_ok chunks_Cons chunks_def)
  next
    case False
    with Cons.prems x have "er = None" "read_to_end rs err" by (simp_all add: read_to_end_Cons)
    with Cons.IH x assms(1) show ?thesis by (auto simp: a_send_ok chunks_Cons)
  qed
qed (simp add: read_to_end_def)

lemma send_interims_all:
  "\<forall>i. oks i \<Longrightarrow> send_interims oks is (n, sent) =
     (n + length is, sent @ map (\<lambda>i. (TResStart, MustJSON (ResStart_json (interim_start i)))) is)"
  unfolding send_interims_def by (induction "is" arbitrary: n sent) (auto simp: a_send_ok)

lemma agent_handleHTTP_response:
  assumes "requestMethod (Method rs) = Some meth" and "\<forall>i. oks i"
    and "answer (build_upstream base rs meth) = (interims, Inr resp)" and "read_to_end (pReads resp) err"
  shows "agent_handleHTTP base rs answer oks =
    (BodyDone, map (\<lambda>i. (TResStart, MustJSON (ResStart_json (interim_start i)))) interims @
       [(TResStart, MustJSON (ResStart_json (response_start resp)))] @ map (Pair TResData) (chunks (pReads resp)) @
       (if pTrailers resp \<noteq> [] then [(TResTrailer, MustJSON (header_json (pTrailers resp)))] else []) @ [(TResEnd, [])])"
  using assms
  by (simp add: agent_handleHTTP_def send_interims_all send_response_def a_send_ok send_body_complete [OF assms(2,4)])

subsection \<open>The end of the pump\<close>

definition pump_stop :: "pump_event \<Rightarrow> bool" where
  "pump_stop ev =
     (case ev of
        PFrame f wok \<Rightarrow> Type f = TReqEnd \<or> Type f = TRst \<or> Type f = TReqData \<and> Payload f \<noteq> [] \<and> \<not> wok
      | _ \<Rightarrow> True)"

lemma body_pump_stops: "pEnded (body_pump p evs) \<longleftrightarrow> pEnded p \<or> (\<exists>ev \<in> set evs. pump_stop ev)"
proof (induction evs arbitrary: p)
  case (Cons ev evs)
  have "pEnded (pump_frame p f wok) \<longleftrightarrow> pEnded p \<or> pump_stop (PFrame f wok)" for f wok
    by (auto simp: pump_frame_def pump_stop_def)
  then show ?case using Cons by (cases ev) (auto simp: pump_stop_def)
qed simp

definition build_head :: "string \<Rightarrow> ReqStart" where
  "build_head m = \<lparr>Method = m, Path = ''/'', RawQuery = [], Host = [], Header = [], TrailerKeys = [], IsWebSocket = False\<rparr>"

section \<open>Properties\<close>

text \<open>C25. The handler's final wait for the body goroutine ends, and when.  The goroutine ends exactly if it meets the end of
  the request, a reset, a failed write to the upstream body, the closing of the stream or the end of the request's
  context; both sides close the stream at the end of a session, so it always does.  Once it has ended nothing more is
  read: a reset that the gateway sends because the client went away after its request was complete does not cancel
  the request to the target, however long the response still takes.  And a reset before the end of the request ends
  the body the way a complete request does, with the same bytes written and no error on the pipe.\<close>

theorem agent_pump_ends:
  fixes i :: u32
  defines "fin \<equiv> PFrame \<lparr>Type = TReqEnd, Stream = i, Payload = []\<rparr> True"
    and "rst \<equiv> PFrame \<lparr>Type = TRst, Stream = i, Payload = bytes_of ''client canceled''\<rparr> True"
  shows "(pEnded (request_pump rs early late) \<longleftrightarrow> (\<exists>ev \<in> set (early @ late). pump_stop ev)) \<and>
    (pEnded (request_pump rs early late) \<longrightarrow> request_pump rs early (late @ rest) = request_pump rs early late) \<and>
    pWritten (request_pump rs early (late @ [rst])) = pWritten (request_pump rs early (late @ [fin])) \<and>
    \<not> pCancelled (request_pump rs [] [fin, rst])"
proof (intro conjI impI)
  show ends: "pEnded (request_pump rs early late) \<longleftrightarrow> (\<exists>ev \<in> set (early @ late). pump_stop ev)"
    by (auto simp: request_pump_def Let_def body_pump_stops pump_new_def)
  show "request_pump rs early (late @ rest) = request_pump rs early late" if "pEnded (request_pump rs early late)"
    using that by (simp add: request_pump_def Let_def body_pump_append body_pump_ended)
  show "pWritten (request_pump rs early (late @ [rst])) = pWritten (request_pump rs early (late @ [fin]))"
    by (simp add: request_pump_def Let_def body_pump_append fin_def rst_def pump_frame_def)
  show "\<not> pCancelled (request_pump rs [] [fin, rst])"
    by (simp add: request_pump_def Let_def fin_def rst_def pump_frame_def pump_new_def)
qed

theorem agent_pump_ends_witness:
  "request_pump (build_head ''GET'') [] [PClosed, PCtxDone] = request_pump (build_head ''GET'') [] [PClosed]"
proof -
  have "pEnded (request_pump (build_head ''GET'') [] [PClosed])" by (simp add: request_pump_def build_head_def pump_new_def)
  with agent_pump_ends [of "build_head ''GET''" "[]" "[PClosed]" "[PCtxDone]"] show ?thesis by simp
qed

end
