(* ===== verification/Go_UrlText.thy ===== *)
theory Go_UrlText
  imports Go_Url Go_Query
begin

text \<open>
  The textual form of URL paths in \<^verbatim>\<open>net/url\<close>: escaping and unescaping of paths, \<^verbatim>\<open>EscapedPath\<close> and
  \<^verbatim>\<open>RequestURI\<close>.
\<close>

section \<open>Definitions\<close>

definition path_plain :: "char \<Rightarrow> bool" where
  "path_plain c \<longleftrightarrow> unreserved c \<or> c \<in> set ''$&+,/:;=@''"

fun escapePath :: "string \<Rightarrow> string" where
  "escapePath [] = []"
| "escapePath (c # s) =
     (if path_plain c then c # escapePath s
      else CHR ''%'' # hex_digit (ord_of c div 16) # hex_digit (ord_of c mod 16) # escapePath s)"

fun pathUnescape :: "string \<Rightarrow> string option" where
  "pathUnescape [] = Some []"
| "pathUnescape (c # s) =
     (if c = CHR ''%'' then
        (case s of
           a # b # r \<Rightarrow>
             if is_hex a \<and> is_hex b then map_option ((#) (char_of (16 * unhex a + unhex b))) (pathUnescape r) else None
         | _ \<Rightarrow> None)
      else map_option ((#) c) (pathUnescape s))"

definition validEncodedPath :: "string \<Rightarrow> bool" where
  "validEncodedPath s = list_all (\<lambda>c. path_plain c \<or> c \<in> set (CHR 0x27 # ''!()*[]%'')) s"

definition EscapedPath :: "URL \<Rightarrow> string" where
  "EscapedPath u =
     (if uRawPath u \<noteq> [] \<and> validEncodedPath (uRawPath u) \<and> pathUnescape (uRawPath u) = Some (uPath u)
      then uRawPath u
      else if uPath u = ''*'' then ''*'' else escapePath (uPath u))"

definition RequestURI :: "URL \<Rightarrow> string" where
  "RequestURI u =
     (let p = EscapedPath u;
          r = (if uOpaque u = [] then (if p = [] then ''/'' else p)
               else if hasPrefix (uOpaque u) ''//'' then uScheme u @ '':'' @ uOpaque u
               else uOpaque u)
      in if uForceQuery u \<or> uRawQuery u \<noteq> [] then r @ ''?'' @ uRawQuery u else r)"

section \<open>Lemmas\<close>

lemma pathUnescape_escapePath: "pathUnescape (escapePath s) = Some s"
proof (induction s)
  case (Cons c s)
  have "is_hex (hex_digit (ord_of c div 16))" "is_hex (hex_digit (ord_of c mod 16))"
    "char_of (16 * unhex (hex_digit (ord_of c div 16)) + unhex (hex_digit (ord_of c mod 16))) = c"
    using ord_nibbles [of c] by (simp_all add: is_hex_digit unhex_digit)
  moreover have "\<not> path_plain CHR ''%''" by code_simp
  ultimately show ?case using Cons by auto
qed simp

text \<open>Escaped paths consist of printable characters without white space.\<close>

lemma hex_digit_graphic: "n < 16 \<Longrightarrow> 33 \<le> ord_of (hex_digit n) \<and> ord_of (hex_digit n) < 127"
  using is_hex_digit [of n] by (auto simp: is_hex_def is_digit_def)

lemma path_plain_graphic: "path_plain c \<Longrightarrow> 33 \<le> ord_of c \<and> ord_of c < 127"
  by (auto simp: path_plain_def unreserved_def is_upper_def is_lower_def is_digit_def)

lemma escapePath_graphic: "c \<in> set (escapePath s) \<Longrightarrow> 33 \<le> ord_of c \<and> ord_of c < 127"
proof (induction s)
  case (Cons d s)
  then show ?case
    using hex_digit_graphic [OF ord_nibbles(1) [of d]] hex_digit_graphic [OF ord_nibbles(2) [of d]] path_plain_graphic [of d]
    by (auto split: if_splits)
qed simp

lemma EscapedPath_graphic: "c \<in> set (EscapedPath u) \<Longrightarrow> 33 \<le> ord_of c \<and> ord_of c < 127"
  using escapePath_graphic path_plain_graphic
  by (auto simp: EscapedPath_def validEncodedPath_def list_all_iff split: if_splits)

end
