(* ===== verification/Agent_Ws.thy ===== *)
theory Agent_Ws
  imports Agent_Conn Go_UrlText
begin

text \<open>
  The WebSocket handlers of the agent: the choice of the handler, the opening of the connection to the target
  (a WebSocket dial, a TCP dial or a raw upgrade over a plain connection), and the three relays.  What the
  dials yield is an argument.  A relay is a record of what was sent in both directions, and an event is what
  one of its two goroutines does between two synchronisation points, as on the gateway's side; a list of
  events is one interleaving.
\<close>

section \<open>Choice of the handler\<close>

datatype ws_handler = ToTCP | ToTCPTransparent | ToWebSocket | ToRawWebSocket | Unsupported

definition handleWebSocket_target :: "URL \<Rightarrow> ws_handler" where
  "handleWebSocket_target base = (if isTCPTarget (Some base) then ToTCP else ToWebSocket)"

definition handleWebSocketTransparent :: "string \<Rightarrow> URL \<Rightarrow> ws_handler" where
  "handleWebSocketTransparent kind base =
     (if isTCPTarget (Some base) then ToTCPTransparent
      else if isWebSocketTarget (Some base) then
        (if \<not> shouldUseRawTransparentWS kind then handleWebSocket_target base else ToRawWebSocket)
      else Unsupported)"

section \<open>Opening\<close>

text \<open>
  The first answer to the gateway, and whether the relay starts (the answer was sent and is not an error).
  \<open>ok\<close> is the outcome of the send.
\<close>

definition open_err :: "string \<Rightarrow> byte \<times> bytes" where
  "open_err msg = (TWsOpenErr, MustJSON (WsOpenErr_json \<lparr>Message = msg\<rparr>))"

definition open_ok :: "string \<Rightarrow> string \<Rightarrow> string list \<Rightarrow> byte \<times> bytes" where
  "open_ok sub mode exts =
     (TWsOpenOK, MustJSON (WsOpenOK_json \<lparr>Subprotocol = sub, RelayMode = mode, Extensions = exts\<rparr>))"

text \<open>The WebSocket dial: the URL and the header of the handshake; \<open>dial\<close> yields the subprotocol.\<close>

definition ws_dial_url :: "URL \<Rightarrow> ReqStart \<Rightarrow> URL" where
  "ws_dial_url base rs = ToWebSocketURL ((JoinURL base (Path rs))\<lparr>uRawQuery := RawQuery rs\<rparr>)"

definition ws_dial_header :: "ReqStart \<Rightarrow> header" where
  "ws_dial_header rs =
     (let h = CopyHeadersForWebSocket [] (Header rs) in if Host rs \<noteq> [] then hset h ''Host'' (Host rs) else h)"

definition open_websocket :: "URL \<Rightarrow> ReqStart \<Rightarrow> (URL \<Rightarrow> header \<Rightarrow> string result) \<Rightarrow> (byte \<times> bytes)" where
  "open_websocket base rs dial =
     (case dial (ws_dial_url base rs) (ws_dial_header rs) of
        Inl err \<Rightarrow> open_err err
      | Inr sub \<Rightarrow> open_ok sub WsRelayModeFramed [])"

definition handleWebSocketToTCP_open :: "URL \<Rightarrow> (string \<Rightarrow> unit result) \<Rightarrow> (byte \<times> bytes)" where
  "handleWebSocketToTCP_open base dial =
     (let addr = trimSpace (uHost base)
      in if addr = [] then open_err ''invalid tcp target: empty host''
         else case dial addr of Inl err \<Rightarrow> open_err err | Inr _ \<Rightarrow> open_ok [] WsRelayModeFramed [])"

definition handleWebSocketToTCPTransparent_open :: "URL \<Rightarrow> (string \<Rightarrow> unit result) \<Rightarrow> (byte \<times> bytes)" where
  "handleWebSocketToTCPTransparent_open base dial =
     (let addr = trimSpace (uHost base)
      in if addr = [] then open_err ''invalid tcp target: empty host''
         else case dial addr of Inl err \<Rightarrow> open_err err | Inr _ \<Rightarrow> open_ok [] WsRelayModeFramed [])"

subsection \<open>The raw upgrade\<close>

definition header_lines :: "header \<Rightarrow> string list" where
  "header_lines h =
     concat (map (\<lambda>(k, vv).
       if equalFold k ''Host'' then [] else map (\<lambda>v. canonicalHeaderKey k @ '': '' @ v @ crlf) vv) h)"

definition raw_method :: "ReqStart \<Rightarrow> string" where
  "raw_method rs = (let m = trimSpace (Method rs) in if m = [] then ''GET'' else m)"

definition raw_host :: "URL \<Rightarrow> ReqStart \<Rightarrow> string" where
  "raw_host target rs = (let h = trimSpace (Host rs) in if h = [] then uHost target else h)"

definition raw_request :: "URL \<Rightarrow> ReqStart \<Rightarrow> string" where
  "raw_request target rs =
     raw_method rs @ '' '' @ RequestURI target @ '' HTTP/1.1'' @ crlf @ ''Host: '' @ raw_host target rs @ crlf @
     concat (header_lines (Header rs)) @ crlf"

text \<open>
  \<open>dial\<close> connects (with TLS when its first argument says so), \<open>exchange\<close> writes the request text and reads
  the response: its status code, status text, body (of at most 1024 bytes) and header.
\<close>

record raw_response =
  rrCode :: int
  rrStatus :: string
  rrBody :: string
  rrHeader :: header

definition dialWebSocketUpstreamRaw ::
  "URL option \<Rightarrow> ReqStart \<Rightarrow> (bool \<Rightarrow> string \<Rightarrow> unit result) \<Rightarrow> (string \<Rightarrow> raw_response result) \<Rightarrow>
   (string \<times> string list) result" where
  "dialWebSocketUpstreamRaw target rs dial exchange =
     (case target of
        None \<Rightarrow> Inl ''invalid websocket target: nil''
      | Some u \<Rightarrow>
          (let addr = trimSpace (uHost u); scheme = toLower (trimSpace (uScheme u))
           in if addr = [] then Inl ''invalid websocket target: empty host''
              else if scheme \<noteq> ''ws'' \<and> scheme \<noteq> ''wss'' then Inl ''unsupported websocket scheme''
              else case dial (scheme = ''wss'') addr of
                Inl err \<Rightarrow> Inl err
              | Inr _ \<Rightarrow>
                  (case exchange (raw_request u rs) of
                     Inl err \<Rightarrow> Inl err
                   | Inr resp \<Rightarrow>
                       if rrCode resp \<noteq> 101 then
                         (let msg = trimSpace (rrBody resp)
                          in Inl (''upstream handshake failed: '' @ (if msg = [] then rrStatus resp else msg)))
                       else Inr (trimSpace (hget (rrHeader resp) ''Sec-WebSocket-Protocol''),
                                 hvalues (rrHeader resp) ''Sec-WebSocket-Extensions''))))"

definition handleWebSocketToWSTransparent_open ::
  "URL \<Rightarrow> ReqStart \<Rightarrow> (bool \<Rightarrow> string \<Rightarrow> unit result) \<Rightarrow> (string \<Rightarrow> raw_response result) \<Rightarrow> (byte \<times> bytes)" where
  "handleWebSocketToWSTransparent_open base rs dial exchange =
     (case dialWebSocketUpstreamRaw (Some ((JoinURL base (Path rs))\<lparr>uRawQuery := RawQuery rs\<rparr>)) rs dial exchange of
        Inl err \<Rightarrow> open_err err
      | Inr (sub, exts) \<Rightarrow> open_ok sub WsRelayModeRaw exts)"

text \<open>The answer of a handler to the gateway.\<close>

definition open_answer ::
  "ws_handler \<Rightarrow> URL \<Rightarrow> ReqStart \<Rightarrow> (URL \<Rightarrow> header \<Rightarrow> string result) \<Rightarrow> (bool \<Rightarrow> string \<Rightarrow> unit result) \<Rightarrow>
   (string \<Rightarrow> raw_response result) \<Rightarrow> (byte \<times> bytes)" where
  "open_answer h base rs wsdial dial exchange =
     (case h of
        ToTCP \<Rightarrow> handleWebSocketToTCP_open base (dial False)
      | ToTCPTransparent \<Rightarrow> handleWebSocketToTCPTransparent_open base (dial False)
      | ToWebSocket \<Rightarrow> open_websocket base rs wsdial
      | ToRawWebSocket \<Rightarrow> handleWebSocketToWSTransparent_open base rs dial exchange
      | Unsupported \<Rightarrow> open_err ''transparent mode supports only tcp/ws/wss target'')"

section \<open>Relaying\<close>

record awr =
  wSent :: "(byte \<times> bytes) list"
  wUp :: "wsmsg list"
  wOnce :: bool
  wClosed :: bool
  wReader :: bool
  wMain :: bool
  wBuffered :: bool

definition awr_new :: awr where
  "awr_new = \<lparr>wSent = [], wUp = [], wOnce = False, wClosed = False, wReader = True, wMain = True, wBuffered = True\<rparr>"

definition aw_send :: "awr \<Rightarrow> byte \<Rightarrow> bytes \<Rightarrow> bool \<Rightarrow> bool \<times> awr" where
  "aw_send x t p ok = (if ok then (True, x\<lparr>wSent := wSent x @ [(t, p)]\<rparr>) else (False, x))"

definition sendCloseToGateway :: "awr \<Rightarrow> int \<Rightarrow> string \<Rightarrow> bool \<Rightarrow> awr" where
  "sendCloseToGateway x code reason ok =
     (if wOnce x then x
      else (snd (aw_send x TWsClose (MustJSON (WsClose_json \<lparr>Code = code, Reason = reason\<rparr>)) ok))
        \<lparr>wOnce := True, wClosed := True\<rparr>)"

subsection \<open>Framed relay to a WebSocket target\<close>

definition up_msg :: "awr \<Rightarrow> int \<Rightarrow> bytes \<Rightarrow> bool \<Rightarrow> awr" where
  "up_msg x mt data ok =
     (if \<not> data_message mt then x
      else case aw_send x TWsA2C (ws_payload mt data) ok of
        (True, x1) \<Rightarrow> x1
      | (False, x1) \<Rightarrow> x1\<lparr>wReader := False\<rparr>)"

definition up_err :: "awr \<Rightarrow> ioerr \<Rightarrow> bool \<Rightarrow> awr" where
  "up_err x err ok =
     (case CloseFromErr (Some err) of
        (code, reason, True) \<Rightarrow> sendCloseToGateway x code reason ok
      | _ \<Rightarrow> sendCloseToGateway x CloseGoingAway ''upstream closed'' ok)\<lparr>wReader := False\<rparr>"

definition gw_frame :: "awr \<Rightarrow> Frame \<Rightarrow> ioerr option \<Rightarrow> bool \<Rightarrow> awr" where
  "gw_frame x f werr ok =
     (if Type f = TWsC2A then
        (if Payload f = [] then x
         else case werr of
           None \<Rightarrow> x\<lparr>wUp := wUp x @ [WMsg (uint (hd (Payload f))) (tl (Payload f))]\<rparr>
         | Some er \<Rightarrow>
             (case CloseFromErr (Some er) of
                (code, reason, True) \<Rightarrow> sendCloseToGateway x code reason ok
              | _ \<Rightarrow> sendCloseToGateway x CloseGoingAway ''upstream write failed'' ok)\<lparr>wMain := False\<rparr>)
      else if Type f = TWsClose then
        (let c = fst (unmarshal_WsClose (Payload f))
         in x\<lparr>wUp := wUp x @ [WCloseMsg (SanitizeCloseCode (Code c)) (Reason c)], wMain := False\<rparr>)
      else if Type f = TRst then x\<lparr>wMain := False\<rparr>
      else x)"

datatype aevent =
    AvUpMsg int bytes bool
  | AvUpErr ioerr bool
  | AvFrame Frame "ioerr option" bool
  | AvClosed
  | AvCtxDone

fun agent_framed_step :: "awr \<Rightarrow> aevent \<Rightarrow> awr" where
  "agent_framed_step x (AvUpMsg mt data ok) = (if wReader x then up_msg x mt data ok else x)"
| "agent_framed_step x (AvUpErr err ok) = (if wReader x then up_err x err ok else x)"
| "agent_framed_step x (AvFrame f werr ok) = (if wMain x then gw_frame x f werr ok else x)"
| "agent_framed_step x AvClosed = (if wMain x \<and> wClosed x then x\<lparr>wMain := False\<rparr> else x)"
| "agent_framed_step x AvCtxDone = x\<lparr>wMain := False\<rparr>"

definition agent_framed_run :: "aevent list \<Rightarrow> awr" where
  "agent_framed_run evs = fold (\<lambda>ev x. agent_framed_step x ev) evs awr_new"

subsection \<open>Relay to a TCP target\<close>

text \<open>
  Both TCP handlers have this relay.  One turn of the reader: the bytes read, the error of the read, the
  outcome of the send of the bytes and of the close.
\<close>

definition tcp_read :: "awr \<Rightarrow> bytes \<Rightarrow> ioerr option \<Rightarrow> bool \<Rightarrow> bool \<Rightarrow> awr" where
  "tcp_read x d err ok ok2 =
     (case (if d \<noteq> [] then aw_send x TWsA2C (ws_payload BinaryMessage d) ok else (True, x)) of
        (False, x1) \<Rightarrow> x1\<lparr>wReader := False\<rparr>
      | (True, x1) \<Rightarrow>
          (case err of
             None \<Rightarrow> x1
           | Some EOF \<Rightarrow> (sendCloseToGateway x1 CloseNormalClosure ''upstream tcp closed'' ok2)\<lparr>wReader := False\<rparr>
           | Some ErrClosed \<Rightarrow> x1\<lparr>wReader := False\<rparr>
           | Some _ \<Rightarrow> (sendCloseToGateway x1 CloseGoingAway ''upstream tcp read failed'' ok2)\<lparr>wReader := False\<rparr>))"

definition tcp_frame :: "awr \<Rightarrow> Frame \<Rightarrow> bool \<Rightarrow> bool \<Rightarrow> awr" where
  "tcp_frame x f wok ok =
     (if Type f = TWsC2A then
        (if length (Payload f) \<le> 1 then x
         else if wok then x\<lparr>wUp := wUp x @ [WRaw (tl (Payload f))]\<rparr>
         else (sendCloseToGateway x CloseGoingAway ''upstream tcp write failed'' ok)\<lparr>wMain := False\<rparr>)
      else if Type f = TWsClose \<or> Type f = TRst then x\<lparr>wMain := False\<rparr>
      else x)"

datatype tcpevent =
    TvRead bytes "ioerr option" bool bool
  | TvFrame Frame bool bool
  | TvClosed
  | TvCtxDone

fun tcp_step :: "awr \<Rightarrow> tcpevent \<Rightarrow> awr" where
  "tcp_step x (TvRead d err ok ok2) = (if wReader x then tcp_read x d err ok ok2 else x)"
| "tcp_step x (TvFrame f wok ok) = (if wMain x then tcp_frame x f wok ok else x)"
| "tcp_step x TvClosed = (if wMain x \<and> wClosed x then x\<lparr>wMain := False\<rparr> else x)"
| "tcp_step x TvCtxDone = x\<lparr>wMain := False\<rparr>"

definition tcp_run :: "tcpevent list \<Rightarrow> awr" where
  "tcp_run evs = fold (\<lambda>ev x. tcp_step x ev) evs awr_new"

subsection \<open>Raw relay\<close>

definition agent_closeStream :: "awr \<Rightarrow> string \<Rightarrow> bool \<Rightarrow> awr" where
  "agent_closeStream x reason ok =
     (if wOnce x then x else (snd (aw_send x TRst (bytes_of reason) ok))\<lparr>wOnce := True, wClosed := True\<rparr>)"

definition up_buffered :: "awr \<Rightarrow> bytes option \<Rightarrow> bool \<Rightarrow> bool \<Rightarrow> awr" where
  "up_buffered x b ok ok2 =
     (let x = x\<lparr>wBuffered := False\<rparr>
      in case b of
           None \<Rightarrow> (agent_closeStream x ''raw upstream buffered read failed'' ok2)\<lparr>wReader := False\<rparr>
         | Some d \<Rightarrow>
             if d = [] then x
             else (case aw_send x TWsA2C d ok of (True, x1) \<Rightarrow> x1 | (False, x1) \<Rightarrow> x1\<lparr>wReader := False\<rparr>))"

definition up_read :: "awr \<Rightarrow> bytes \<Rightarrow> ioerr option \<Rightarrow> bool \<Rightarrow> bool \<Rightarrow> awr" where
  "up_read x d err ok ok2 =
     (case (if d \<noteq> [] then aw_send x TWsA2C d ok else (True, x)) of
        (False, x1) \<Rightarrow> x1\<lparr>wReader := False\<rparr>
      | (True, x1) \<Rightarrow>
          (case err of
             None \<Rightarrow> x1
           | Some er \<Rightarrow>
               (agent_closeStream x1
                 (if er = EOF \<or> er = ErrClosed then ''raw upstream closed'' else ''raw upstream read failed'') ok2)
                 \<lparr>wReader := False\<rparr>))"

definition up_frame :: "awr \<Rightarrow> Frame \<Rightarrow> bool \<Rightarrow> bool \<Rightarrow> awr" where
  "up_frame x f wok ok =
     (if Type f = TWsC2A then
        (if Payload f = [] then x
         else if wok then x\<lparr>wUp := wUp x @ [WRaw (Payload f)]\<rparr>
         else (agent_closeStream x ''raw upstream write failed'' ok)\<lparr>wMain := False\<rparr>)
      else if Type f = TWsClose \<or> Type f = TRst
      then (agent_closeStream x ''gateway closed stream'' ok)\<lparr>wMain := False\<rparr>
      else x)"

datatype upevent =
    UvBuffered "bytes option" bool bool
  | UvRead bytes "ioerr option" bool bool
  | UvFrame Frame bool bool
  | UvClosed
  | UvCtxDone

fun agent_raw_step :: "awr \<Rightarrow> upevent \<Rightarrow> awr" where
  "agent_raw_step x (UvBuffered b ok ok2) = (if wReader x \<and> wBuffered x then up_buffered x b ok ok2 else x)"
| "agent_raw_step x (UvRead d err ok ok2) = (if wReader x \<and> \<not> wBuffered x then up_read x d err ok ok2 else x)"
| "agent_raw_step x (UvFrame f wok ok) = (if wMain x then up_frame x f wok ok else x)"
| "agent_raw_step x UvClosed = (if wMain x \<and> wClosed x then x\<lparr>wMain := False\<rparr> else x)"
| "agent_raw_step x UvCtxDone = x\<lparr>wMain := False\<rparr>"

definition agent_raw_run :: "upevent list \<Rightarrow> awr" where
  "agent_raw_run evs = fold (\<lambda>ev x. agent_raw_step x ev) evs awr_new"

section \<open>Lemmas\<close>

subsection \<open>Relays\<close>

fun up_payload :: "aevent \<Rightarrow> bytes list" where
  "up_payload (AvUpMsg mt d ok) = (if data_message mt then [ws_payload mt d] else [])"
| "up_payload _ = []"

fun gw_message :: "aevent \<Rightarrow> (int \<times> bytes) list" where
  "gw_message (AvFrame f werr ok) =
     (if Type f = TWsC2A \<and> Payload f \<noteq> [] then [(uint (hd (Payload f)), tl (Payload f))] else [])"
| "gw_message _ = []"

lemma aw_send_sel [simp]:
  "wUp (snd (aw_send x t p ok)) = wUp x" "wReader (snd (aw_send x t p ok)) = wReader x"
  "wMain (snd (aw_send x t p ok)) = wMain x" "wOnce (snd (aw_send x t p ok)) = wOnce x"
  "wBuffered (snd (aw_send x t p ok)) = wBuffered x"
  "t \<noteq> u \<Longrightarrow> sent_of u (wSent (snd (aw_send x t p ok))) = sent_of u (wSent x)"
  by (simp_all add: aw_send_def)

lemma close_gw_sel [simp]:
  "wUp (sendCloseToGateway x c r ok) = wUp x" "wReader (sendCloseToGateway x c r ok) = wReader x"
  "wMain (sendCloseToGateway x c r ok) = wMain x" "wBuffered (sendCloseToGateway x c r ok) = wBuffered x"
  "sent_of TWsA2C (wSent (sendCloseToGateway x c r ok)) = sent_of TWsA2C (wSent x)"
  by (simp_all add: sendCloseToGateway_def)

lemma closeStream_gw_sel [simp]:
  "wUp (agent_closeStream x r ok) = wUp x" "wReader (agent_closeStream x r ok) = wReader x"
  "wMain (agent_closeStream x r ok) = wMain x" "wBuffered (agent_closeStream x r ok) = wBuffered x"
  "sent_of TWsA2C (wSent (agent_closeStream x r ok)) = sent_of TWsA2C (wSent x)"
  by (simp_all add: agent_closeStream_def)

lemma aw_send_cases:
  "(case aw_send x t p ok of (True, y) \<Rightarrow> f y | (False, y) \<Rightarrow> g y) =
     (if ok then f (x\<lparr>wSent := wSent x @ [(t, p)]\<rparr>) else g x)"
  by (simp add: aw_send_def)

lemmas agent_ops = up_msg_def up_err_def gw_frame_def tcp_read_def tcp_frame_def up_buffered_def up_read_def up_frame_def
  aw_send_cases Let_def CloseFromErr_cases

interpretation framed_up: relay agent_framed_step "\<lambda>x. sent_of TWsA2C (wSent x)" wReader up_payload "\<lambda>_ _. True"
proof
  fix x ev
  show "wReader x \<and> sent_of TWsA2C (wSent (agent_framed_step x ev)) = sent_of TWsA2C (wSent x) @ up_payload ev"
    if "wReader (agent_framed_step x ev)"
    using that by (cases ev) (auto simp: agent_ops split: option.splits ioerr.splits if_splits)
  show "prefix (sent_of TWsA2C (wSent (agent_framed_step x ev))) (sent_of TWsA2C (wSent x) @ up_payload ev)"
    by (cases ev) (auto simp: agent_ops split: option.splits ioerr.splits if_splits)
  show "sent_of TWsA2C (wSent (agent_framed_step x ev)) = sent_of TWsA2C (wSent x)" if "\<not> wReader x"
    using that by (cases ev) (auto simp: agent_ops split: option.splits ioerr.splits if_splits)
qed

interpretation framed_down: relay agent_framed_step "\<lambda>x. messages_of (wUp x)" wMain gw_message "\<lambda>_ _. True"
proof
  fix x ev
  show "wMain x \<and> messages_of (wUp (agent_framed_step x ev)) = messages_of (wUp x) @ gw_message ev"
    if "wMain (agent_framed_step x ev)"
    using that by (cases ev) (auto simp: agent_ops split: option.splits ioerr.splits if_splits)
  show "prefix (messages_of (wUp (agent_framed_step x ev))) (messages_of (wUp x) @ gw_message ev)"
    by (cases ev) (auto simp: agent_ops split: option.splits ioerr.splits if_splits)
  show "messages_of (wUp (agent_framed_step x ev)) = messages_of (wUp x)" if "\<not> wMain x"
    using that by (cases ev) (auto simp: agent_ops split: option.splits ioerr.splits if_splits)
qed

fun tcp_input :: "tcpevent \<Rightarrow> bytes" where
  "tcp_input (TvRead d err ok ok2) = d"
| "tcp_input _ = []"

fun tcp_output :: "tcpevent \<Rightarrow> bytes" where
  "tcp_output (TvFrame f wok ok) = (if Type f = TWsC2A then tl (Payload f) else [])"
| "tcp_output _ = []"

text \<open>The bytes of a list of framed payloads: each without its opcode.\<close>

definition stripped :: "bytes list \<Rightarrow> bytes" where
  "stripped ps = concat (map tl ps)"

lemma stripped_append [simp]: "stripped (a @ b) = stripped a @ stripped b" "stripped [] = []"
  "stripped [ws_payload mt d] = d"
  by (simp_all add: stripped_def ws_payload_def)

interpretation tcp_up: relay tcp_step "\<lambda>x. stripped (sent_of TWsA2C (wSent x))" wReader tcp_input "\<lambda>_ _. True"
proof
  fix x ev
  show "wReader x \<and> stripped (sent_of TWsA2C (wSent (tcp_step x ev))) = stripped (sent_of TWsA2C (wSent x)) @ tcp_input ev"
    if "wReader (tcp_step x ev)"
    using that by (cases ev) (auto simp: agent_ops split: option.splits ioerr.splits if_splits)
  show "prefix (stripped (sent_of TWsA2C (wSent (tcp_step x ev)))) (stripped (sent_of TWsA2C (wSent x)) @ tcp_input ev)"
    by (cases ev) (auto simp: agent_ops split: option.splits ioerr.splits if_splits)
  show "stripped (sent_of TWsA2C (wSent (tcp_step x ev))) = stripped (sent_of TWsA2C (wSent x))" if "\<not> wReader x"
    using that by (cases ev) (auto simp: agent_ops split: option.splits ioerr.splits if_splits)
qed

lemma short_tl: "length p \<le> Suc 0 \<Longrightarrow> tl p = []"
  by (cases p) auto

interpretation tcp_down: relay tcp_step "\<lambda>x. raw_bytes (wUp x)" wMain tcp_output "\<lambda>_ _. True"
proof
  fix x ev
  show "wMain x \<and> raw_bytes (wUp (tcp_step x ev)) = raw_bytes (wUp x) @ tcp_output ev" if "wMain (tcp_step x ev)"
    using that by (cases ev) (auto simp: agent_ops short_tl split: option.splits ioerr.splits if_splits)
  show "prefix (raw_bytes (wUp (tcp_step x ev))) (raw_bytes (wUp x) @ tcp_output ev)"
    by (cases ev) (auto simp: agent_ops short_tl split: option.splits ioerr.splits if_splits)
  show "raw_bytes (wUp (tcp_step x ev)) = raw_bytes (wUp x)" if "\<not> wMain x"
    using that by (cases ev) (auto simp: agent_ops split: option.splits ioerr.splits if_splits)
qed

fun up_input :: "upevent \<Rightarrow> bytes" where
  "up_input (UvBuffered (Some d) ok ok2) = d"
| "up_input (UvRead d err ok ok2) = d"
| "up_input _ = []"

fun up_output :: "upevent \<Rightarrow> bytes" where
  "up_output (UvFrame f wok ok) = (if Type f = TWsC2A then Payload f else [])"
| "up_output _ = []"

definition up_turn :: "awr \<Rightarrow> upevent \<Rightarrow> bool" where
  "up_turn x ev \<longleftrightarrow>
     wReader x \<longrightarrow> (case ev of UvBuffered _ _ _ \<Rightarrow> wBuffered x | UvRead _ _ _ _ \<Rightarrow> \<not> wBuffered x | _ \<Rightarrow> True)"

fun up_order :: "bool \<Rightarrow> upevent list \<Rightarrow> bool" where
  "up_order b [] = True"
| "up_order b (UvBuffered d ok ok2 # evs) = (b \<and> up_order False evs)"
| "up_order b (UvRead d err ok ok2 # evs) = (\<not> b \<and> up_order b evs)"
| "up_order b (_ # evs) = up_order b evs"

interpretation raw_up: relay agent_raw_step "\<lambda>x. concat (sent_of TWsA2C (wSent x))" wReader up_input up_turn
proof
  fix x ev
  assume turn: "up_turn x ev"
  show "wReader x \<and> concat (sent_of TWsA2C (wSent (agent_raw_step x ev))) = concat (sent_of TWsA2C (wSent x)) @ up_input ev"
    if "wReader (agent_raw_step x ev)"
    using that turn
    by (cases "(ev)" rule: up_input.cases) (auto simp: up_turn_def agent_ops split: if_splits option.splits)
  show "prefix (concat (sent_of TWsA2C (wSent (agent_raw_step x ev)))) (concat (sent_of TWsA2C (wSent x)) @ up_input ev)"
    using turn
    by (cases "(ev)" rule: up_input.cases) (auto simp: up_turn_def agent_ops split: if_splits option.splits)
next
  fix x ev
  show "concat (sent_of TWsA2C (wSent (agent_raw_step x ev))) = concat (sent_of TWsA2C (wSent x))" if "\<not> wReader x"
    using that by (cases ev) (auto simp: agent_ops)
qed

interpretation raw_down: relay agent_raw_step "\<lambda>x. raw_bytes (wUp x)" wMain up_output up_turn
proof
  fix x ev
  assume turn: "up_turn x ev"
  show "wMain x \<and> raw_bytes (wUp (agent_raw_step x ev)) = raw_bytes (wUp x) @ up_output ev" if "wMain (agent_raw_step x ev)"
    using that by (cases ev) (auto simp: agent_ops split: if_splits option.splits)
  show "prefix (raw_bytes (wUp (agent_raw_step x ev))) (raw_bytes (wUp x) @ up_output ev)"
    by (cases ev) (auto simp: agent_ops split: if_splits option.splits)
next
  fix x ev
  show "raw_bytes (wUp (agent_raw_step x ev)) = raw_bytes (wUp x)" if "\<not> wMain x"
    using that by (cases ev) (auto simp: agent_ops split: if_splits option.splits)
qed

lemma wBuffered_step:
  assumes "wReader (agent_raw_step x ev)"
  shows "wReader x" "wBuffered (agent_raw_step x ev) \<longleftrightarrow> wBuffered x \<and> (case ev of UvBuffered _ _ _ \<Rightarrow> False | _ \<Rightarrow> True)"
  using assms by (cases ev; auto simp: agent_ops split: if_splits option.splits)+

lemma up_order_enabled:
  "up_order b evs \<Longrightarrow> (wReader x \<Longrightarrow> wBuffered x = b) \<Longrightarrow> raw_up.enabled_run x evs \<and> raw_down.enabled_run x evs"
proof (induction evs arbitrary: x b)
  case (Cons ev evs)
  let ?b = "b \<and> (case ev of UvBuffered _ _ _ \<Rightarrow> False | _ \<Rightarrow> True)"
  have "up_order ?b evs" "up_turn x ev" using Cons.prems by (cases ev; auto simp: up_turn_def)+
  moreover have "wReader (agent_raw_step x ev) \<Longrightarrow> wBuffered (agent_raw_step x ev) = ?b"
    using wBuffered_step [of x ev] Cons.prems by auto
  ultimately show ?case using Cons.IH [of ?b "agent_raw_step x ev"] by simp
qed simp

lemma agent_enabled [simp]:
  "framed_up.enabled_run x es" "framed_down.enabled_run x es" "tcp_up.enabled_run x fs" "tcp_down.enabled_run x fs"
  by (induction es arbitrary: x, simp_all) (induction fs arbitrary: x, simp_all)+

lemma agent_framed_relays:
  "prefix (sent_of TWsA2C (wSent (agent_framed_run evs))) (concat (map up_payload evs))"
  "wReader (agent_framed_run evs) \<Longrightarrow> sent_of TWsA2C (wSent (agent_framed_run evs)) = concat (map up_payload evs)"
  "prefix (messages_of (wUp (agent_framed_run evs))) (concat (map gw_message evs))"
  "wMain (agent_framed_run evs) \<Longrightarrow> messages_of (wUp (agent_framed_run evs)) = concat (map gw_message evs)"
  using framed_up.run_relays [of awr_new evs] framed_down.run_relays [of awr_new evs]
  by (simp_all add: agent_framed_run_def framed_up.run_def framed_down.run_def awr_new_def)

lemma tcp_relays:
  "prefix (stripped (sent_of TWsA2C (wSent (tcp_run evs)))) (concat (map tcp_input evs))"
  "wReader (tcp_run evs) \<Longrightarrow> stripped (sent_of TWsA2C (wSent (tcp_run evs))) = concat (map tcp_input evs)"
  "prefix (raw_bytes (wUp (tcp_run evs))) (concat (map tcp_output evs))"
  "wMain (tcp_run evs) \<Longrightarrow> raw_bytes (wUp (tcp_run evs)) = concat (map tcp_output evs)"
  using tcp_up.run_relays [of awr_new evs] tcp_down.run_relays [of awr_new evs]
  by (simp_all add: tcp_run_def tcp_up.run_def tcp_down.run_def awr_new_def)

lemma agent_raw_relays:
  assumes "up_order True evs"
  shows "prefix (concat (sent_of TWsA2C (wSent (agent_raw_run evs)))) (concat (map up_input evs))"
    "wReader (agent_raw_run evs) \<Longrightarrow> concat (sent_of TWsA2C (wSent (agent_raw_run evs))) = concat (map up_input evs)"
    "prefix (raw_bytes (wUp (agent_raw_run evs))) (concat (map up_output evs))"
    "wMain (agent_raw_run evs) \<Longrightarrow> raw_bytes (wUp (agent_raw_run evs)) = concat (map up_output evs)"
  using raw_up.run_relays [of awr_new evs] raw_down.run_relays [of awr_new evs] up_order_enabled [OF assms, of awr_new]
  by (simp_all add: agent_raw_run_def raw_up.run_def raw_down.run_def awr_new_def)

subsection \<open>The raw upgrade request\<close>

lemma canonical_newline:
  assumes "\<And>c. c \<in> set k \<Longrightarrow> \<not> newline_or_null c" and "c \<in> set (canonicalHeaderKey k)"
  shows "\<not> newline_or_null c"
proof -
  have *: "d \<in> set (canon_bytes u s) \<Longrightarrow> \<exists>c \<in> set s. d = c \<or> d = lower_byte c \<or> d = upper_byte c" for d u s
    by (induction u s rule: canon_bytes.induct) (auto simp: Let_def split: if_splits)
  obtain b where "b \<in> set k" "c = b \<or> c = lower_byte b \<or> c = upper_byte b"
    using assms(2) * [of c True k] by (auto simp: canonicalHeaderKey_def split: if_splits)
  then show ?thesis
    using assms(1) [of b] by (auto simp: newline_or_null_def ord_lower_byte ord_upper_byte is_upper_def is_lower_def split: if_splits)
qed

text \<open>A request head as the HTTP server of the gateway accepts it: no line breaks outside the path.\<close>

definition clean :: "string \<Rightarrow> bool" where
  "clean s \<longleftrightarrow> list_all (\<lambda>c. \<not> newline_or_null c) s"

definition clean_head :: "URL \<Rightarrow> ReqStart \<Rightarrow> bool" where
  "clean_head target rs \<longleftrightarrow>
     clean (Method rs) \<and> clean (Host rs) \<and> uOpaque target = [] \<and> clean (uHost target) \<and> clean (uRawQuery target) \<and>
     list_all (\<lambda>(k, vv). clean k \<and> list_all clean vv) (Header rs)"

lemma clean_filter: "clean s \<Longrightarrow> filter newline_or_null s = []"
  by (simp add: clean_def list_all_iff filter_empty_conv)

lemma clean_trimSpace: "clean s \<Longrightarrow> clean (trimSpace s)"
  using set_trimSpace [of s] by (auto simp: clean_def list_all_iff)

lemma clean_canonical: "clean k \<Longrightarrow> clean (canonicalHeaderKey k)"
  using canonical_newline [of k] by (auto simp: clean_def list_all_iff)

lemma clean_RequestURI:
  assumes "clean (uRawQuery u)" and "uOpaque u = []"
  shows "clean (RequestURI u)"
proof -
  have "\<not> newline_or_null c" if "c \<in> set (EscapedPath u)" for c
    using EscapedPath_graphic [OF that] by (auto simp: newline_or_null_def)
  then have "clean (EscapedPath u)" by (simp add: clean_def list_all_iff)
  moreover have "clean ''/''" "clean ''?''" by code_simp+
  ultimately show ?thesis using assms by (simp add: RequestURI_def Let_def clean_def)
qed

text \<open>The header's values with their keys, one pair per value, in the order of the header.\<close>

definition header_values :: "header \<Rightarrow> (string \<times> string) list" where
  "header_values h = concat (map (\<lambda>(k, vv). map (\<lambda>v. (k, v)) vv) h)"

lemma concat_header_lines:
  "concat (header_lines h) =
     concat (map (\<lambda>l. l @ crlf) (map (\<lambda>(k, v). canonicalHeaderKey k @ '': '' @ v) (filter (\<lambda>(k, _). \<not> equalFold k ''Host'') (header_values h))))"
proof (induction h)
  case (Cons e h)
  obtain k vv where e: "e = (k, vv)" by (cases e)
  have "concat (map (\<lambda>v. canonicalHeaderKey k @ '': '' @ v @ crlf) vv) =
      concat (map (\<lambda>l. l @ crlf) (map (\<lambda>(k, v). canonicalHeaderKey k @ '': '' @ v) (map (\<lambda>v. (k, v)) vv)))"
    by (induction vv) simp_all
  then show ?case using Cons e by (simp add: header_lines_def header_values_def filter_map comp_def)
qed (simp add: header_lines_def header_values_def)

lemma clean_header_values:
  "list_all (\<lambda>(k, vv). clean k \<and> list_all clean vv) h \<Longrightarrow> (k, v) \<in> set (header_values h) \<Longrightarrow> clean k \<and> clean v"
  by (auto simp: header_values_def list_all_iff)

lemma clean_append: "clean (a @ b) \<longleftrightarrow> clean a \<and> clean b"
  by (simp add: clean_def)

section \<open>Properties\<close>

text \<open>C22. The raw upgrade request consists of exactly these lines, each ended by one line break: the request line with
  the client's method (GET when it has none) and the target's request URI, the host line with the client's host
  (the target's when it has none), one line for every value of every header but \<^verbatim>\<open>Host\<close>, in order, and the empty
  line.  No line has a line break or a NUL byte in it, whatever bytes the decoded path contains, so that neither
  the path nor a header can add or hide a line; the other parts of the head must be free of such bytes, which the
  gateway's HTTP server guarantees.
\<close>

theorem raw_request_lines:
  fixes target rs
  defines "lines \<equiv>
    [(if trimSpace (Method rs) = [] then ''GET'' else trimSpace (Method rs)) @ '' '' @ RequestURI target @ '' HTTP/1.1'',
     ''Host: '' @ (if trimSpace (Host rs) = [] then uHost target else trimSpace (Host rs))] @
    map (\<lambda>(k, v). canonicalHeaderKey k @ '': '' @ v) (filter (\<lambda>(k, _). \<not> equalFold k ''Host'') (header_values (Header rs))) @
    [[]]"
  assumes "clean_head target rs"
  shows "raw_request target rs = concat (map (\<lambda>l. l @ crlf) lines) \<and>
    (\<forall>l \<in> set lines. \<forall>c \<in> set l. \<not> newline_or_null c)"
proof
  show "raw_request target rs = concat (map (\<lambda>l. l @ crlf) lines)"
    unfolding lines_def raw_request_def concat_header_lines by (simp add: raw_method_def raw_host_def Let_def)
  have lit: "clean '' ''" "clean '' HTTP/1.1''" "clean ''Host: ''" "clean ''GET''" "clean '': ''" "clean []" by code_simp+
  have head: "clean (Method rs)" "clean (Host rs)" "clean (uHost target)" "clean (RequestURI target)"
    and hdr: "list_all (\<lambda>(k, vv). clean k \<and> list_all clean vv) (Header rs)"
    using assms(2) by (simp_all add: clean_head_def clean_RequestURI)
  have "clean l" if "l \<in> set lines" for l
    using that lit head clean_trimSpace clean_canonical clean_header_values [OF hdr]
    unfolding lines_def by (auto simp only: clean_append set_append set_map set_filter set_simps Un_iff insert_iff image_iff
        mem_Collect_eq case_prod_beta prod.collapse fst_conv snd_conv empty_iff split: if_split)
  then show "\<forall>l \<in> set lines. \<forall>c \<in> set l. \<not> newline_or_null c" by (simp add: clean_def list_all_iff)
qed

theorem raw_request_lines_witness:
  "let target = \<lparr>uScheme = ''ws'', uOpaque = [], uUser = None, uHost = ''h:1'', uPath = ''/a'' @ crlf @ ''X: y'', uRawPath = [],
         uForceQuery = False, uRawQuery = ''q=1'', uFragment = []\<rparr>;
       rs = \<lparr>Method = ''GET'', Path = ''/a'', RawQuery = ''q=1'', Host = ''h'', Header = [(''Upgrade'', [''websocket'', ''x''])],
         TrailerKeys = [], IsWebSocket = True\<rparr>
   in raw_request target rs =
      ''GET /a%0D%0AX:%20y?q=1 HTTP/1.1'' @ crlf @ ''Host: h'' @ crlf @ ''Upgrade: websocket'' @ crlf @ ''Upgrade: x'' @ crlf @ crlf"
proof -
  define target where "target = \<lparr>uScheme = ''ws'', uOpaque = [], uUser = None, uHost = ''h:1'', uPath = ''/a'' @ crlf @ ''X: y'', uRawPath = [],
         uForceQuery = False, uRawQuery = ''q=1'', uFragment = []\<rparr>"
  define rs where "rs = \<lparr>Method = ''GET'', Path = ''/a'', RawQuery = ''q=1'', Host = ''h'', Header = [(''Upgrade'', [''websocket'', ''x''])],
         TrailerKeys = [], IsWebSocket = True\<rparr>"
  have "clean_head target rs" unfolding target_def rs_def by code_simp
  note l = raw_request_lines [OF this, THEN conjunct1]
  have p: "RequestURI target = ''/a%0D%0AX:%20y?q=1''" unfolding target_def by code_simp
  have m: "trimSpace (Method rs) = ''GET''" "trimSpace (Host rs) = ''h''" unfolding rs_def by code_simp+
  have h: "map (\<lambda>(k, v). canonicalHeaderKey k @ '': '' @ v) (filter (\<lambda>(k, _). \<not> equalFold k ''Host'') (header_values (Header rs))) =
      [''Upgrade: websocket'', ''Upgrade: x'']" unfolding rs_def by code_simp
  have "raw_request target rs =
      ''GET /a%0D%0AX:%20y?q=1 HTTP/1.1'' @ crlf @ ''Host: h'' @ crlf @ ''Upgrade: websocket'' @ crlf @ ''Upgrade: x'' @ crlf @ crlf"
    unfolding l p m h by simp
  then show ?thesis unfolding target_def rs_def Let_def .
qed

end
