(* ===== verification/Agent_Run.thy ===== *)
theory Agent_Run
  imports Agent_Conn Complex_Main
begin

text \<open>
  \<^verbatim>\<open>Agent.Run\<close>: the connection loop of the agent with its backoff and the status reports.  What one turn of the
  loop meets (the outcome of the dial, the pongs and the end of the connection, the clock, the random number,
  whether the sleep was cut short) is an argument, a \<open>round\<close>; times are nanoseconds of the wall clock.  The
  arithmetic of the jitter is that of 64-bit floating point numbers, each operation rounded on its own.
\<close>

section \<open>Definitions\<close>

definition minInt :: "int \<Rightarrow> int \<Rightarrow> int" where
  "minInt a b = (if a < b then a else b)"

text \<open>\<open>k\<close> is the random number in units of \<open>2^-53\<close>.\<close>

definition backoffBase :: "int \<Rightarrow> duration" where
  "backoffBase attempt =
     (let a = (if attempt < 1 then 1 else attempt); d = Second * 2 ^ nat (minInt (a - 1) 5)
      in if d > 30 * Second then 30 * Second else d)"

definition jitter :: "int \<Rightarrow> int \<times> int" where
  "jitter k = f64_add (f64_of (8, 10)) (f64_mul (k, 2 ^ 53) (f64_of (4, 10)))"

definition reconnectBackoff :: "int \<Rightarrow> int \<Rightarrow> duration" where
  "reconnectBackoff k attempt = f64_trunc (f64_mul (f64_of (backoffBase attempt, 1)) (jitter k))"

text \<open>\<open>fired\<close>: the timer fired before the context ended.\<close>

definition sleepWithContext :: "bool \<Rightarrow> bool" where
  "sleepWithContext fired = fired"

text \<open>The header of the registration request.\<close>

definition register_header :: "Agent \<Rightarrow> header" where
  "register_header a =
     (let h = (if registerXToken a \<noteq> [] then hset [] ''X-Token'' (registerXToken a) else [])
      in if registerBearerToken a \<noteq> [] then hset h ''Authorization'' (''Bearer '' @ registerBearerToken a) else h)"

record ConnectionStatus =
  State :: string
  Attempt :: int
  LastError :: string
  LastConnectedAt :: "int option"
  LastHeartbeatAt :: "int option"
  NextRetryAt :: "int option"

record run_state =
  rsAttempt :: int
  rsStatus :: ConnectionStatus
  rsReports :: "ConnectionStatus list"

definition run_init :: run_state where
  "run_init = \<lparr>rsAttempt = 0,
     rsStatus = \<lparr>State = [], Attempt = 0, LastError = [], LastConnectedAt = None, LastHeartbeatAt = None, NextRetryAt = None\<rparr>,
     rsReports = []\<rparr>"

definition report :: "run_state \<Rightarrow> string \<Rightarrow> string \<Rightarrow> duration \<Rightarrow> int \<Rightarrow> run_state" where
  "report st state err wait now =
     (let s = (rsStatus st)\<lparr>State := state, Attempt := rsAttempt st, LastError := err,
                NextRetryAt := (if wait > 0 then Some (now + wait) else None)\<rparr>
      in st\<lparr>rsStatus := s, rsReports := rsReports st @ [s]\<rparr>)"

text \<open>
  One turn: the context was done at its start; the dial failed; or a session ran from \<open>connectedAt\<close> to
  \<open>endedAt\<close> with pongs at the given times and ended with an error (and its text).
\<close>

datatype round =
    RDone
  | RDialFailed string int int bool
  | RSession int "int list" ioerr string int bool int int bool

definition on_pong :: "run_state \<Rightarrow> int \<Rightarrow> run_state" where
  "on_pong st now = report (st\<lparr>rsStatus := (rsStatus st)\<lparr>LastHeartbeatAt := Some now\<rparr>\<rparr>) ''connected'' [] 0 now"

definition stable_session :: "ConnectionStatus \<Rightarrow> int \<Rightarrow> int \<Rightarrow> bool" where
  "stable_session s connectedAt endedAt \<longleftrightarrow>
     endedAt - connectedAt \<ge> 30 * Second \<and>
     (case LastHeartbeatAt s of None \<Rightarrow> False | Some t \<Rightarrow> t > connectedAt)"

definition identity_conflict :: "ioerr \<Rightarrow> bool" where
  "identity_conflict err = (case CloseFromErr (Some err) of (code, _, ok) \<Rightarrow> ok \<and> code = 4009)"

definition session_wait :: "ioerr \<Rightarrow> duration \<Rightarrow> duration" where
  "session_wait err wait = (if identity_conflict err \<and> wait < 5 * Second then 5 * Second else wait)"

text \<open>The result of a turn: the next state, and whether \<^verbatim>\<open>Run\<close> returns.\<close>

fun run_round :: "run_state \<Rightarrow> round \<Rightarrow> run_state \<times> bool" where
  "run_round st RDone = (st, True)"
| "run_round st (RDialFailed err k now slept) =
     (let st1 = report st ''connecting'' [] 0 now;
          st2 = st1\<lparr>rsAttempt := rsAttempt st1 + 1\<rparr>;
          st3 = report st2 ''backoff'' err (reconnectBackoff k (rsAttempt st2)) now
      in (st3, \<not> sleepWithContext slept))"
| "run_round st (RSession connectedAt pongs err errText endedAt alive k now slept) =
     (let st1 = report st ''connecting'' [] 0 connectedAt;
          st2 = report (st1\<lparr>rsStatus := (rsStatus st1)\<lparr>LastConnectedAt := Some connectedAt\<rparr>\<rparr>) ''connected'' [] 0 connectedAt;
          st3 = fold (\<lambda>t st. on_pong st t) pongs st2
      in if \<not> alive then (st3, True)
         else
           let a = (if stable_session (rsStatus st3) connectedAt endedAt then 0 else rsAttempt st3);
               st4 = st3\<lparr>rsAttempt := a + 1\<rparr>;
               wait = session_wait err (reconnectBackoff k (a + 1));
               st5 = report st4 (if identity_conflict err then ''identity_conflict'' else ''backoff'') errText wait now
           in (st5, \<not> sleepWithContext slept))"

text \<open>\<^verbatim>\<open>Run\<close> on the rounds it meets; the deferred report comes when it returns.\<close>

fun Run :: "run_state \<Rightarrow> round list \<Rightarrow> run_state \<times> bool" where
  "Run st [] = (st, False)"
| "Run st (r # rs) =
     (case run_round st r of
        (st1, True) \<Rightarrow> (report st1 ''stopped'' [] 0 0, True)
      | (st1, False) \<Rightarrow> Run st1 rs)"

section \<open>Rounding\<close>

definition f64_val :: "int \<times> int \<Rightarrow> real" where
  "f64_val x = of_int (fst x) / of_int (snd x)"

lemma bitlen_bounds: "0 < n \<Longrightarrow> 2 ^ bitlen n \<le> 2 * n \<and> n < 2 ^ bitlen n" for n :: int
proof (induction n rule: bitlen.induct)
  case (1 n)
  show ?case
  proof (cases "n = 1")
    case True
    then show ?thesis by (simp add: bitlen.simps [of 1] bitlen.simps [of 0])
  next
    case False
    then have "0 < n div 2" using "1.prems" by simp
    then have "2 ^ bitlen (n div 2) \<le> 2 * (n div 2)" "n div 2 < 2 ^ bitlen (n div 2)" using 1 by auto
    moreover have "bitlen n = Suc (bitlen (n div 2))" using "1.prems" by (subst bitlen.simps) simp
    moreover have "2 * (n div 2) \<le> n" "n \<le> 2 * (n div 2) + 1" by presburger+
    ultimately show ?thesis by (simp only: power_Suc) linarith
  qed
qed

lemma round_div_error: "0 < d \<Longrightarrow> 2 * \<bar>round_div n d * d - n\<bar> \<le> d"
proof -
  assume d: "0 < d"
  have n: "n = d * (n div d) + n mod d" "0 \<le> n mod d" "n mod d < d" using d by simp_all
  then have "round_div n d * d - n = (if 2 * (n mod d) > d \<or> 2 * (n mod d) = d \<and> odd (n div d) then d - n mod d else - (n mod d))"
    by (auto simp: round_div_def Let_def algebra_simps)
  then show ?thesis using n(2,3) by auto
qed

text \<open>Rounding to 64-bit floating point has a relative error of at most \<open>2^-53\<close>.\<close>

lemma f64_of_error:
  assumes "0 < n" "0 < d"
  shows "0 < snd (f64_of (n, d))" "2 ^ 53 * \<bar>fst (f64_of (n, d)) * d - n * snd (f64_of (n, d))\<bar> \<le> n * snd (f64_of (n, d))"
proof -
  define up where "up = (53 + bitlen d) - bitlen n"
  define down where "down = bitlen n - (53 + bitlen d)"
  define n1 where "n1 = n * 2 ^ up"
  define d1 where "d1 = d * 2 ^ down"
  have pos: "0 < d1" "0 < n1" using assms by (simp_all add: d1_def n1_def)
  have val: "f64_of (n, d) = (if n1 div d1 < 2 ^ 53 then (round_div n1 d1 * 2 ^ down, 2 ^ up)
      else (round_div n1 (2 * d1) * 2 ^ (down + 1), 2 ^ up))"
    using assms by (simp add: f64_of_def Let_def up_def down_def n1_def d1_def)
  show "0 < snd (f64_of (n, d))" by (simp add: val)
  have bits: "2 ^ 52 * d1 \<le> n1"
  proof -
    have "bitlen n + up = 53 + bitlen d + down" by (simp add: up_def down_def)
    then have e: "(2 :: int) ^ (bitlen n + up) = 2 ^ 53 * 2 ^ (bitlen d + down)" by (simp add: power_add)
    have "2 ^ 53 * d1 \<le> 2 ^ 53 * 2 ^ (bitlen d + down)"
      using bitlen_bounds [OF assms(2)] by (simp add: d1_def power_add)
    also have "\<dots> \<le> 2 * n1"
      unfolding e [symmetric] using bitlen_bounds [OF assms(1)] by (simp add: n1_def power_add)
    finally show ?thesis by simp
  qed
  show "2 ^ 53 * \<bar>fst (f64_of (n, d)) * d - n * snd (f64_of (n, d))\<bar> \<le> n * snd (f64_of (n, d))"
  proof (cases "n1 div d1 < 2 ^ 53")
    case True
    have "fst (f64_of (n, d)) * d - n * snd (f64_of (n, d)) = round_div n1 d1 * d1 - n1"
      using True by (simp add: val n1_def d1_def)
    moreover have "n * snd (f64_of (n, d)) = n1" using True by (simp add: val n1_def)
    moreover have "2 ^ 53 * x \<le> y" if "2 * x \<le> z" "2 ^ 52 * z \<le> y" for x y z :: int
      using that mult_left_mono [OF that(1), of "2 ^ 52"] by simp
    ultimately show ?thesis using round_div_error [OF pos(1), of n1] bits by (simp only:)
  next
    case False
    have "fst (f64_of (n, d)) * d - n * snd (f64_of (n, d)) = round_div n1 (2 * d1) * (2 * d1) - n1"
      using False by (simp add: val n1_def d1_def)
    moreover have "n * snd (f64_of (n, d)) = n1" using False by (simp add: val n1_def)
    moreover have "2 ^ 53 * d1 \<le> n1"
    proof -
      have "2 ^ 53 * d1 \<le> n1 div d1 * d1" using False pos(1) by simp
      also have "\<dots> \<le> n1" using div_mult_mod_eq [of n1 d1] pos_mod_sign [OF pos(1), of n1] by linarith
      finally show ?thesis .
    qed
    moreover have "2 * \<bar>round_div n1 (2 * d1) * (2 * d1) - n1\<bar> \<le> 2 * d1" using round_div_error [of "2 * d1" n1] pos(1) by simp
    moreover have "2 ^ 53 * x \<le> y" if "2 * x \<le> 2 * z" "2 ^ 53 * z \<le> y" for x y z :: int using that by simp
    ultimately show ?thesis by (simp only:)
  qed
qed

lemma f64_of_relative:
  assumes "0 \<le> n" "0 < d"
  shows "\<bar>f64_val (f64_of (n, d)) - of_int n / of_int d\<bar> \<le> of_int n / of_int d / 2 ^ 53"
proof (cases "n = 0")
  case True
  then show ?thesis by (simp add: f64_of_def f64_val_def)
next
  case False
  with assms have "0 < n" by simp
  note err = f64_of_error [OF this assms(2)]
  obtain a b where ab: "f64_of (n, d) = (a, b)" by fastforce
  have b: "0 < b" and e: "2 ^ 53 * \<bar>a * d - n * b\<bar> \<le> n * b" using err by (simp_all add: ab)
  have "real_of_int (2 ^ 53 * \<bar>a * d - n * b\<bar>) \<le> real_of_int (n * b)" using e by (rule of_int_le_iff [THEN iffD2])
  then have r: "2 ^ 53 * \<bar>real_of_int a * real_of_int d - real_of_int n * real_of_int b\<bar> \<le> real_of_int n * real_of_int b" by simp
  have "real_of_int a / real_of_int b - real_of_int n / real_of_int d =
      (real_of_int a * real_of_int d - real_of_int n * real_of_int b) / (real_of_int b * real_of_int d)"
    using b assms(2) by (simp add: diff_frac_eq)
  then have "\<bar>f64_val (f64_of (n, d)) - of_int n / of_int d\<bar> =
      \<bar>real_of_int a * real_of_int d - real_of_int n * real_of_int b\<bar> / (real_of_int b * real_of_int d)"
    using b assms(2) by (simp add: ab abs_mult f64_val_def)
  also have "\<dots> \<le> (real_of_int n * real_of_int b / 2 ^ 53) / (real_of_int b * real_of_int d)"
    using r b assms(2) by (intro divide_right_mono) auto
  also have "\<dots> = of_int n / of_int d / 2 ^ 53" using b by simp
  finally show ?thesis .
qed

lemma f64_val_nonneg: "0 \<le> n \<Longrightarrow> 0 < d \<Longrightarrow> 0 \<le> f64_val (f64_of (n, d)) \<and> 0 < snd (f64_of (n, d)) \<and> 0 \<le> fst (f64_of (n, d))"
  using f64_of_nonneg [of n d] by (simp add: f64_val_def)

text \<open>The error of one operation, for results of bounded size.\<close>

lemma f64_of_close:
  assumes "0 \<le> n" "0 < d" "of_int n / of_int d \<le> (M :: real)"
  shows "\<bar>f64_val (f64_of (n, d)) - of_int n / of_int d\<bar> \<le> M / 1000000000000000"
proof -
  have "of_int n / of_int d / 2 ^ 53 \<le> M / (2 ^ 53 :: real)" using assms(3) by (rule divide_right_mono) simp
  also have "\<dots> \<le> M / 1000000000000000"
    using assms by (intro divide_left_mono) (auto intro: order_trans [OF _ assms(3)])
  finally show ?thesis using f64_of_relative [OF assms(1,2)] by (rule order_trans [rotated])
qed

lemma f64_mul_close:
  assumes "0 \<le> fst x" "0 < snd x" "0 \<le> fst y" "0 < snd y" "f64_val x * f64_val y \<le> M"
  shows "\<bar>f64_val (f64_mul x y) - f64_val x * f64_val y\<bar> \<le> M / 1000000000000000"
    "0 \<le> fst (f64_mul x y)" "0 < snd (f64_mul x y)"
  using f64_of_close [of "fst x * fst y" "snd x * snd y" M] f64_val_nonneg [of "fst x * fst y" "snd x * snd y"] assms
  by (simp_all add: f64_mul_def f64_val_def [of x] f64_val_def [of y])

lemma f64_add_close:
  assumes "0 \<le> fst x" "0 < snd x" "0 \<le> fst y" "0 < snd y" "f64_val x + f64_val y \<le> M"
  shows "\<bar>f64_val (f64_add x y) - (f64_val x + f64_val y)\<bar> \<le> M / 1000000000000000"
    "0 \<le> fst (f64_add x y)" "0 < snd (f64_add x y)"
proof -
  have e: "of_int (fst x * snd y + fst y * snd x) / of_int (snd x * snd y) = f64_val x + f64_val y"
    using assms(2,4) by (simp add: add_frac_eq f64_val_def)
  show "\<bar>f64_val (f64_add x y) - (f64_val x + f64_val y)\<bar> \<le> M / 1000000000000000"
    using f64_of_close [of "fst x * snd y + fst y * snd x" "snd x * snd y" M] assms unfolding e f64_add_def by simp
  show "0 \<le> fst (f64_add x y)" "0 < snd (f64_add x y)"
    using f64_val_nonneg [of "fst x * snd y + fst y * snd x" "snd x * snd y"] assms by (simp_all add: f64_add_def)
qed

lemma jitter_bounds:
  assumes "0 \<le> k" "k < 2 ^ 53"
  shows "4 / 5 - 1 / 100000000000000 \<le> f64_val (jitter k)" "f64_val (jitter k) \<le> 6 / 5 + 1 / 100000000000000"
    "0 \<le> fst (jitter k)" "0 < snd (jitter k)"
proof -
  let ?b = "f64_of (8, 10)" and ?c = "f64_of (4, 10)" and ?m = "f64_mul (k, 2 ^ 53) (f64_of (4, 10))"
  have b: "\<bar>f64_val ?b - 4 / 5\<bar> \<le> 1 / 1000000000000000" "0 \<le> fst ?b" "0 < snd ?b"
    using f64_of_close [of 8 10 1] f64_val_nonneg [of 8 10] by simp_all
  have c: "\<bar>f64_val ?c - 2 / 5\<bar> \<le> 1 / 1000000000000000" "0 \<le> fst ?c" "0 < snd ?c" "0 \<le> f64_val ?c"
    using f64_of_close [of 4 10 1] f64_val_nonneg [of 4 10] by simp_all
  have r: "0 \<le> f64_val (k, 2 ^ 53)" "f64_val (k, 2 ^ 53) \<le> 1" using assms by (simp_all add: f64_val_def)
  have prod: "0 \<le> f64_val (k, 2 ^ 53) * f64_val ?c" "f64_val (k, 2 ^ 53) * f64_val ?c \<le> 2 / 5 + 1 / 1000000000000000"
    using mult_right_mono [OF r(2) c(4)] c(1) mult_nonneg_nonneg [OF r(1) c(4)] by linarith+
  have m: "\<bar>f64_val ?m - f64_val (k, 2 ^ 53) * f64_val ?c\<bar> \<le> 1 / 1000000000000000" "0 \<le> fst ?m" "0 < snd ?m"
    using f64_mul_close [of "(k, 2 ^ 53)" ?c 1, OF _ _ c(2,3)] assms prod(2) by simp_all
  have m0: "0 \<le> f64_val ?m" using m(2,3) by (simp add: f64_val_def)
  have sum: "f64_val ?b + f64_val ?m \<le> 6 / 5 + 3 / 1000000000000000" "4 / 5 - 1 / 1000000000000000 \<le> f64_val ?b + f64_val ?m"
    using b(1) m(1) m0 prod(2) by linarith+
  have j: "\<bar>f64_val (jitter k) - (f64_val ?b + f64_val ?m)\<bar> \<le> 2 / 1000000000000000" "0 \<le> fst (jitter k)" "0 < snd (jitter k)"
    using f64_add_close [OF b(2,3) m(2,3), of 2] sum(1) unfolding jitter_def by auto
  show "4 / 5 - 1 / 100000000000000 \<le> f64_val (jitter k)" "f64_val (jitter k) \<le> 6 / 5 + 1 / 100000000000000"
    using j(1) sum by linarith+
  show "0 \<le> fst (jitter k)" "0 < snd (jitter k)" using j by simp_all
qed

lemma backoffBase_range: "1000000000 \<le> backoffBase a \<and> backoffBase a \<le> 30000000000"
proof -
  define e where "e = nat (minInt ((if a < 1 then 1 else a) - 1) 5)"
  have "(2 :: int) ^ e \<ge> 1" by simp
  then show ?thesis by (simp add: backoffBase_def Let_def Second_def e_def [symmetric])
qed

lemma reconnectBackoff_bounds:
  assumes "0 \<le> k" "k < 2 ^ 53"
  shows "4 * backoffBase a - 5 \<le> 5 * reconnectBackoff k a" "5 * reconnectBackoff k a \<le> 6 * backoffBase a"
proof -
  define d where "d = backoffBase a"
  define D where "D = f64_of (d, 1)"
  define P where "P = f64_mul D (jitter k)"
  have d: "1000000000 \<le> d" "d \<le> 30000000000" using backoffBase_range [of a] by (simp_all add: d_def)
  note j = jitter_bounds [OF assms]
  have D: "\<bar>f64_val D - of_int d\<bar> \<le> 30000000000 / 1000000000000000" "0 \<le> fst D" "0 < snd D"
    using f64_of_close [of d 1 30000000000] f64_val_nonneg [of d 1] d by (simp_all add: D_def)
  have rd: "1000000000 \<le> real_of_int d" "real_of_int d \<le> 30000000000" using d by simp_all
  have Dr: "0 \<le> f64_val D" "f64_val D \<le> 30000000001" "0 \<le> f64_val (jitter k)" using D(1) rd j(1) by linarith+
  have up: "f64_val D * f64_val (jitter k) \<le> f64_val D * (6 / 5 + 1 / 100000000000000)"
    using j(2) Dr(1) by (rule mult_left_mono)
  have lo: "f64_val D * (4 / 5 - 1 / 100000000000000) \<le> f64_val D * f64_val (jitter k)"
    using j(1) Dr(1) by (rule mult_left_mono)
  have P: "\<bar>f64_val P - f64_val D * f64_val (jitter k)\<bar> \<le> 40000000000 / 1000000000000000" "0 \<le> fst P" "0 < snd P"
    using f64_mul_close [OF D(2,3) j(3,4), of 40000000000] up Dr(2) by (auto simp: P_def)
  have bounds: "4 / 5 * of_int d - 1 / 100 \<le> f64_val P" "f64_val P \<le> 6 / 5 * of_int d + 1 / 100"
  proof -
    have "4 / 5 * z - 1 / 100 \<le> p" "p \<le> 6 / 5 * z + 1 / 100"
      if "\<bar>p - y\<bar> \<le> 40000000000 / 1000000000000000" "y \<le> x * (6 / 5) + x * (1 / 100000000000000)"
        "x * (4 / 5) - x * (1 / 100000000000000) \<le> y" "\<bar>x - z\<bar> \<le> 30000000000 / 1000000000000000" "x \<le> 30000000001"
      for p x y z :: real
      using that by linarith+
    then show "4 / 5 * of_int d - 1 / 100 \<le> f64_val P" "f64_val P \<le> 6 / 5 * of_int d + 1 / 100"
      using P(1) up [unfolded distrib_left] lo [unfolded right_diff_distrib] D(1) Dr(2) by blast+
  qed
  have fl: "reconnectBackoff k a = \<lfloor>f64_val P\<rfloor>"
    by (simp add: reconnectBackoff_def f64_trunc_def P_def D_def d_def f64_val_def floor_divide_of_int_eq)
  have "real_of_int \<lfloor>f64_val P\<rfloor> \<le> f64_val P" "f64_val P < real_of_int \<lfloor>f64_val P\<rfloor> + 1" by linarith+
  then have "5 * real_of_int \<lfloor>f64_val P\<rfloor> < 6 * real_of_int d + 1" "4 * real_of_int d - 6 < 5 * real_of_int \<lfloor>f64_val P\<rfloor>"
    using bounds by linarith+
  then have "of_int (5 * \<lfloor>f64_val P\<rfloor>) < (of_int (6 * d + 1) :: real)" "(of_int (4 * d - 6) :: real) < of_int (5 * \<lfloor>f64_val P\<rfloor>)"
    by simp_all
  then have "5 * \<lfloor>f64_val P\<rfloor> < 6 * d + 1" "4 * d - 6 < 5 * \<lfloor>f64_val P\<rfloor>" by (simp_all only: of_int_less_iff)
  then show "4 * backoffBase a - 5 \<le> 5 * reconnectBackoff k a" "5 * reconnectBackoff k a \<le> 6 * backoffBase a"
    by (simp_all add: fl d_def)
qed

lemma backoffBase_values:
  "backoffBase 1 = 1 * Second" "backoffBase 2 = 2 * Second" "backoffBase 3 = 4 * Second" "backoffBase 4 = 8 * Second"
  "backoffBase 5 = 16 * Second" "6 \<le> n \<Longrightarrow> backoffBase n = 30 * Second"
  by (simp_all add: backoffBase_def Let_def minInt_def Second_def)

lemma report_sel [simp]:
  "rsAttempt (report st s e w n) = rsAttempt st" "LastHeartbeatAt (rsStatus (report st s e w n)) = LastHeartbeatAt (rsStatus st)"
  "LastConnectedAt (rsStatus (report st s e w n)) = LastConnectedAt (rsStatus st)"
  "State (rsStatus (report st s e w n)) = s" "Attempt (rsStatus (report st s e w n)) = rsAttempt st"
  "LastError (rsStatus (report st s e w n)) = e"
  "NextRetryAt (rsStatus (report st s e w n)) = (if w > 0 then Some (n + w) else None)"
  "rsReports (report st s e w n) \<noteq> []" "last (rsReports (report st s e w n)) = rsStatus (report st s e w n)"
  by (simp_all add: report_def Let_def)

lemma on_pong_sel [simp]:
  "rsAttempt (on_pong st t) = rsAttempt st" "LastHeartbeatAt (rsStatus (on_pong st t)) = Some t"
  by (simp_all add: on_pong_def)

lemma pongs_sel:
  "rsAttempt (fold (\<lambda>t st. on_pong st t) ts st) = rsAttempt st"
  "LastHeartbeatAt (rsStatus (fold (\<lambda>t st. on_pong st t) ts st)) =
     (if ts = [] then LastHeartbeatAt (rsStatus st) else Some (last ts))"
  by (induction ts arbitrary: st) auto

section \<open>Properties\<close>

text \<open>C36. The wait before a reconnect, as the README gives it: a base of 1, 2, 4, 8, 16 and then 30 seconds by the
  number of the attempt, up to a jitter of 20 per cent either way (down to one nanosecond for the truncation),
  whatever the random number and with the rounding of the floating point operations taken into account.
\<close>

theorem reconnectBackoff_jitter:
  assumes "0 \<le> k" "k < 2 ^ 53"
  shows "backoffBase a \<in> {1 * Second, 2 * Second, 4 * Second, 8 * Second, 16 * Second, 30 * Second} \<and>
    4 * backoffBase a - 5 \<le> 5 * reconnectBackoff k a \<and> 5 * reconnectBackoff k a \<le> 6 * backoffBase a"
proof -
  have "a \<le> 1 \<or> a = 2 \<or> a = 3 \<or> a = 4 \<or> a = 5 \<or> 6 \<le> a" by linarith
  moreover have "a \<le> 1 \<Longrightarrow> backoffBase a = backoffBase 1" by (auto simp: backoffBase_def)
  ultimately have "backoffBase a \<in> {1 * Second, 2 * Second, 4 * Second, 8 * Second, 16 * Second, 30 * Second}"
    using backoffBase_values by auto
  then show ?thesis using reconnectBackoff_bounds [OF assms] by blast
qed

theorem reconnectBackoff_jitter_witness: "5 * reconnectBackoff 4503599627370496 7 \<le> 6 * (30 * Second)"
  using reconnectBackoff_jitter [of 4503599627370496 7] backoffBase_values(6) [of 7] by simp

text \<open>C37. The end of a session and the retry.  The number of attempts starts again at 1 exactly if the session lasted at
  least 30 seconds and its last pong came after it was established, and grows by one otherwise; a refusal
  because the identity is still in use (close code 4009) is reported as such and waits at least five seconds;
  the reported time of the next retry is always set, and \<^verbatim>\<open>Run\<close> goes on unless its context ended.
\<close>

theorem session_end_policy:
  fixes pongs :: "int list"
  assumes "0 \<le> k" "k < 2 ^ 53" "0 \<le> rsAttempt st"
    and "LastHeartbeatAt (rsStatus st) = None \<or> (\<exists>t \<le> connectedAt. LastHeartbeatAt (rsStatus st) = Some t)"
    and "run_round st (RSession connectedAt pongs err errText endedAt True k now slept) = (st', fin)"
  shows "rsAttempt st' =
      (if endedAt - connectedAt \<ge> 30 * Second \<and> pongs \<noteq> [] \<and> last pongs > connectedAt then 1 else rsAttempt st + 1) \<and>
    last (rsReports st') = rsStatus st' \<and> Attempt (rsStatus st') = rsAttempt st' \<and> LastError (rsStatus st') = errText \<and>
    State (rsStatus st') = (if identity_conflict err then ''identity_conflict'' else ''backoff'') \<and>
    (\<exists>wait \<ge> (if identity_conflict err then 5 * Second else 799999999). NextRetryAt (rsStatus st') = Some (now + wait)) \<and>
    fin = (\<not> slept)"
proof -
  let ?st2 = "report ((report st ''connecting'' [] 0 connectedAt)\<lparr>rsStatus := (rsStatus (report st ''connecting'' [] 0 connectedAt))
      \<lparr>LastConnectedAt := Some connectedAt\<rparr>\<rparr>) ''connected'' [] 0 connectedAt"
  define st3 where "st3 = fold (\<lambda>t st. on_pong st t) pongs ?st2"
  have hb: "LastHeartbeatAt (rsStatus st3) = (if pongs = [] then LastHeartbeatAt (rsStatus st) else Some (last pongs))"
    and at: "rsAttempt st3 = rsAttempt st" by (simp_all add: st3_def pongs_sel)
  define a where "a = (if stable_session (rsStatus st3) connectedAt endedAt then 0 else rsAttempt st)"
  have a: "a + 1 = (if endedAt - connectedAt \<ge> 30 * Second \<and> pongs \<noteq> [] \<and> last pongs > connectedAt then 1 else rsAttempt st + 1)"
    using assms(4) by (auto simp: a_def stable_session_def hb)
  have st': "st' = report (st3\<lparr>rsAttempt := a + 1\<rparr>) (if identity_conflict err then ''identity_conflict'' else ''backoff'') errText
      (session_wait err (reconnectBackoff k (a + 1))) now" "fin = (\<not> slept)"
    using assms(5) by (auto simp: Let_def st3_def [symmetric] a_def at sleepWithContext_def)
  have "4 * Second - 5 \<le> 5 * reconnectBackoff k (a + 1)"
    using reconnectBackoff_bounds(1) [OF assms(1,2), of "a + 1"] backoffBase_range [of "a + 1"] by (simp add: Second_def)
  then have w: "(if identity_conflict err then 5 * Second else 799999999) \<le> session_wait err (reconnectBackoff k (a + 1))"
    by (auto simp: session_wait_def Second_def)
  then have "NextRetryAt (rsStatus st') = Some (now + session_wait err (reconnectBackoff k (a + 1)))"
    by (auto simp: st' Second_def split: if_splits)
  then show ?thesis using w a by (auto simp: st')
qed

theorem session_end_policy_witness:
  "\<exists>st' fin. run_round run_init (RSession 0 [31 * Second] (CloseErr 4009 ''uuid already active'') ''conflict'' (40 * Second) True 0 (40 * Second) True) = (st', fin) \<and>
     rsAttempt st' = 1 \<and> State (rsStatus st') = ''identity_conflict'' \<and> fin = False"
proof -
  let ?r = "RSession 0 [31 * Second] (CloseErr 4009 ''uuid already active'') ''conflict'' (40 * Second) True 0 (40 * Second) True"
  obtain st' fin where r: "run_round run_init ?r = (st', fin)" by fastforce
  have "identity_conflict (CloseErr 4009 ''uuid already active'')" by (simp add: identity_conflict_def)
  with session_end_policy [OF _ _ _ _ r] have "rsAttempt st' = 1" "State (rsStatus st') = ''identity_conflict''" "fin = False"
    by (auto simp: run_init_def Second_def)
  with r show ?thesis by blast
qed

end
