(* ===== verification/Keepalive.thy ===== *)
theory Keepalive
  imports Prelude
begin

text \<open>
  Read deadlines that pongs extend, as the agent has one for its tunnel connection and the gateway for the
  WebSocket of a client: a read after the deadline fails, and only a pong that is read in time moves it.
\<close>

definition timeout :: ioerr where "timeout = OtherErr ''i/o timeout''"

text \<open>
  A watched connection: \<open>alive\<close> while its reader reads, \<open>deadline\<close> for the next read, \<open>pong_at\<close> the time of a pong
  among the events.  A connection that is no longer read is not read again; while it is, a pong in time sets
  the deadline anew and every other event leaves it alone.
\<close>

locale keepalive =
  fixes wait :: int
    and deadline :: "'s \<Rightarrow> int"
    and alive :: "'s \<Rightarrow> bool"
    and step :: "'s \<Rightarrow> 'e \<Rightarrow> 's"
    and pong_at :: "'e \<Rightarrow> int option"
  assumes alive_before: "alive (step s e) \<Longrightarrow> alive s"
    and on_pong: "alive s \<Longrightarrow> pong_at e = Some now \<Longrightarrow> now \<le> deadline s \<Longrightarrow> deadline (step s e) = now + wait"
    and on_other: "alive (step s e) \<Longrightarrow> pong_at e = None \<Longrightarrow> deadline (step s e) = deadline s"
begin

lemma alive_start: "alive (fold (\<lambda>e s. step s e) es s) \<Longrightarrow> alive s"
  by (induction es arbitrary: s) (auto dest: alive_before)

text \<open>If the pongs come in once per \<open>period\<close>, each with a delay of at most \<open>d\<close>, the deadline leaves room for the next one.\<close>

lemma beats:
  assumes "alive (fold (\<lambda>e s. step s e) es s)" and "period + d \<le> wait" and "t + wait \<le> deadline s"
    and "\<forall>i < length (List.map_filter pong_at es). t + int (Suc i) * period \<le> List.map_filter pong_at es ! i \<and>
      List.map_filter pong_at es ! i \<le> t + int (Suc i) * period + d"
  shows "t + int (Suc (length (List.map_filter pong_at es))) * period + d \<le> deadline (fold (\<lambda>e s. step s e) es s)"
  using assms
proof (induction es arbitrary: s t)
  case Nil
  then show ?case by simp
next
  case (Cons e es)
  have a: "alive (step s e)" using Cons.prems(1) alive_start by simp
  show ?case
  proof (cases "pong_at e")
    case None
    then show ?thesis using Cons.IH [of "step s e" t] Cons.prems on_other [OF a None] by simp
  next
    case (Some now)
    let ?ps = "List.map_filter pong_at es"
    have n: "t + period \<le> now" "now \<le> t + period + d" using Cons.prems(4) [rule_format, of 0] Some by simp_all
    then have dl: "deadline (step s e) = now + wait"
      using on_pong [OF alive_before [OF a] Some] Cons.prems(2,3) by linarith
    have "(t + period) + int (Suc i) * period \<le> ?ps ! i \<and> ?ps ! i \<le> (t + period) + int (Suc i) * period + d" if "i < length ?ps" for i
      using Cons.prems(4) [rule_format, of "Suc i"] that Some by (simp add: algebra_simps)
    then show ?thesis using Cons.IH [of "step s e" "t + period"] Cons.prems(1,2) dl n Some by (simp add: algebra_simps)
  qed
qed

end

end
