(* ===== verification/Agent_Session.thy ===== *)
theory Agent_Session
  imports Agent_Run Keepalive
begin

text \<open>
  One session of the agent: \<^verbatim>\<open>connState.run\<close> with its handlers, \<^verbatim>\<open>readLoop\<close> and \<^verbatim>\<open>pingLoop\<close>.  The read deadline
  of the tunnel is set when the session starts and again by every pong, not by other traffic; a read after the
  deadline is a timeout.  Steps of the two goroutines interleave as the list of events says.
\<close>

section \<open>Definitions\<close>

definition agentPingInterval :: duration where "agentPingInterval = 20 * Second"

definition agentReadTimeout :: duration where "agentReadTimeout = 90 * Second"

record session =
  sConn :: connState
  sRun :: run_state
  sDeadline :: int
  sOpen :: bool
  sPinging :: bool
  sPings :: "int list"
  sReturned :: "ioerr option"

definition run_start :: "connState \<Rightarrow> run_state \<Rightarrow> int \<Rightarrow> session" where
  "run_start c st now =
     \<lparr>sConn = c, sRun = st, sDeadline = now + agentReadTimeout, sOpen = True, sPinging = True, sPings = [], sReturned = None\<rparr>"

text \<open>
  What happens: a message, a pong, a tick of the ping loop with the outcome of the write, an error of a read, the
  expiry of the read deadline, the end of the context.
\<close>

datatype sevent =
    SMsg int bool bool int bytes
  | SPong int
  | STick int bool
  | SReadErr ioerr
  | SExpire int
  | SCtxDone ioerr

definition reading :: "session \<Rightarrow> bool" where
  "reading s \<longleftrightarrow> sReturned s = None \<and> sOpen s"

definition pong_handler :: "session \<Rightarrow> int \<Rightarrow> session" where
  "pong_handler s now = s\<lparr>sDeadline := now + agentReadTimeout, sRun := on_pong (sRun s) now\<rparr>"

definition ping_tick :: "session \<Rightarrow> int \<Rightarrow> bool \<Rightarrow> session" where
  "ping_tick s now ok =
     (if ok \<and> sOpen s then s\<lparr>sPings := sPings s @ [now]\<rparr> else s\<lparr>sOpen := False, sPinging := False\<rparr>)"

fun session_step :: "session \<Rightarrow> sevent \<Rightarrow> session" where
  "session_step s (SMsg now pick ok mt msg) =
     (if reading s \<and> now \<le> sDeadline s then s\<lparr>sConn := agent_readLoop_msg pick ok (sConn s) mt msg\<rparr> else s)"
| "session_step s (SPong now) = (if reading s \<and> now \<le> sDeadline s then pong_handler s now else s)"
| "session_step s (STick now ok) = (if sPinging s then ping_tick s now ok else s)"
| "session_step s (SReadErr e) = (if sReturned s = None then s\<lparr>sReturned := Some e\<rparr> else s)"
| "session_step s (SExpire now) =
     (if sReturned s = None \<and> now > sDeadline s then s\<lparr>sReturned := Some timeout\<rparr> else s)"
| "session_step s (SCtxDone e) =
     s\<lparr>sPinging := False, sOpen := False, sReturned := (if sReturned s = None then Some e else sReturned s)\<rparr>"

definition session_run :: "session \<Rightarrow> sevent list \<Rightarrow> session" where
  "session_run s evs = fold (\<lambda>ev s. session_step s ev) evs s"

section \<open>Lemmas\<close>

lemma session_run_simps [simp]:
  "session_run s [] = s" "session_run s (ev # evs) = session_run (session_step s ev) evs"
  "session_run s (a @ b) = session_run (session_run s a) b"
  by (simp_all add: session_run_def)

text \<open>A session only does to the streams what the steps of the connection allow.\<close>

lemma session_step_conn:
  "agent_inv (sConn s) \<Longrightarrow> aReading (sConn s) \<Longrightarrow> agent_step\<^sup>*\<^sup>* (sConn s) (sConn (session_step s ev))"
  by (cases ev) (auto simp: pong_handler_def ping_tick_def intro: agent_steps_readLoop_msg)

text \<open>The undisturbed events: messages, pongs, and pings that are written.\<close>

fun quiet :: "sevent \<Rightarrow> bool" where
  "quiet (SMsg _ _ _ _ _) \<longleftrightarrow> True"
| "quiet (SPong _) \<longleftrightarrow> True"
| "quiet (STick _ ok) \<longleftrightarrow> ok"
| "quiet _ \<longleftrightarrow> False"

fun pong_time :: "sevent \<Rightarrow> int option" where
  "pong_time (SPong now) = Some now"
| "pong_time _ = None"

lemma quiet_reading: "list_all quiet evs \<Longrightarrow> reading s \<Longrightarrow> reading (session_run s evs)"
proof (induction evs arbitrary: s)
  case (Cons ev evs)
  have "reading (session_step s ev)" using Cons.prems by (cases ev) (auto simp: reading_def pong_handler_def ping_tick_def)
  then show ?case using Cons by simp
qed simp

interpretation agent_watch: keepalive agentReadTimeout sDeadline reading session_step pong_time
proof
  fix s e now
  show "reading (session_step s e) \<Longrightarrow> reading s"
    by (cases e) (auto simp: reading_def pong_handler_def ping_tick_def split: if_splits)
  show "reading s \<Longrightarrow> pong_time e = Some now \<Longrightarrow> now \<le> sDeadline s \<Longrightarrow> sDeadline (session_step s e) = now + agentReadTimeout"
    by (cases e) (auto simp: pong_handler_def)
  show "reading (session_step s e) \<Longrightarrow> pong_time e = None \<Longrightarrow> sDeadline (session_step s e) = sDeadline s"
    by (cases e) (auto simp: ping_tick_def)
qed

end
