(* ===== verification/Gateway_Client.thy ===== *)
theory Gateway_Client
  imports Gateway_Ws Keepalive
begin

text \<open>
  The ping loop of a client's WebSocket (\<^verbatim>\<open>startClientWSPingLoop\<close>, \<^verbatim>\<open>internal/gateway/server.go\<close>): with an interval
  configured, the handler sets a read deadline that only pongs extend.  The relay itself is \<open>framed_step\<close>; its
  reader meets a timeout when the deadline has passed.
\<close>

section \<open>Definitions\<close>

record client_conn =
  ccRelay :: wsr
  ccDeadline :: "int option"

definition startClientWSPingLoop :: "Server \<Rightarrow> int \<Rightarrow> client_conn" where
  "startClientWSPingLoop s now =
     \<lparr>ccRelay = wsr_new, ccDeadline = map_option (\<lambda>wait. now + wait) (clientPongWait s)\<rparr>"

definition client_pong :: "Server \<Rightarrow> client_conn \<Rightarrow> int \<Rightarrow> client_conn" where
  "client_pong s c now =
     (case clientPongWait s of None \<Rightarrow> c | Some wait \<Rightarrow> c\<lparr>ccDeadline := Some (now + wait)\<rparr>)"

text \<open>Without a deadline every read is in time.\<close>

definition in_time :: "client_conn \<Rightarrow> int \<Rightarrow> bool" where
  "in_time c now = (case ccDeadline c of None \<Rightarrow> True | Some d \<Rightarrow> now \<le> d)"

text \<open>
  The events of the relay with the times that matter: a message or a pong of the client, the expiry of the
  deadline, and every other event of the relay.
\<close>

datatype cevent =
    CMsg int int bytes bool
  | CPong int
  | CExpire int bool
  | CRelay wsevent

definition relay_step :: "bool \<Rightarrow> Server \<Rightarrow> client_conn \<Rightarrow> wsevent \<Rightarrow> client_conn" where
  "relay_step coerce s c ev = c\<lparr>ccRelay := framed_step coerce (0 < clientWSPingInterval s) (ccRelay c) ev\<rparr>"

fun client_step :: "bool \<Rightarrow> Server \<Rightarrow> client_conn \<Rightarrow> cevent \<Rightarrow> client_conn" where
  "client_step coerce s c (CMsg now mt data ok) =
     (if in_time c now then relay_step coerce s c (EvClientMsg mt data ok) else c)"
| "client_step coerce s c (CPong now) = (if rReader (ccRelay c) \<and> in_time c now then client_pong s c now else c)"
| "client_step coerce s c (CExpire now ok) =
     (if in_time c now then c else relay_step coerce s c (EvClientErr timeout ok))"
| "client_step coerce s c (CRelay ev) = relay_step coerce s c ev"

definition client_run :: "bool \<Rightarrow> Server \<Rightarrow> client_conn \<Rightarrow> cevent list \<Rightarrow> client_conn" where
  "client_run coerce s c evs = fold (\<lambda>ev c. client_step coerce s c ev) evs c"

section \<open>Lemmas\<close>

fun client_pong_time :: "cevent \<Rightarrow> int option" where
  "client_pong_time (CPong now) = Some now"
| "client_pong_time _ = None"

definition pongWait :: "Server \<Rightarrow> int" where
  "pongWait s = 2 * clientWSPingInterval s + 5 * Second"

lemma clientPongWait_exact:
  "0 < clientWSPingInterval s \<Longrightarrow> pongWait s \<le> i64_max \<Longrightarrow> clientPongWait s = Some (pongWait s)"
  by (simp add: clientPongWait_def pongWait_def i64_max_def time_consts wrap64_nonneg_id)

lemma client_run_simps [simp]:
  "client_run co s c [] = c" "client_run co s c (ev # evs) = client_run co s (client_step co s c ev) evs"
  "client_run co s c (as @ bs) = client_run co s (client_run co s c as) bs"
  by (simp_all add: client_run_def)

text \<open>The timed relay is the relay: its runs are runs of \<open>framed_step\<close>, a timeout being one more read error.\<close>

lemma client_run_framed:
  "\<exists>wevs. ccRelay (client_run co s (startClientWSPingLoop s t) evs) = framed_run co (0 < clientWSPingInterval s) wevs"
proof (induction evs rule: rev_induct)
  case Nil
  show ?case by (rule exI [of _ "[]"]) (simp add: startClientWSPingLoop_def framed_run_def)
next
  case (snoc ev evs)
  let ?p = "0 < clientWSPingInterval s" and ?c = "client_run co s (startClientWSPingLoop s t) evs"
  from snoc obtain wevs where w: "ccRelay ?c = framed_run co ?p wevs" by blast
  have "\<exists>es. ccRelay (client_step co s ?c ev) = fold (\<lambda>e x. framed_step co ?p x e) es (ccRelay ?c)"
  proof (cases ev)
    case (CMsg now mt data ok)
    then show ?thesis by (auto simp: relay_step_def intro: exI [of _ "[]"] exI [of _ "[EvClientMsg mt data ok]"])
  next
    case (CExpire now ok)
    then show ?thesis by (auto simp: relay_step_def intro: exI [of _ "[]"] exI [of _ "[EvClientErr timeout ok]"])
  next
    case (CRelay e)
    then show ?thesis by (auto simp: relay_step_def intro: exI [of _ "[e]"])
  next
    case (CPong now)
    then show ?thesis by (auto simp: client_pong_def split: option.splits intro: exI [of _ "[]"])
  qed
  then obtain es where "ccRelay (client_step co s ?c ev) = framed_run co ?p (wevs @ es)"
    unfolding w by (auto simp: framed_run_def)
  then show ?case by (auto simp del: client_step.simps)
qed

interpretation client_watch: keepalive "the (clientPongWait s)" "\<lambda>c. case ccDeadline c of None \<Rightarrow> 0 | Some d \<Rightarrow> d"
    "\<lambda>c. clientPongWait s \<noteq> None \<and> rReader (ccRelay c)" "client_step co s" client_pong_time
  for co s
proof
  fix c e now
  have r: "rReader (ccRelay (relay_step co s c ev)) \<Longrightarrow> rReader (ccRelay c)" for ev
    using to_agent.step_active [of co "0 < clientWSPingInterval s" "ccRelay c" ev] by (simp add: relay_step_def)
  show "clientPongWait s \<noteq> None \<and> rReader (ccRelay (client_step co s c e)) \<Longrightarrow> clientPongWait s \<noteq> None \<and> rReader (ccRelay c)"
    by (cases e) (auto simp: client_pong_def dest: r split: if_splits option.splits)
  show "clientPongWait s \<noteq> None \<and> rReader (ccRelay c) \<Longrightarrow> client_pong_time e = Some now \<Longrightarrow>
      now \<le> (case ccDeadline c of None \<Rightarrow> 0 | Some d \<Rightarrow> d) \<Longrightarrow>
      (case ccDeadline (client_step co s c e) of None \<Rightarrow> 0 | Some d \<Rightarrow> d) = now + the (clientPongWait s)"
    by (cases e) (auto simp: client_pong_def in_time_def split: option.splits)
  show "clientPongWait s \<noteq> None \<and> rReader (ccRelay (client_step co s c e)) \<Longrightarrow> client_pong_time e = None \<Longrightarrow>
      (case ccDeadline (client_step co s c e) of None \<Rightarrow> 0 | Some d \<Rightarrow> d) = (case ccDeadline c of None \<Rightarrow> 0 | Some d \<Rightarrow> d)"
    by (cases e) (auto simp: relay_step_def)
qed

text \<open>The deadline is never later than the wait after the last pong.\<close>

lemma deadline_bound:
  assumes "clientPongWait s = Some w" and "ccDeadline c = Some d" and "d \<le> p + w"
    and "\<forall>q \<in> set (List.map_filter client_pong_time evs). q \<le> p"
  shows "\<exists>d'. ccDeadline (client_run co s c evs) = Some d' \<and> d' \<le> p + w"
  using assms(2-)
proof (induction evs arbitrary: c d)
  case (Cons ev evs)
  have "\<exists>d'. ccDeadline (client_step co s c ev) = Some d' \<and> d' \<le> p + w"
    using Cons.prems assms(1) by (cases ev) (auto simp: relay_step_def client_pong_def)
  then obtain d' where "ccDeadline (client_step co s c ev) = Some d'" "d' \<le> p + w" by blast
  moreover have "\<forall>q \<in> set (List.map_filter client_pong_time evs). q \<le> p"
    using Cons.prems(3) by (cases "client_pong_time ev") auto
  ultimately show ?case using Cons.IH by simp
qed simp

section \<open>Properties\<close>

text \<open>C18. The ping loop cuts exactly the silent clients.  Let an interval be configured that does not overflow the wait for
  pongs.  While the reader of a client's WebSocket reads, and the pongs of the client come once per interval with a
  delay of at most an interval and five seconds, the next read is in time until the next pong is overdue.  And a
  client whose pongs have stopped is cut: when the deadline expires later than the wait after the last pong, the
  reader leaves its loop and, when it has told the agent, cancels the context, whatever else happened on the relay before.\<close>

theorem client_ping_detects_silence:
  fixes s t evs co now d p ok
  defines "T \<equiv> clientWSPingInterval s" and "c \<equiv> client_run co s (startClientWSPingLoop s t) evs"
    and "ps \<equiv> List.map_filter client_pong_time evs"
  assumes "0 < T" and "pongWait s \<le> i64_max"
  shows "(rReader (ccRelay c) \<and> d \<le> T + 5 * Second \<and>
      (\<forall>i < length ps. t + int (Suc i) * T \<le> ps ! i \<and> ps ! i \<le> t + int (Suc i) * T + d) \<and>
      now \<le> t + int (Suc (length ps)) * T + d \<longrightarrow> in_time c now) \<and>
    (t \<le> p \<and> (\<forall>q \<in> set ps. q \<le> p) \<and> p + pongWait s < now \<longrightarrow>
      \<not> rReader (ccRelay (client_step co s c (CExpire now ok))) \<and>
      rCancelled (ccRelay (client_run co s c [CExpire now ok, CRelay EvReaderReturns])))"
proof (intro conjI impI)
  have w: "clientPongWait s = Some (pongWait s)" using clientPongWait_exact assms by simp
  have start: "ccDeadline (startClientWSPingLoop s t) = Some (t + pongWait s)" by (simp add: startClientWSPingLoop_def w)
  show "in_time c now" if h: "rReader (ccRelay c) \<and> d \<le> T + 5 * Second \<and>
      (\<forall>i < length ps. t + int (Suc i) * T \<le> ps ! i \<and> ps ! i \<le> t + int (Suc i) * T + d) \<and>
      now \<le> t + int (Suc (length ps)) * T + d"
  proof -
    have "t + int (Suc (length ps)) * T + d \<le> (case ccDeadline c of None \<Rightarrow> 0 | Some d \<Rightarrow> d)"
      unfolding ps_def c_def client_run_def
      by (rule client_watch.beats)
        (use h w start in \<open>simp_all add: pongWait_def T_def c_def ps_def client_run_def\<close>)
    then show ?thesis using h by (auto simp: in_time_def split: option.splits)
  qed
  assume h: "t \<le> p \<and> (\<forall>q \<in> set ps. q \<le> p) \<and> p + pongWait s < now"
  then obtain d' where "ccDeadline c = Some d'" "d' \<le> p + pongWait s"
    using deadline_bound [OF w start, of p evs co] by (auto simp: ps_def c_def)
  then have "\<not> in_time c now" using h by (simp add: in_time_def)
  then show r: "\<not> rReader (ccRelay (client_step co s c (CExpire now ok)))"
    by (auto simp: relay_step_def client_err_def timeout_def)
  obtain wevs where "ccRelay (client_run co s (startClientWSPingLoop s t) (evs @ [CExpire now ok])) =
      framed_run co (0 < clientWSPingInterval s) wevs"
    using client_run_framed by blast
  then have "end_inv (ccRelay (client_step co s c (CExpire now ok)))" using end_inv_run [of co _ wevs] by (simp add: c_def)
  then show "rCancelled (ccRelay (client_run co s c [CExpire now ok, CRelay EvReaderReturns]))"
    using r by (auto simp: end_inv_def relay_step_def simp del: client_step.simps(3))
qed

theorem client_ping_detects_silence_witness:
  "let s = (NewServerFromEnv (\<lambda>_. []))\<lparr>clientWSPingInterval := 10 * Second\<rparr>;
       c = client_run False s (startClientWSPingLoop s 0) [CPong (11 * Second), CRelay (EvPing True)]
   in in_time c (21 * Second) \<and> \<not> rReader (ccRelay (client_step False s c (CExpire (37 * Second) True)))"
proof -
  let ?s = "(NewServerFromEnv (\<lambda>_. []))\<lparr>clientWSPingInterval := 10 * Second\<rparr>"
  let ?evs = "[CPong (11 * Second), CRelay (EvPing True)]"
  have w: "0 < clientWSPingInterval ?s" "pongWait ?s = 25 * Second" "pongWait ?s \<le> i64_max"
    by (simp_all add: pongWait_def time_consts i64_max_def)
  have "clientPongWait ?s = Some (25 * Second)" using clientPongWait_exact [OF w(1,3)] w(2) by simp
  then have "rReader (ccRelay (client_run False ?s (startClientWSPingLoop ?s 0) ?evs))"
    by (simp add: startClientWSPingLoop_def client_pong_def in_time_def relay_step_def wsr_new_def time_consts)
  then have "in_time (client_run False ?s (startClientWSPingLoop ?s 0) ?evs) (21 * Second)"
    using client_ping_detects_silence [OF w(1,3), of False 0 ?evs "1 * Second" "21 * Second"] by (simp add: time_consts)
  moreover have "\<not> rReader (ccRelay (client_step False ?s (client_run False ?s (startClientWSPingLoop ?s 0) ?evs)
      (CExpire (37 * Second) True)))"
    using client_ping_detects_silence [OF w(1,3), of False 0 ?evs 0 "37 * Second" "11 * Second" True] w(2)
    by (simp add: time_consts del: client_run_simps client_step.simps)
  ultimately show ?thesis by (simp add: Let_def del: client_run_simps client_step.simps)
qed

end
