(* ===== verification/Go_Netip.thy ===== *)
theory Go_Netip
  imports Go_Net
begin

text \<open>
  \<^verbatim>\<open>netip.ParseAddr\<close> and \<^verbatim>\<open>netip.Addr.String\<close>, with zones, and the conversions \<^verbatim>\<open>IP.To4\<close> and
  \<^verbatim>\<open>IP.To16\<close> of package \<^verbatim>\<open>net\<close>.  An address is its 4 or 16 bytes together with its zone.
\<close>

section \<open>Definitions\<close>

type_synonym addr = "nat list \<times> string"

definition ParseAddr :: "string \<Rightarrow> addr option" where
  "ParseAddr s =
     (case dropWhile (\<lambda>c. c \<noteq> CHR ''.'' \<and> c \<noteq> CHR '':'' \<and> c \<noteq> CHR ''%'') s of
        [] \<Rightarrow> None
      | c # _ \<Rightarrow>
          if c = CHR ''.'' then map_option (\<lambda>ip. (ip, [])) (parseIPv4 s)
          else if c = CHR '':'' then
            (case cutAt CHR ''%'' s of
               (a, None) \<Rightarrow> map_option (\<lambda>ip. (ip, [])) (parseIPv6 a)
             | (a, Some zone) \<Rightarrow> if zone = [] then None else map_option (\<lambda>ip. (ip, zone)) (parseIPv6 a))
          else None)"

definition hex_lower :: "nat \<Rightarrow> char" where
  "hex_lower n = (if n < 10 then char_of (48 + n) else char_of (87 + n))"

fun hex_text :: "nat \<Rightarrow> string" where
  "hex_text n = (if n < 16 then [hex_lower n] else hex_text (n div 16) @ [hex_lower (n mod 16)])"

declare hex_text.simps [simp del]

text \<open>The 16-bit groups of 16 bytes, and back.\<close>

fun groups :: "nat list \<Rightarrow> nat list" where
  "groups (a # b # r) = (256 * a + b) # groups r"
| "groups _ = []"

definition ungroup :: "nat list \<Rightarrow> nat list" where
  "ungroup gs = concat (map (\<lambda>g. [g div 256, g mod 256]) gs)"

text \<open>The first of the longest runs of at least two zero groups: its start and length, or \<open>(0, 0)\<close>.\<close>

definition longer_run :: "nat list \<Rightarrow> nat \<Rightarrow> nat \<times> nat \<Rightarrow> nat \<times> nat" where
  "longer_run gs i best =
     (let l = length (takeWhile (\<lambda>g. g = 0) (drop i gs)) in if l \<ge> 2 \<and> l > snd best then (i, l) else best)"

definition zero_run :: "nat list \<Rightarrow> nat \<times> nat" where
  "zero_run gs = fold (longer_run gs) [0 ..< length gs] (0, 0)"

definition ipv6_text :: "nat list \<Rightarrow> string" where
  "ipv6_text ip =
     (let gs = groups ip
      in case zero_run gs of (i, l) \<Rightarrow>
           if l = 0 then joinWith '':'' (map hex_text gs)
           else joinWith '':'' (map hex_text (take i gs)) @ ''::'' @ joinWith '':'' (map hex_text (drop (i + l) gs)))"

definition ip4_text :: "nat list \<Rightarrow> string" where
  "ip4_text ip = joinWith ''.'' (map itoa_nat ip)"

definition Is4In6 :: "nat list \<Rightarrow> bool" where
  "Is4In6 ip \<longleftrightarrow> length ip = 16 \<and> take 12 ip = replicate 10 0 @ [255, 255]"

definition Addr_String :: "addr \<Rightarrow> string" where
  "Addr_String a =
     (case a of (ip, zone) \<Rightarrow>
        if length ip = 4 then ip4_text ip
        else (if Is4In6 ip then ''::ffff:'' @ ip4_text (drop 12 ip) else ipv6_text ip) @
             (if zone = [] then [] else ''%'' @ zone))"

text \<open>\<^verbatim>\<open>net.IP\<close>: any number of bytes; its text, for 4 and 16 bytes, unmaps mapped IPv4 addresses.\<close>

definition To4 :: "nat list \<Rightarrow> nat list option" where
  "To4 ip = (if length ip = 4 then Some ip else if Is4In6 ip then Some (drop 12 ip) else None)"

definition To16 :: "nat list \<Rightarrow> nat list option" where
  "To16 ip = (if length ip = 4 then Some (map4in6 ip) else if length ip = 16 then Some ip else None)"

definition IP_String :: "nat list \<Rightarrow> string" where
  "IP_String ip = (case To4 ip of Some q \<Rightarrow> Addr_String (q, []) | None \<Rightarrow> Addr_String (ip, []))"

definition bytes_ok :: "nat list \<Rightarrow> bool" where
  "bytes_ok ip = list_all (\<lambda>b. b < 256) ip"

definition addr_ok :: "addr \<Rightarrow> bool" where
  "addr_ok a \<longleftrightarrow> bytes_ok (fst a) \<and> (length (fst a) = 4 \<and> snd a = [] \<or> length (fst a) = 16)"

section \<open>Lemmas\<close>

subsection \<open>Numbers in hexadecimal\<close>

lemma hex_lower_ok: "n < 16 \<Longrightarrow> is_hex (hex_lower n) \<and> unhex (hex_lower n) = n"
  by (auto simp: is_hex_def hex_lower_def unhex_def is_digit_def is_lower_def of_char_of)

lemma hex_val_append: "hex_val acc (s @ t) = hex_val (hex_val acc s) t"
  by (induction s arbitrary: acc) simp_all

lemma hex_text_ok: "list_all is_hex (hex_text n) \<and> hex_val 0 (hex_text n) = n \<and> hex_text n \<noteq> []"
proof (induction n rule: hex_text.induct)
  case (1 n)
  then show ?case
    using hex_lower_ok [of n] hex_lower_ok [of "n mod 16"] by (auto simp: hex_text.simps [of n] hex_val_append)
qed

lemma length_hex_text: "n < 16 ^ Suc k \<Longrightarrow> length (hex_text n) \<le> Suc k"
proof (induction k arbitrary: n)
  case (Suc k)
  then have "n div 16 < 16 ^ Suc k" by (simp add: div_less_iff_less_mult mult.commute)
  with Suc.IH [of "n div 16"] show ?case by (simp add: hex_text.simps [of n])
qed (simp add: hex_text.simps)

lemma is_hex_plain: "is_hex c \<Longrightarrow> c \<noteq> CHR '':'' \<and> c \<noteq> CHR ''.'' \<and> c \<noteq> CHR ''%'' \<and> c \<noteq> CHR ''['' \<and> c \<noteq> CHR '']''"
  by (auto simp: is_hex_def is_digit_def)

lemma takeWhile_hex_text:
  assumes "r = [] \<or> \<not> is_hex (hd r)"
  shows "takeWhile is_hex (hex_text n @ r) = hex_text n" "dropWhile is_hex (hex_text n @ r) = r"
proof -
  have "\<forall>c \<in> set (hex_text n). is_hex c" using hex_text_ok [of n] by (simp add: list_all_iff)
  then show "takeWhile is_hex (hex_text n @ r) = hex_text n" "dropWhile is_hex (hex_text n @ r) = r"
    using assms by (cases r; auto simp: takeWhile_append dropWhile_append)+
qed

subsection \<open>Groups\<close>

lemma ungroup_simps [simp]: "ungroup [] = []" "ungroup (g # gs) = g div 256 # g mod 256 # ungroup gs"
  "ungroup (a @ b) = ungroup a @ ungroup b"
  by (simp_all add: ungroup_def)

lemma length_ungroup [simp]: "length (ungroup gs) = 2 * length gs"
  by (induction gs) simp_all

lemma ungroup_groups: "bytes_ok ip \<Longrightarrow> even (length ip) \<Longrightarrow> ungroup (groups ip) = ip"
  by (induction ip rule: groups.induct) (auto simp: bytes_ok_def)

lemma length_groups: "length (groups ip) = length ip div 2"
  by (induction ip rule: groups.induct) auto

lemma groups_bound: "bytes_ok ip \<Longrightarrow> g \<in> set (groups ip) \<Longrightarrow> g < 65536"
  by (induction ip rule: groups.induct) (auto simp: bytes_ok_def)

lemma ungroup_zeros: "ungroup (replicate n 0) = replicate (2 * n) 0"
  by (induction n) simp_all

definition run_ok :: "nat list \<Rightarrow> nat \<times> nat \<Rightarrow> bool" where
  "run_ok gs b \<longleftrightarrow> fst b + snd b \<le> length gs \<and> take (snd b) (drop (fst b) gs) = replicate (snd b) 0 \<and> snd b \<noteq> 1"

lemma run_ok_longer: "run_ok gs b \<Longrightarrow> i < length gs \<Longrightarrow> run_ok gs (longer_run gs i b)"
proof -
  assume b: "run_ok gs b" and i: "i < length gs"
  let ?w = "takeWhile (\<lambda>g. g = 0) (drop i gs)"
  have "length ?w \<le> length gs - i" using length_takeWhile_le [of _ "drop i gs"] by simp
  moreover have "?w = replicate (length ?w) 0" by (rule replicate_eqI) (auto dest: set_takeWhileD)
  moreover have "take (length ?w) (drop i gs) = ?w" by (metis takeWhile_eq_take)
  ultimately show ?thesis using b i by (auto simp: run_ok_def longer_run_def Let_def)
qed

lemma run_ok_zero_run: "run_ok gs (zero_run gs)"
proof -
  have "run_ok gs (fold (longer_run gs) js b)" if "run_ok gs b" "\<forall>i \<in> set js. i < length gs" for js b
    using that by (induction js arbitrary: b) (auto simp: run_ok_longer)
  then show ?thesis by (simp add: zero_run_def run_ok_def)
qed

lemma zero_run_split:
  assumes "zero_run gs = (i, l)"
  shows "i + l \<le> length gs" "gs = take i gs @ replicate l 0 @ drop (i + l) gs" "l \<noteq> 1"
proof -
  have *: "i + l \<le> length gs \<and> take l (drop i gs) = replicate l 0 \<and> l \<noteq> 1"
    using run_ok_zero_run [of gs] assms by (simp add: run_ok_def)
  then show "i + l \<le> length gs" "l \<noteq> 1" by auto
  have "gs = take i gs @ take l (drop i gs) @ drop (i + l) gs"
    by (metis append_take_drop_id drop_drop add.commute)
  with * show "gs = take i gs @ replicate l 0 @ drop (i + l) gs" by simp
qed

subsection \<open>Reading back an IPv6 address\<close>

definition hex_groups :: "nat list \<Rightarrow> string" where
  "hex_groups gs = joinWith '':'' (map hex_text gs)"

lemma hex_groups_simps [simp]:
  "hex_groups [] = []" "hex_groups [g] = hex_text g" "hex_groups (g # h # gs) = hex_text g @ CHR '':'' # hex_groups (h # gs)"
  by (simp_all add: hex_groups_def)

lemma hex_text_hd: "hex_text n \<noteq> [] \<and> is_hex (hd (hex_text n))"
  using hex_text_ok [of n] by (simp add: list_all_iff)

lemma hex_groups_hd: "gs \<noteq> [] \<Longrightarrow> hex_groups gs \<noteq> [] \<and> hd (hex_groups gs) \<noteq> CHR '':''"
proof (induction gs rule: induct_list012)
  case (2 g)
  show ?case using hex_text_hd [of g] is_hex_plain by auto
next
  case (3 g h hs)
  show ?case using hex_text_hd [of g] is_hex_plain by auto
qed simp

lemma hex_groups_chars: "c \<in> set (hex_groups gs) \<Longrightarrow> is_hex c \<or> c = CHR '':''"
  using hex_text_ok by (induction gs rule: induct_list012) (auto simp: list_all_iff)

text \<open>One group in front of a colon or of the end.\<close>

lemma ipv6_groups_step:
  assumes "g < 65536" and "length ip < 16" and "r = [] \<or> hd r = CHR '':''"
  shows "ipv6_groups (hex_text g @ r) ip ell =
    (let ip' = ip @ [g div 256, g mod 256]
     in if r = [] then Some (ip', ell, [])
        else if length r = 1 then None
        else if hd (tl r) = CHR '':'' then
          (if ell \<noteq> None then None
           else if tl (tl r) = [] then Some (ip', Some (length ip'), [])
           else ipv6_groups (tl (tl r)) ip' (Some (length ip')))
        else ipv6_groups (tl r) ip' ell)"
proof -
  have "\<not> is_hex CHR '':''" by code_simp
  then have "r = [] \<or> \<not> is_hex (hd r)" using assms(3) by auto
  moreover have "length (hex_text g) \<le> 4" using length_hex_text [of g 3] assms(1) by simp
  moreover have "\<not> hasPrefix r ''.''" using assms(3) by (cases r) (auto simp: hasPrefix_def)
  ultimately show ?thesis
    using hex_text_ok [of g] assms(2,3)
    by (subst ipv6_groups.simps) (auto simp: takeWhile_hex_text Let_def)
qed

lemma ipv6_groups_plain:
  "gs \<noteq> [] \<Longrightarrow> \<forall>g \<in> set gs. g < 65536 \<Longrightarrow> length ip + 2 * length gs \<le> 16 \<Longrightarrow>
   ipv6_groups (hex_groups gs) ip ell = Some (ip @ ungroup gs, ell, [])"
proof (induction gs arbitrary: ip rule: induct_list012)
  case (2 g)
  then show ?case using ipv6_groups_step [of g ip "[]" ell] by simp
next
  case (3 g h gs)
  let ?r = "hex_groups (h # gs)"
  have "?r \<noteq> []" "hd ?r \<noteq> CHR '':''" using hex_groups_hd [of "h # gs"] by auto
  then show ?case
    using 3 ipv6_groups_step [of g ip "CHR '':'' # ?r" ell] by (simp add: Let_def)
qed simp

lemma ipv6_groups_ellipsis:
  "gs \<noteq> [] \<Longrightarrow> \<forall>g \<in> set gs \<union> set hs. g < 65536 \<Longrightarrow> length ip + 2 * length gs + 2 * length hs < 16 \<Longrightarrow>
   ipv6_groups (hex_groups gs @ ''::'' @ hex_groups hs) ip None =
     Some (ip @ ungroup gs @ ungroup hs, Some (length ip + 2 * length gs), [])"
proof (induction gs arbitrary: ip rule: induct_list012)
  case (2 g)
  then show ?case
    using ipv6_groups_step [of g ip "''::'' @ hex_groups hs" None] hex_groups_hd [of hs]
    by (cases "hs = []") (simp_all add: Let_def ipv6_groups_plain)
next
  case (3 g h gs)
  let ?r = "hex_groups (h # gs)"
  have "?r \<noteq> []" "hd ?r \<noteq> CHR '':''" using hex_groups_hd [of "h # gs"] by auto
  then have "hd (?r @ ''::'' @ hex_groups hs) \<noteq> CHR '':''" by simp
  then show ?case
    using 3 ipv6_groups_step [of g ip "CHR '':'' # ?r @ ''::'' @ hex_groups hs" None] by (simp add: Let_def)
qed simp

lemma parseIPv6_text:
  assumes "bytes_ok ip" and "length ip = 16"
  shows "parseIPv6 (ipv6_text ip) = Some ip"
proof -
  let ?gs = "groups ip"
  have gs: "\<forall>g \<in> set ?gs. g < 65536" "length ?gs = 8" "ungroup ?gs = ip"
    using groups_bound [OF assms(1)] assms by (simp_all add: length_groups ungroup_groups)
  obtain i l where z: "zero_run ?gs = (i, l)" by fastforce
  define pre post where "pre = take i ?gs" and "post = drop (i + l) ?gs"
  note run = zero_run_split [OF z]
  have split: "?gs = pre @ replicate l 0 @ post" unfolding pre_def post_def by (rule run(2))
  have b: "\<forall>g \<in> set pre \<union> set post. g < 65536" using gs(1) split by (metis Un_iff set_append)
  have len: "length pre + l + length post = 8" using gs(2) split by (metis length_append length_replicate add.assoc)
  have pct: "CHR ''%'' \<notin> set (hex_groups hs)" for hs using hex_groups_chars [of _ hs] is_hex_plain by fastforce
  have col: "\<not> hasPrefix (hex_groups hs @ r) ''::''" if "hs \<noteq> []" for hs r
    using hex_groups_hd [OF that] by (cases "hex_groups hs") (auto simp: hasPrefix_def)
  have shape: "ipv6_text ip = (if l = 0 then hex_groups ?gs else hex_groups pre @ ''::'' @ hex_groups post)"
    by (simp add: ipv6_text_def Let_def z pre_def post_def hex_groups_def)
  have ip: "ip = ungroup pre @ replicate (2 * l) 0 @ ungroup post"
    using gs(3) split by (metis ungroup_simps(3) ungroup_zeros)
  consider "l = 0" | "l \<noteq> 0" "pre = []" | "l \<noteq> 0" "pre \<noteq> []" by blast
  then show ?thesis
  proof cases
    case 1
    have "?gs \<noteq> []" using gs(2) by auto
    then show ?thesis
      using 1 shape gs col [of ?gs "[]"] pct ipv6_groups_plain [of ?gs "[]" None]
      by (simp add: parseIPv6_def expand_ellipsis_def assms(2))
  next
    case 2
    show ?thesis
    proof (cases "post = []")
      case True
      then show ?thesis using 2 shape ip len by (simp add: parseIPv6_def hasPrefix_def)
    next
      case False
      have "length (hex_groups post) > 0" using hex_groups_hd [OF False] by simp
      then show ?thesis
        using 2 False shape ip len b run(3) pct ipv6_groups_plain [of post "[]" "Some 0"]
        by (auto simp: parseIPv6_def hasPrefix_def expand_ellipsis_def)
    qed
  next
    case 3
    have "length pre + length post < 8" using 3 len by simp
    then show ?thesis
      using 3 shape ip len b col [of pre] pct ipv6_groups_ellipsis [of pre post "[]"]
      by (auto simp: parseIPv6_def expand_ellipsis_def)
  qed
qed

subsection \<open>Parsed addresses are well formed\<close>

lemma parseIPv4_ok: "parseIPv4 s = Some ip \<Longrightarrow> bytes_ok ip \<and> length ip = 4"
proof -
  have *: "those_octets ss = Some ns \<Longrightarrow> bytes_ok ns \<and> length ns = length ss" for ss ns
    by (induction ss arbitrary: ns) (auto simp: bytes_ok_def parse_octet_def split: option.splits if_splits)
  assume "parseIPv4 s = Some ip"
  then show ?thesis using * by (auto simp: parseIPv4_def Let_def split: if_splits)
qed

lemma hex_val_bound: "list_all is_hex s \<Longrightarrow> hex_val acc s < (acc + 1) * 16 ^ length s"
proof (induction s arbitrary: acc)
  case (Cons c s)
  have "unhex c < 16" using Cons.prems by (auto simp: is_hex_def unhex_def is_digit_def is_lower_def)
  then have "(16 * acc + unhex c + 1) * 16 ^ length s \<le> (16 * acc + 16) * 16 ^ length s" by (intro mult_right_mono) auto
  moreover have "hex_val acc (c # s) < (16 * acc + unhex c + 1) * 16 ^ length s" using Cons by simp
  ultimately have "hex_val acc (c # s) < (16 * acc + 16) * 16 ^ length s" by (rule order.strict_trans2 [rotated])
  then show ?case by (simp add: algebra_simps)
qed simp

lemma ipv6_groups_ok:
  "ipv6_groups s ip ell = Some (ip', ell', r) \<Longrightarrow> bytes_ok ip \<Longrightarrow> even (length ip) \<Longrightarrow> length ip \<le> 16 \<Longrightarrow>
   bytes_ok ip' \<and> length ip' \<le> 16"
proof (induction s ip ell rule: ipv6_groups.induct)
  case (1 s ip ell)
  let ?g = "takeWhile is_hex s" and ?r = "dropWhile is_hex s"
  let ?ip = "ip @ [hex_val 0 ?g div 256, hex_val 0 ?g mod 256]"
  show ?case
  proof (cases "length ip \<ge> 16")
    case True
    then show ?thesis using "1.prems" by (simp add: ipv6_groups.simps [of s])
  next
    case False
    note eq = "1.prems"(1) [unfolded ipv6_groups.simps [of s], simplified False Let_def if_False]
    have len: "length ?ip \<le> 16" using False "1.prems"(3) by (auto elim!: evenE)
    show ?thesis
    proof (cases "?g = [] \<or> length ?g > 4 \<or> hasPrefix ?r ''.''")
      case True
      then show ?thesis
        using eq "1.prems"(2) parseIPv4_ok by (auto simp: bytes_ok_def split: if_splits)
    next
      case F: False
      have "list_all is_hex ?g" by (auto simp: list_all_iff dest: set_takeWhileD)
      then have "hex_val 0 ?g < 16 ^ length ?g" using hex_val_bound [of ?g 0] by simp
      also have "\<dots> \<le> 16 ^ 4" using F by (intro power_increasing) auto
      finally have ok: "bytes_ok ?ip" using "1.prems"(2) by (simp add: bytes_ok_def div_less_iff_less_mult)
      have ev: "even (length ?ip)" using "1.prems"(3) by simp
      consider "?r = []" "ip' = ?ip" | "?r \<noteq> []" "tl (tl ?r) = []" "ip' = ?ip"
        | "ipv6_groups (tl (tl ?r)) ?ip (Some (length ?ip)) = Some (ip', ell', r)" "?r \<noteq> []" "\<not> (hd ?r \<noteq> CHR '':'' \<or> length ?r = 1)"
            "hd (tl ?r) = CHR '':''" "ell = None" "tl (tl ?r) \<noteq> []"
        | "ipv6_groups (tl ?r) ?ip ell = Some (ip', ell', r)" "?r \<noteq> []" "\<not> (hd ?r \<noteq> CHR '':'' \<or> length ?r = 1)"
            "hd (tl ?r) \<noteq> CHR '':''"
        using eq F by (auto simp del: append_eq_append_conv split: if_splits)
      then show ?thesis
      proof cases
        case 3
        then show ?thesis using "1.IH"(1) [OF False refl refl _ _ refl] F ok ev len by simp
      next
        case 4
        then show ?thesis using "1.IH"(2) [OF False refl refl _ _ refl] F ok ev len by simp
      qed (use ok len in simp_all)
    qed
  qed
qed

lemma parseIPv6_ok: "parseIPv6 s = Some ip \<Longrightarrow> bytes_ok ip \<and> length ip = 16"
proof -
  have ex: "expand_ellipsis x = Some ip \<Longrightarrow> bytes_ok (fst x) \<and> length (fst x) \<le> 16 \<Longrightarrow> bytes_ok ip \<and> length ip = 16" for x
    by (cases x) (auto simp: expand_ellipsis_def bytes_ok_def list_all_iff dest!: in_set_takeD in_set_dropD split: if_splits option.splits)
  have g: "ipv6_groups s' [] ell = Some x \<Longrightarrow> bytes_ok (fst x) \<and> length (fst x) \<le> 16" for s' ell x
    using ipv6_groups_ok [of s' "[]" ell] by (cases x) (auto simp: bytes_ok_def)
  assume "parseIPv6 s = Some ip"
  then consider "ip = replicate 16 0" | s' ell x where "ipv6_groups s' [] ell = Some x" "expand_ellipsis x = Some ip"
    by (auto simp: parseIPv6_def bind_eq_Some_conv split: if_splits)
  then show ?thesis
  proof cases
    case 1
    then show ?thesis by (simp add: bytes_ok_def list_all_iff)
  next
    case 2
    show ?thesis by (rule ex [OF 2(2) g [OF 2(1)]])
  qed
qed

lemma ParseAddr_ok: "ParseAddr s = Some a \<Longrightarrow> addr_ok a"
  using parseIPv4_ok parseIPv6_ok
  by (fastforce simp: ParseAddr_def addr_ok_def split: list.splits if_splits prod.splits option.splits)

subsection \<open>Round trip\<close>

lemma parseIPv6_mapped:
  assumes "a < 256" "b < 256" "c < 256" "d < 256"
  shows "parseIPv6 (''::ffff:'' @ ipv4_text a b c d) = Some (replicate 10 0 @ [255, 255, a, b, c, d])"
proof -
  let ?t = "ipv4_text a b c d"
  obtain ys where ys: "?t = itoa_nat a @ CHR ''.'' # ys" by (simp add: ipv4_text_def)
  have d: "\<forall>x \<in> set (itoa_nat a). is_hex x" using itoa_nat_plain [of _ a] by (simp add: is_hex_def)
  have ne: "itoa_nat a \<noteq> []" by (simp add: itoa_nat.simps [of a])
  have nd: "\<not> is_hex CHR ''.''" "\<not> is_hex CHR '':''" by code_simp+
  have tw: "takeWhile is_hex ?t = itoa_nat a" "dropWhile is_hex ?t = CHR ''.'' # ys"
    using d nd unfolding ys by (auto simp: takeWhile_append dropWhile_append)
  have "length (itoa_nat a) \<le> 4" using length_itoa_nat [of a 2] assms(1) by simp
  then have 1: "ipv6_groups ?t [255, 255] (Some 0) = Some ([255, 255, a, b, c, d], Some 0, [])"
    unfolding ipv6_groups.simps [of ?t] tw using ne parseIPv4_text [OF assms] by (simp add: hasPrefix_def)
  have f: "hex_text 65535 = ''ffff''"
    by (simp add: hex_text.simps [of 65535] hex_text.simps [of 4095] hex_text.simps [of 255] hex_text.simps [of 15] hex_lower_def
        char_of_def bit_0 bit_simps)
  have "hd (itoa_nat a) \<noteq> CHR '':''" using d nd(2) hd_in_set [OF ne] by metis
  then have "hd ?t \<noteq> CHR '':''" "?t \<noteq> []" using ne unfolding ys by (simp_all add: hd_append)
  then have "ipv6_groups (''ffff:'' @ ?t) [] (Some 0) = Some ([255, 255, a, b, c, d], Some 0, [])"
    using ipv6_groups_step [of 65535 "[]" "CHR '':'' # ?t" "Some 0"] 1 f by simp
  moreover have "CHR ''%'' \<notin> set ?t" using ipv4_text_chars by (fastforce simp: is_digit_def)
  ultimately show ?thesis by (simp add: parseIPv6_def hasPrefix_def expand_ellipsis_def)
qed

lemma dropWhile_first_colon:
  assumes "\<forall>x \<in> set xs. is_hex x"
  shows "dropWhile (\<lambda>c. c \<noteq> CHR ''.'' \<and> c \<noteq> CHR '':'' \<and> c \<noteq> CHR ''%'') (xs @ CHR '':'' # ys) = CHR '':'' # ys"
  using assms by (induction xs) (auto dest: is_hex_plain)

lemma ipv6_text_shape:
  assumes "length ip = 16"
  shows "\<exists>xs ys. ipv6_text ip = xs @ CHR '':'' # ys \<and> (\<forall>x \<in> set xs. is_hex x) \<and> (\<forall>y \<in> set ys. is_hex y \<or> y = CHR '':'')"
proof -
  have first: "\<exists>xs ys. hex_groups gs @ r = xs @ CHR '':'' # ys \<and> (\<forall>x \<in> set xs. is_hex x) \<and> (\<forall>y \<in> set ys. is_hex y \<or> y = CHR '':'')"
    if "length gs \<ge> 2 \<or> hasPrefix r '':''" "\<forall>y \<in> set r. is_hex y \<or> y = CHR '':''" for gs r
  proof (cases gs rule: list.exhaust)
    case Nil
    then show ?thesis using that by (intro exI [of _ "[]"] exI [of _ "tl r"]) (cases r; auto simp: hasPrefix_def)
  next
    case (Cons g hs)
    have h: "\<forall>x \<in> set (hex_text g). is_hex x" using hex_text_ok [of g] by (simp add: list_all_iff)
    show ?thesis
    proof (cases hs)
      case Nil
      then show ?thesis using that h Cons by (intro exI [of _ "hex_text g"] exI [of _ "tl r"]) (cases r; auto simp: hasPrefix_def)
    next
      case (Cons h' hs')
      then show ?thesis
        using that h \<open>gs = g # hs\<close> hex_groups_chars [of _ "h' # hs'"]
        by (intro exI [of _ "hex_text g"] exI [of _ "hex_groups (h' # hs') @ r"]) auto
    qed
  qed
  obtain i l where z: "zero_run (groups ip) = (i, l)" by fastforce
  have "length (groups ip) = 8" using assms by (simp add: length_groups)
  then show ?thesis
    using first [of "groups ip" "[]"] first [of "take i (groups ip)" "''::'' @ hex_groups (drop (i + l) (groups ip))"]
      hex_groups_chars [of _ "drop (i + l) (groups ip)"]
    by (cases "l = 0") (auto simp: ipv6_text_def z Let_def hex_groups_def [symmetric] hasPrefix_def)
qed

lemma four_bytes: "bytes_ok q \<Longrightarrow> length q = 4 \<Longrightarrow>
  \<exists>a b c d. q = [a, b, c, d] \<and> ip4_text q = ipv4_text a b c d \<and> a < 256 \<and> b < 256 \<and> c < 256 \<and> d < 256"
  by (auto simp: numeral_eq_Suc length_Suc_conv bytes_ok_def ip4_text_def ipv4_text_def)

lemma is_digit_hex: "is_digit c \<Longrightarrow> is_hex c"
  by (simp add: is_hex_def)

lemma Addr_String_16:
  assumes "bytes_ok ip" and "length ip = 16"
  defines "t \<equiv> (if Is4In6 ip then ''::ffff:'' @ ip4_text (drop 12 ip) else ipv6_text ip)"
  shows "parseIPv6 t = Some ip" "\<exists>xs ys. t = xs @ CHR '':'' # ys \<and> (\<forall>x \<in> set xs. is_hex x)"
    "\<forall>c \<in> set t. is_hex c \<or> c = CHR '':'' \<or> c = CHR ''.''"
proof -
  have "bytes_ok (drop 12 ip)" using assms(1) by (auto simp: bytes_ok_def list_all_iff dest: in_set_dropD)
  then obtain a b c d where q: "drop 12 ip = [a, b, c, d]" "ip4_text (drop 12 ip) = ipv4_text a b c d"
    and lt: "a < 256" "b < 256" "c < 256" "d < 256"
    using four_bytes [of "drop 12 ip"] assms(2) by auto
  obtain xs ys where s: "ipv6_text ip = xs @ CHR '':'' # ys" "\<forall>x \<in> set xs. is_hex x" "\<forall>y \<in> set ys. is_hex y \<or> y = CHR '':''"
    using ipv6_text_shape [OF assms(2)] by blast
  show "\<exists>xs ys. t = xs @ CHR '':'' # ys \<and> (\<forall>x \<in> set xs. is_hex x)"
  proof (cases "Is4In6 ip")
    case True
    then show ?thesis unfolding t_def by (simp, metis append_Nil empty_iff list.set(1))
  qed (use s in \<open>auto simp: t_def\<close>)
  have f: "is_hex CHR ''f''" by code_simp
  show "\<forall>c \<in> set t. is_hex c \<or> c = CHR '':'' \<or> c = CHR ''.''"
    using s f q(2) ipv4_text_chars [of _ a b c d] is_digit_hex unfolding t_def by auto
  show "parseIPv6 t = Some ip"
  proof (cases "Is4In6 ip")
    case True
    then have "ip = replicate 10 0 @ [255, 255, a, b, c, d]"
      using q(1) append_take_drop_id [of 12 ip] by (simp add: Is4In6_def)
    with True show ?thesis using parseIPv6_mapped [OF lt] q(2) by (simp add: t_def)
  qed (use assms parseIPv6_text in \<open>simp add: t_def\<close>)
qed

lemma ParseAddr_String: "addr_ok a \<Longrightarrow> ParseAddr (Addr_String a) = Some a"
proof -
  obtain ip zone where a: "a = (ip, zone)" by fastforce
  assume "addr_ok a"
  then consider "length ip = 4" "zone = []" "bytes_ok ip" | "length ip = 16" "bytes_ok ip" by (auto simp: addr_ok_def a)
  then show ?thesis
  proof cases
    case 1
    then obtain w x y z where q: "ip = [w, x, y, z]" "ip4_text ip = ipv4_text w x y z"
      and lt: "w < 256" "x < 256" "y < 256" "z < 256" using four_bytes by blast
    obtain ys where ys: "ipv4_text w x y z = itoa_nat w @ CHR ''.'' # ys" by (simp add: ipv4_text_def)
    have "\<forall>c \<in> set (itoa_nat w). is_digit c" using itoa_nat_plain by blast
    from dropWhile_first_dot [OF this, of ys] show ?thesis
      using 1 q parseIPv4_text [OF lt] by (simp add: a Addr_String_def ParseAddr_def ys)
  next
    case 2
    define t where "t = (if Is4In6 ip then ''::ffff:'' @ ip4_text (drop 12 ip) else ipv6_text ip)"
    note t = Addr_String_16 [OF 2(2,1), folded t_def]
    obtain xs ys where s: "t = xs @ CHR '':'' # ys" "\<forall>x \<in> set xs. is_hex x" using t(2) by blast
    have n: "\<not> is_hex CHR ''%''" by code_simp
    then have pct: "CHR ''%'' \<notin> set t" using t(3) by auto
    define z where "z = (if zone = [] then [] else CHR ''%'' # zone)"
    have cut: "cutAt CHR ''%'' (t @ z) = (t, if zone = [] then None else Some zone)"
      using pct by (simp add: z_def cutAt_notin cutAt_append)
    have str: "Addr_String a = xs @ CHR '':'' # (ys @ z)"
      using 2 s(1) by (simp add: a Addr_String_def t_def z_def)
    have "ParseAddr (t @ z) = Some a"
      using dropWhile_first_colon [OF s(2), of "ys @ z"] cut t(1) s(1) by (auto simp: ParseAddr_def a)
    then show ?thesis by (simp add: str s(1))
  qed
qed

text \<open>Texts of addresses and host-port pairs.\<close>

lemma Addr_String_brackets:
  assumes "addr_ok a" and "x \<in> set (Addr_String a)" and "x = CHR ''['' \<or> x = CHR '']''"
  shows "x \<in> set (snd a)"
proof -
  obtain ip zone where a: "a = (ip, zone)" by fastforce
  from assms(1) consider "length ip = 4" "bytes_ok ip" | "length ip = 16" "bytes_ok ip" by (auto simp: addr_ok_def a)
  then show ?thesis
  proof cases
    case 1
    then show ?thesis using four_bytes [of ip] ipv4_text_chars assms(2,3) by (fastforce simp: a Addr_String_def is_digit_def)
  next
    case 2
    have "\<not> is_hex CHR ''[''" "\<not> is_hex CHR '']''" by code_simp+
    then show ?thesis using Addr_String_16(3) [OF 2(2,1)] assms(2,3) 2 by (auto simp: a Addr_String_def split: if_splits)
  qed
qed

lemma Addr_String_colon:
  assumes "addr_ok a"
  shows "CHR '':'' \<in> set (Addr_String a) \<longleftrightarrow> length (fst a) = 16"
proof -
  obtain ip zone where a: "a = (ip, zone)" by fastforce
  from assms consider "length ip = 4" "bytes_ok ip" | "length ip = 16" "bytes_ok ip" by (auto simp: addr_ok_def a)
  then show ?thesis
  proof cases
    case 1
    then show ?thesis using four_bytes [of ip] ipv4_text_chars by (fastforce simp: a Addr_String_def is_digit_def)
  next
    case 2
    then show ?thesis using Addr_String_16(2) [OF 2(2,1)] by (force simp: a Addr_String_def split: if_splits)
  qed
qed

lemma SplitHostPort_Join:
  assumes "CHR ''['' \<notin> set h \<and> CHR '']'' \<notin> set h" and "\<forall>c \<in> set p. c \<notin> set '':[]''"
  shows "SplitHostPort (JoinHostPort h p) = Inr (h, p)"
proof (cases "CHR '':'' \<in> set h")
  case True
  let ?s = "CHR ''['' # h @ CHR '']'' # CHR '':'' # p"
  have "cutLast CHR '':'' ((CHR ''['' # h @ '']'') @ CHR '':'' # p) = Some (CHR ''['' # h @ '']'', p)"
    using assms(2) by (intro cutLast_append) auto
  then have 1: "cutLast CHR '':'' ?s = Some (CHR ''['' # h @ '']'', p)" by simp
  have "cutAt CHR '']'' ((CHR ''['' # h) @ CHR '']'' # CHR '':'' # p) = (CHR ''['' # h, Some (CHR '':'' # p))"
    using assms(1) by (intro cutAt_append) auto
  then have 2: "cutAt CHR '']'' ?s = (CHR ''['' # h, Some (CHR '':'' # p))" by simp
  have "JoinHostPort h p = ?s" using True by (simp add: JoinHostPort_def)
  then show ?thesis using 1 2 assms by (auto simp: SplitHostPort_def hasPrefix_def)
next
  case False
  then show ?thesis
    using assms SplitHostPort_plain [of h p] by (auto simp: JoinHostPort_def)
qed

end
