(* ===== verification/Go_UrlParse.thy ===== *)
theory Go_UrlParse
  imports Go_UrlText Go_Netip
begin

text \<open>
  \<^verbatim>\<open>url.Parse\<close> of \<^verbatim>\<open>net/url\<close> (the Go 1.26 version, which wants a valid IPv6 address between brackets and
  no second colon in a host name), and \<^verbatim>\<open>URL.Port\<close> and \<^verbatim>\<open>URL.Hostname\<close>.  The record has no field for
  \<^verbatim>\<open>OmitHost\<close> and \<^verbatim>\<open>RawFragment\<close>, which only steer how a URL is printed.  Errors carry no more than their
  kind: the program only passes them on as text.
\<close>

section \<open>Definitions\<close>

definition ctl_byte :: "char \<Rightarrow> bool" where
  "ctl_byte c \<longleftrightarrow> ord_of c < 32 \<or> ord_of c = 127"

text \<open>The scheme and the rest; \<open>None\<close> is the error of a missing scheme.\<close>

definition scheme_char :: "char \<Rightarrow> bool" where
  "scheme_char c \<longleftrightarrow> is_lower c \<or> is_upper c \<or> is_digit c \<or> c \<in> set ''+-.''"

definition getScheme :: "string \<Rightarrow> (string \<times> string) option" where
  "getScheme s =
     (if s \<noteq> [] \<and> hd s = CHR '':'' then None
      else
        let w = takeWhile scheme_char s; r = dropWhile scheme_char s
        in if w \<noteq> [] \<and> (is_lower (hd w) \<or> is_upper (hd w)) \<and> r \<noteq> [] \<and> hd r = CHR '':''
           then Some (w, tl r) else Some ([], s))"

definition validOptionalPort :: "string \<Rightarrow> bool" where
  "validOptionalPort p \<longleftrightarrow> p = [] \<or> hd p = CHR '':'' \<and> list_all is_digit (tl p)"

definition host_plain :: "char \<Rightarrow> bool" where
  "host_plain c \<longleftrightarrow> unreserved c \<or> c \<in> set ''!$&()*+,;=:[]<>'' \<or> ord_of c = 39 \<or> ord_of c = 34"

text \<open>
  Unescaping in a host, or in the zone of an address: in a host only bytes above 127 and the percent sign may
  be escaped, in a zone also what a host may contain and the space.
\<close>

fun hostUnescape :: "bool \<Rightarrow> string \<Rightarrow> string option" where
  "hostUnescape zone [] = Some []"
| "hostUnescape zone (c # s) =
     (if c = CHR ''%'' then
        (case s of
           a # b # r \<Rightarrow>
             (let v = char_of (16 * unhex a + unhex b)
              in if \<not> (is_hex a \<and> is_hex b) then None
                 else if \<not> zone \<and> unhex a < 8 \<and> [a, b] \<noteq> ''25'' then None
                 else if zone \<and> [a, b] \<noteq> ''25'' \<and> v \<noteq> CHR '' '' \<and> \<not> host_plain v then None
                 else map_option ((#) v) (hostUnescape zone r))
         | _ \<Rightarrow> None)
      else if ord_of c < 128 \<and> \<not> host_plain c then None
      else map_option ((#) c) (hostUnescape zone s))"

fun cutSub :: "string \<Rightarrow> string \<Rightarrow> string \<times> string option" where
  "cutSub sub [] = (if sub = [] then ([], Some []) else ([], None))"
| "cutSub sub (c # s) =
     (if hasPrefix (c # s) sub then ([], Some (drop (length sub) (c # s)))
      else case cutSub sub s of (a, r) \<Rightarrow> (c # a, r))"

definition bracketHost :: "string \<Rightarrow> string option" where
  "bracketHost s =
     (case cutSub ''%25'' s of
        (_, None) \<Rightarrow> hostUnescape False s
      | (a, Some z) \<Rightarrow>
          (case (hostUnescape False a, hostUnescape True (''%25'' @ z)) of
             (Some h, Some z') \<Rightarrow> Some (h @ z')
           | _ \<Rightarrow> None))"

definition parseHost :: "string \<Rightarrow> string option" where
  "parseHost host =
     (case cutLast CHR ''['' host of
        Some (pre, _) \<Rightarrow>
          (case cutLast CHR '']'' host of
             None \<Rightarrow> None
           | Some (body, colonPort) \<Rightarrow>
               if pre \<noteq> [] \<or> \<not> validOptionalPort colonPort then None
               else case (hostUnescape False colonPort, bracketHost (tl body)) of
                 (Some port, Some h) \<Rightarrow>
                   (case ParseAddr h of
                      None \<Rightarrow> None
                    | Some (ip, _) \<Rightarrow> if length ip = 4 then None else Some (''['' @ h @ '']'' @ port))
               | _ \<Rightarrow> None)
      | None \<Rightarrow>
          (case cutAt CHR '':'' host of
             (_, None) \<Rightarrow> hostUnescape False host
           | (_, Some port) \<Rightarrow> if list_all is_digit port then hostUnescape False host else None))"

definition validUserinfo :: "string \<Rightarrow> bool" where
  "validUserinfo s = list_all (\<lambda>c. is_lower c \<or> is_upper c \<or> is_digit c \<or> c \<in> set ''-._:~!$&()*+,;=%@'' \<or> ord_of c = 39) s"

definition parseUserinfo :: "string \<Rightarrow> (string \<times> string option) option" where
  "parseUserinfo s =
     (if \<not> validUserinfo s then None
      else case cutAt CHR '':'' s of
        (_, None) \<Rightarrow> map_option (\<lambda>u. (u, None)) (pathUnescape s)
      | (u, Some p) \<Rightarrow>
          (case (pathUnescape u, pathUnescape p) of
             (Some u', Some p') \<Rightarrow> Some (u', Some p')
           | _ \<Rightarrow> None))"

definition parseAuthority :: "string \<Rightarrow> ((string \<times> string option) option \<times> string) option" where
  "parseAuthority s =
     (case cutLast CHR ''@'' s of
        None \<Rightarrow> map_option (\<lambda>h. (None, h)) (parseHost s)
      | Some (ui, host) \<Rightarrow>
          (case parseHost host of
             None \<Rightarrow> None
           | Some h \<Rightarrow> map_option (\<lambda>u. (Some u, h)) (parseUserinfo ui)))"

definition setPath :: "URL \<Rightarrow> string \<Rightarrow> URL option" where
  "setPath u p =
     map_option (\<lambda>path. u\<lparr>uPath := path, uRawPath := (if escapePath path = p then [] else p)\<rparr>) (pathUnescape p)"

text \<open>The query is cut off first; a lone question mark at the end is remembered.\<close>

definition cutQuery :: "string \<Rightarrow> string \<times> string \<times> bool" where
  "cutQuery rest =
     (case cutAt CHR ''?'' rest of
        (a, None) \<Rightarrow> (a, [], False)
      | (a, Some q) \<Rightarrow> (a, q, q = []))"

text \<open>What follows two slashes: the authority up to the next slash, then the path.\<close>

definition parse_hier :: "URL \<Rightarrow> string \<Rightarrow> URL option" where
  "parse_hier u s =
     (case parseAuthority (takeWhile (\<lambda>c. c \<noteq> CHR ''/'') s) of
        None \<Rightarrow> None
      | Some (user, host) \<Rightarrow> setPath (u\<lparr>uUser := user, uHost := host\<rparr>) (dropWhile (\<lambda>c. c \<noteq> CHR ''/'') s))"

definition parse_rest :: "URL \<Rightarrow> string \<Rightarrow> URL option" where
  "parse_rest u rest =
     (if \<not> hasPrefix rest ''/'' \<and> uScheme u \<noteq> [] then Some (u\<lparr>uOpaque := rest\<rparr>)
      else if \<not> hasPrefix rest ''/'' \<and> CHR '':'' \<in> set (fst (cutAt CHR ''/'' rest)) then None
      else if (uScheme u \<noteq> [] \<or> \<not> hasPrefix rest ''///'') \<and> hasPrefix rest ''//'' then parse_hier u (drop 2 rest)
      else setPath u rest)"

definition parse_url :: "string \<Rightarrow> URL option" where
  "parse_url s =
     (if list_ex ctl_byte s then None
      else if s = ''*'' then Some (emptyURL\<lparr>uPath := ''*''\<rparr>)
      else case getScheme s of
        None \<Rightarrow> None
      | Some (scheme, rest) \<Rightarrow>
          (case cutQuery rest of (r, q, force) \<Rightarrow>
             parse_rest (emptyURL\<lparr>uScheme := toLower scheme, uForceQuery := force, uRawQuery := q\<rparr>) r))"

definition Parse :: "string \<Rightarrow> URL option" where
  "Parse s =
     (case cutAt CHR ''#'' s of
        (_, None) \<Rightarrow> parse_url s
      | (a, Some frag) \<Rightarrow>
          (case parse_url a of
             None \<Rightarrow> None
           | Some u \<Rightarrow> map_option (\<lambda>f. u\<lparr>uFragment := f\<rparr>) (pathUnescape frag)))"

definition splitHostPort :: "string \<Rightarrow> string \<times> string" where
  "splitHostPort hp =
     (let (host, port) =
            (case cutLast CHR '':'' hp of
               None \<Rightarrow> (hp, [])
             | Some (h, p) \<Rightarrow> if list_all is_digit p then (h, p) else (hp, []))
      in (if hasPrefix host ''['' \<and> hasSuffix host '']'' then butlast (tl host) else host, port))"

definition Hostname :: "URL \<Rightarrow> string" where
  "Hostname u = fst (splitHostPort (uHost u))"

definition Port :: "URL \<Rightarrow> string" where
  "Port u = snd (splitHostPort (uHost u))"

section \<open>Lemmas\<close>

lemma parse_example:
  "Parse ''HTTPS://a%20b@[::1]:8443/x%2Fy?q#f'' =
     Some \<lparr>uScheme = ''https'', uOpaque = [], uUser = Some (''a b'', None), uHost = ''[::1]:8443'', uPath = ''/x/y'',
       uRawPath = ''/x%2Fy'', uForceQuery = False, uRawQuery = ''q'', uFragment = ''f''\<rparr>"
  by code_simp

subsection \<open>Schemes\<close>

definition scheme_lower :: "char \<Rightarrow> bool" where
  "scheme_lower c \<longleftrightarrow> is_lower c \<or> is_digit c \<or> c \<in> set ''+-.''"

lemma scheme_char_ascii: "scheme_char c \<Longrightarrow> 33 \<le> ord_of c \<and> ord_of c < 127"
  by (auto simp: scheme_char_def is_lower_def is_upper_def is_digit_def)

lemma toLower_ascii: "list_all (\<lambda>c. ord_of c < 128) s \<Longrightarrow> toLower s = map lower_byte s"
  by (induction s) auto

lemma lower_byte_scheme: "scheme_char c \<Longrightarrow> scheme_lower (lower_byte c)"
  by (auto simp: scheme_char_def scheme_lower_def lower_byte_def is_upper_def is_lower_def of_char_of)

lemma scheme_lower_facts: "scheme_lower c \<Longrightarrow> scheme_char c \<and> lower_byte c = c"
  by (auto simp: scheme_char_def scheme_lower_def lower_byte_def is_upper_def is_lower_def is_digit_def)

lemma getScheme_ok: "getScheme s = Some (w, r) \<Longrightarrow> list_all scheme_char w"
  by (auto simp: getScheme_def Let_def list_all_iff dest: set_takeWhileD split: if_splits)

lemma scheme_canonical:
  assumes "list_all scheme_lower w"
  shows "toLower (trimSpace w) = w" "trimSpace w = w" "foldCase w = w"
proof -
  have g: "graphic c" if "c \<in> set w" for c
    using assms that scheme_lower_facts scheme_char_ascii by (auto simp: list_all_iff graphic_def)
  show t: "trimSpace w = w"
    using g [of "hd w"] g [of "last w"] trimSpace_graphic [of w] by (cases "w = []") auto
  have a: "list_all (\<lambda>c. ord_of c < 127 \<and> lower_byte c = c) w"
    using assms by (auto simp: list_all_iff dest!: scheme_lower_facts scheme_char_ascii)
  then have "map lower_byte w = w" by (induction w) auto
  with a show "toLower (trimSpace w) = w" unfolding t by (subst toLower_ascii) (auto simp: list_all_iff)
  show "foldCase w = w" using a by (induction w) auto
qed

lemma setPath_keeps: "setPath u p = Some u' \<Longrightarrow> \<exists>path raw. u' = u\<lparr>uPath := path, uRawPath := raw\<rparr>"
  by (auto simp: setPath_def)

lemma parse_hier_cases:
  assumes "parse_hier u s = Some u'"
  obtains user host path raw where "parseAuthority (takeWhile (\<lambda>c. c \<noteq> CHR ''/'') s) = Some (user, host)"
    "u' = u\<lparr>uUser := user, uHost := host, uPath := path, uRawPath := raw\<rparr>"
proof -
  from assms obtain user host where a: "parseAuthority (takeWhile (\<lambda>c. c \<noteq> CHR ''/'') s) = Some (user, host)"
    and "setPath (u\<lparr>uUser := user, uHost := host\<rparr>) (dropWhile (\<lambda>c. c \<noteq> CHR ''/'') s) = Some u'"
    unfolding parse_hier_def by (cases "parseAuthority (takeWhile (\<lambda>c. c \<noteq> CHR ''/'') s)") auto
  then show thesis using that setPath_keeps by blast
qed

lemma parse_rest_cases:
  assumes "parse_rest u r = Some u'"
  obtains "u' = u\<lparr>uOpaque := r\<rparr>" | path raw where "u' = u\<lparr>uPath := path, uRawPath := raw\<rparr>"
  | auth user host path raw where "parseAuthority auth = Some (user, host)" "set auth \<subseteq> set r"
      "u' = u\<lparr>uUser := user, uHost := host, uPath := path, uRawPath := raw\<rparr>"
proof -
  have s: "set (takeWhile (\<lambda>c. c \<noteq> CHR ''/'') (drop 2 r)) \<subseteq> set r" by (auto dest!: set_takeWhileD in_set_dropD)
  consider "u' = u\<lparr>uOpaque := r\<rparr>" | "setPath u r = Some u'" | "parse_hier u (drop 2 r) = Some u'"
    using assms unfolding parse_rest_def by (metis option.inject option.distinct(1))
  then show thesis
  proof cases
    case 3
    then show thesis by (rule parse_hier_cases) (use that(3) s in blast)
  qed (use that setPath_keeps in blast)+
qed

lemma parse_rest_keeps:
  assumes "parse_rest u r = Some u'"
  shows "uScheme u' = uScheme u" "uRawQuery u' = uRawQuery u" "uOpaque u = [] \<Longrightarrow> uHost u = [] \<Longrightarrow> uHost u' \<noteq> [] \<Longrightarrow> uOpaque u' = []"
  using assms by (cases rule: parse_rest_cases; simp)+

lemma parse_url_facts:
  assumes "parse_url s = Some u"
  shows "list_all scheme_lower (uScheme u)" "uHost u \<noteq> [] \<Longrightarrow> uOpaque u = []" "set (uRawQuery u) \<subseteq> set s"
    "length (uRawQuery u) \<le> length s" "\<not> list_ex ctl_byte s"
proof -
  consider "u = emptyURL\<lparr>uPath := ''*''\<rparr>" |
    w rest r q b where "getScheme s = Some (w, rest)" "cutQuery rest = (r, q, b)"
      "parse_rest (emptyURL\<lparr>uScheme := toLower w, uForceQuery := b, uRawQuery := q\<rparr>) r = Some u"
    using assms by (auto simp: parse_url_def split: if_splits option.splits prod.splits)
  then have "list_all scheme_lower (uScheme u) \<and> (uHost u \<noteq> [] \<longrightarrow> uOpaque u = []) \<and>
    set (uRawQuery u) \<subseteq> set s \<and> length (uRawQuery u) \<le> length s"
  proof cases
    case 2
    note k = parse_rest_keeps [OF 2(3)]
    have w: "list_all scheme_char w" by (rule getScheme_ok [OF 2(1)])
    then have "list_all (\<lambda>c. ord_of c < 128) w" by (auto simp: list_all_iff dest!: scheme_char_ascii)
    then have "list_all scheme_lower (toLower w)"
      using w by (simp add: toLower_ascii list_all_iff lower_byte_scheme)
    moreover have "suffix rest s"
      using 2(1) suffix_dropWhile [of scheme_char s] by (auto simp: getScheme_def Let_def split: if_splits
        intro: suffix_order.trans [of _ "dropWhile scheme_char s"])
    moreover have "suffix q rest"
      using 2(2) cutAt_Some [of "CHR ''?''" rest] by (fastforce simp: cutQuery_def suffix_def split: prod.splits option.splits)
    ultimately have "suffix q s" "list_all scheme_lower (toLower w)" by (auto intro: suffix_order.trans)
    moreover have "uScheme u = toLower w" "uRawQuery u = q" "uHost u \<noteq> [] \<longrightarrow> uOpaque u = []" using k by (simp_all add: emptyURL_def)
    ultimately show ?thesis by (simp add: set_mono_suffix suffix_length_le)
  qed (simp add: emptyURL_def)
  then show "list_all scheme_lower (uScheme u)" "uHost u \<noteq> [] \<Longrightarrow> uOpaque u = []" "set (uRawQuery u) \<subseteq> set s"
    "length (uRawQuery u) \<le> length s" by auto
  show "\<not> list_ex ctl_byte s" using assms by (auto simp: parse_url_def split: if_splits)
qed

subsection \<open>Hosts are printable\<close>

lemma host_plain_print: "host_plain c \<Longrightarrow> \<not> ctl_byte c"
  by (auto simp: host_plain_def ctl_byte_def unreserved_def is_lower_def is_upper_def is_digit_def)

lemma hostUnescape_print: "hostUnescape z s = Some h \<Longrightarrow> list_all (\<lambda>c. \<not> ctl_byte c) h"
proof (induction z s arbitrary: h rule: hostUnescape.induct)
  case (2 zone c s)
  show ?case
  proof (cases "c = CHR ''%''")
    case True
    with "2.prems" obtain a b r where s: "s = a # b # r" by (auto split: list.splits)
    let ?v = "char_of (16 * unhex a + unhex b) :: char"
    obtain h' where h: "hostUnescape zone r = Some h'" "h = ?v # h'" and hex: "is_hex a" "is_hex b"
      and ok: "zone \<or> \<not> unhex a < 8 \<or> [a, b] = ''25''" "\<not> zone \<or> [a, b] = ''25'' \<or> ?v = CHR '' '' \<or> host_plain ?v"
      using "2.prems" True s by (auto simp: Let_def split: if_splits)
    have "list_all (\<lambda>c. \<not> ctl_byte c) h'" using "2.IH"(1) [OF True s refl refl] h(1) hex ok by auto
    moreover have "\<not> ctl_byte ?v"
    proof -
      have lt: "unhex a < 16" "unhex b < 16" using hex by (auto simp: is_hex_def unhex_def is_digit_def is_lower_def)
      have 1: "[a, b] = ''25'' \<Longrightarrow> ?v = CHR ''%''" by (simp, code_simp)
      have 2: "\<not> unhex a < 8 \<Longrightarrow> ord_of ?v \<ge> 128" using lt by (simp add: of_char_of)
      have 3: "\<not> ctl_byte CHR ''%''" "\<not> ctl_byte CHR '' ''" by code_simp+
      have 4: "ord_of v \<ge> 128 \<Longrightarrow> \<not> ctl_byte v" for v by (simp add: ctl_byte_def)
      show ?thesis using ok 1 3 4 [OF 2] host_plain_print [of ?v] by (cases "[a, b] = ''25''"; metis)
    qed
    ultimately show ?thesis using h(2) by simp
  next
    case False
    with "2.prems" obtain h' where "hostUnescape zone s = Some h'" "h = c # h'" "ord_of c < 128 \<longrightarrow> host_plain c"
      by (auto split: if_splits)
    then show ?thesis
      using "2.IH"(2) [OF False] host_plain_print [of c] by (auto simp: ctl_byte_def)
  qed
qed simp

lemma parseHost_print: "parseHost s = Some h \<Longrightarrow> list_all (\<lambda>c. \<not> ctl_byte c) h"
proof -
  have b: "bracketHost s' = Some h' \<Longrightarrow> list_all (\<lambda>c. \<not> ctl_byte c) h'" for s' h'
    by (auto simp: bracketHost_def simp del: hostUnescape.simps dest!: hostUnescape_print split: prod.splits option.splits)
  have l: "\<not> ctl_byte CHR ''[''" "\<not> ctl_byte CHR '']''" by code_simp+
  assume "parseHost s = Some h"
  then consider "hostUnescape False s = Some h" |
    p h' q where "hostUnescape False q = Some p" "bracketHost (tl (fst (the (cutLast CHR '']'' s)))) = Some h'" "h = ''['' @ h' @ '']'' @ p"
    by (auto simp: parseHost_def split: option.splits prod.splits if_splits)
  then show ?thesis
    using hostUnescape_print b l by cases auto
qed

lemma parseAuthority_print: "parseAuthority s = Some (u, h) \<Longrightarrow> list_all (\<lambda>c. \<not> ctl_byte c) h"
  by (auto simp: parseAuthority_def dest: parseHost_print split: option.splits prod.splits)

lemma parse_url_host: "parse_url s = Some u \<Longrightarrow> list_all (\<lambda>c. \<not> ctl_byte c) (uHost u)"
proof -
  have "parse_rest v r = Some u \<Longrightarrow> uHost v = [] \<Longrightarrow> list_all (\<lambda>c. \<not> ctl_byte c) (uHost u)" for v r
    by (cases rule: parse_rest_cases) (auto dest: parseAuthority_print)
  moreover assume "parse_url s = Some u"
  ultimately show ?thesis
    by (auto simp: parse_url_def emptyURL_def split: if_splits option.splits prod.splits)
qed

lemma Parse_facts:
  assumes "Parse s = Some u"
  shows "list_all scheme_lower (uScheme u)" "uHost u \<noteq> [] \<Longrightarrow> uOpaque u = []" "list_all (\<lambda>c. \<not> ctl_byte c) (uRawQuery u)"
    "length (uRawQuery u) \<le> length s" "list_all (\<lambda>c. \<not> ctl_byte c) (uHost u)"
proof -
  obtain a v f where p: "parse_url a = Some v" "u = v \<or> u = v\<lparr>uFragment := f\<rparr>" "length a \<le> length s"
    using assms cutAt_Some [of "CHR ''#''" s] by (fastforce simp: Parse_def split: prod.splits option.splits)
  note v = parse_url_facts [OF p(1)] parse_url_host [OF p(1)]
  have "list_all (\<lambda>c. \<not> ctl_byte c) (uRawQuery v)" using v(3,5) by (auto simp: list_all_iff list_ex_iff)
  with v p(2,3) show "list_all scheme_lower (uScheme u)" "uHost u \<noteq> [] \<Longrightarrow> uOpaque u = []" "list_all (\<lambda>c. \<not> ctl_byte c) (uRawQuery u)"
    "length (uRawQuery u) \<le> length s" "list_all (\<lambda>c. \<not> ctl_byte c) (uHost u)" by auto
qed

end
