(* ===== verification/Forward.thy ===== *)
theory Forward
  imports Go_UrlParse Agent_Conn
begin

text \<open>
  \<^verbatim>\<open>pkg/clockbridge\<close>: a remote forward is checked and resolved into the settings of an agent before anything
  is dialled.  Every refusal is a value of \<open>forward_error\<close>; the texts of parse errors are not kept.  The
  resolver is the parameter \<open>lookup\<close>, from host names to the addresses found or to an error.
\<close>

section \<open>Definitions\<close>

datatype forward_error =
    InvalidProxyMode string
  | FieldEmpty string
  | FieldInvalid string string
  | SchemeNotSupported string string
  | HostMissing string string
  | PortMissing string string
  | PathNotAllowed string string
  | ModeNeedsTarget
  | ModeTargetUnsupported
  | RegisterHostEmpty
  | RegisterHostInvalid string
  | RegisterSchemeUnsupported string
  | RegisterHostMissing string
  | TargetKindInvalid string
  | RegisterURLNil
  | RegisterIPScheme string
  | RegisterURLScheme string
  | RegisterIPInvalid string
  | RegisterIPPort string
  | ResolverNil
  | ResolveFailed string string
  | NoAddress string
  | ForwardNil
  | AgentExit ioerr

type_synonym lookup = "string \<Rightarrow> nat list list result"

record RemoteForwardConfig =
  cTargetURL :: string
  cUUID :: string
  cRegisterHost :: string
  cRegisterIP :: string
  cProxyMode :: string
  cRegisterXToken :: string
  cRegisterBearerToken :: string

record RemoteForward =
  fRegisterURL :: URL
  fRegisterDialAddr :: string
  fRegisterXToken :: string
  fRegisterBearerToken :: string
  fTarget :: URL

definition schemeOf :: "URL \<Rightarrow> string" where
  "schemeOf u = toLower (trimSpace (uScheme u))"

definition qset :: "query \<Rightarrow> string \<Rightarrow> string \<Rightarrow> query" where
  "qset q k v = AList.update k [v] q"

subsection \<open>The register URL\<close>

definition registerQuery :: "query \<Rightarrow> string \<Rightarrow> string \<Rightarrow> string \<Rightarrow> query" where
  "registerQuery q u mode kind =
     (let q1 = qset q ''uuid'' u;
          q2 = (if trimSpace mode \<noteq> [] then qset q1 ''proxy_mode'' mode else q1)
      in if kind \<noteq> TargetKindUnknown then qset q2 ''target_kind'' kind else q2)"

definition BuildRegisterURL :: "string \<Rightarrow> string \<Rightarrow> string \<Rightarrow> string \<Rightarrow> forward_error + URL" where
  "BuildRegisterURL registerHost u mode kind =
     (let raw0 = trimSpace registerHost;
          raw = (if containsSub raw0 ''://'' then raw0 else ''https://'' @ raw0)
      in if raw0 = [] then Inl RegisterHostEmpty
         else case Parse raw of
           None \<Rightarrow> Inl (RegisterHostInvalid registerHost)
         | Some u0 \<Rightarrow>
             if schemeOf u0 \<notin> {''https'', ''http'', ''wss'', ''ws''} then Inl (RegisterSchemeUnsupported (uScheme u0))
             else
               let u1 = u0\<lparr>uScheme := (if schemeOf u0 = ''https'' then ''wss''
                                       else if schemeOf u0 = ''http'' then ''ws'' else uScheme u0)\<rparr>
               in if trimSpace (uHost u1) = [] then Inl (RegisterHostMissing registerHost)
                  else
                    let u2 = (if uPath u1 = [] \<or> uPath u1 = ''/'' then u1\<lparr>uPath := ''/register''\<rparr> else u1)
                    in case NormalizeTargetKind kind of
                         Inl _ \<Rightarrow> Inl (TargetKindInvalid kind)
                       | Inr k \<Rightarrow>
                           Inr (u2\<lparr>uRawQuery := Encode (registerQuery (fst (ParseQuery (uRawQuery u2))) u mode k)\<rparr>))"

subsection \<open>Targets and modes\<close>

definition TargetKindFromTargetURL :: "URL option \<Rightarrow> string" where
  "TargetKindFromTargetURL target =
     (case target of
        None \<Rightarrow> TargetKindUnknown
      | Some u \<Rightarrow>
          if schemeOf u \<in> {''http'', ''https''} then TargetKindHTTP
          else if schemeOf u = ''tcp'' then TargetKindTCP
          else if schemeOf u \<in> {''ws'', ''wss''} then TargetKindWebSocket
          else TargetKindUnknown)"

definition ParseProxyMode :: "string \<Rightarrow> forward_error + string" where
  "ParseProxyMode raw = (case NormalizeProxyMode raw of Inl e \<Rightarrow> Inl (InvalidProxyMode e) | Inr m \<Rightarrow> Inr m)"

definition ValidateProxyModeTarget :: "string \<Rightarrow> URL option \<Rightarrow> forward_error option" where
  "ValidateProxyModeTarget mode target =
     (if mode \<noteq> ProxyModeTransparentTunnel then None
      else case target of
        None \<Rightarrow> Some ModeNeedsTarget
      | Some u \<Rightarrow> if schemeOf u \<notin> {''tcp'', ''ws'', ''wss''} then Some ModeTargetUnsupported else None)"

definition ParseRemoteTargetURL :: "string \<Rightarrow> string \<Rightarrow> forward_error + URL" where
  "ParseRemoteTargetURL raw field =
     (let val = trimSpace raw
      in if val = [] then Inl (FieldEmpty field)
         else case Parse val of
           None \<Rightarrow> Inl (FieldInvalid field raw)
         | Some u \<Rightarrow>
             if schemeOf u \<notin> {''http'', ''https'', ''tcp'', ''ws'', ''wss''} then Inl (SchemeNotSupported field raw)
             else if trimSpace (uHost u) = [] then Inl (HostMissing field raw)
             else if schemeOf u = ''tcp'' \<and> trimSpace (Port u) = [] then Inl (PortMissing field raw)
             else if schemeOf u = ''tcp'' \<and> uPath u \<noteq> [] \<and> uPath u \<noteq> ''/'' then Inl (PathNotAllowed field raw)
             else Inr u)"

subsection \<open>The address to dial\<close>

definition registerPort :: "URL \<Rightarrow> string option" where
  "registerPort u =
     (if Port u \<noteq> [] then Some (Port u)
      else if schemeOf u \<in> {''wss'', ''https''} then Some ''443''
      else if schemeOf u \<in> {''ws'', ''http''} then Some ''80''
      else None)"

text \<open>The first IPv4 address of the answer, or else the first address of 16 bytes.\<close>

definition pickAddress :: "nat list list \<Rightarrow> nat list option" where
  "pickAddress ips =
     (case List.map_filter To4 ips of
        ip # _ \<Rightarrow> Some ip
      | [] \<Rightarrow> (case List.map_filter To16 ips of ip # _ \<Rightarrow> Some ip | [] \<Rightarrow> None))"

definition splitRegisterIP :: "string \<Rightarrow> string \<Rightarrow> (string \<times> string) option" where
  "splitRegisterIP val defaultPort =
     (case SplitHostPort val of
        Inr (h, p) \<Rightarrow> Some (trimSpace h, trimSpace p)
      | Inl e \<Rightarrow> if containsSub (toLower e) ''missing port'' then Some (val, defaultPort) else None)"

definition resolveHost :: "lookup option \<Rightarrow> string \<Rightarrow> string \<Rightarrow> forward_error + string" where
  "resolveHost lookup host port =
     (case ParseAddr host of
        Some ip \<Rightarrow> Inr (JoinHostPort (Addr_String ip) port)
      | None \<Rightarrow>
          (case lookup of
             None \<Rightarrow> Inl ResolverNil
           | Some f \<Rightarrow>
               (case f host of
                  Inl e \<Rightarrow> Inl (ResolveFailed host e)
                | Inr ips \<Rightarrow>
                    (case pickAddress ips of
                       None \<Rightarrow> Inl (NoAddress host)
                     | Some ip \<Rightarrow> Inr (JoinHostPort (IP_String ip) port)))))"

definition ResolveRegisterDialAddrWithLookup ::
  "string \<Rightarrow> URL option \<Rightarrow> lookup option \<Rightarrow> forward_error + string" where
  "ResolveRegisterDialAddrWithLookup raw regURL lookup =
     (let val = trimSpace raw
      in if val = [] then Inr []
         else case regURL of
           None \<Rightarrow> Inl RegisterURLNil
         | Some u \<Rightarrow>
             if containsSub val ''://'' then Inl (RegisterIPScheme raw)
             else case registerPort u of
               None \<Rightarrow> Inl (RegisterURLScheme (uScheme u))
             | Some defaultPort \<Rightarrow>
                 (case ParseAddr val of
                    Some ip \<Rightarrow> Inr (JoinHostPort (Addr_String ip) defaultPort)
                  | None \<Rightarrow>
                      (case splitRegisterIP val defaultPort of
                         None \<Rightarrow> Inl (RegisterIPInvalid raw)
                       | Some (h, p) \<Rightarrow>
                           if trimSpace h = [] then Inl (RegisterIPInvalid raw)
                           else case parseInt (trimSpace p) of
                             None \<Rightarrow> Inl (RegisterIPPort (trimSpace p))
                           | Some n \<Rightarrow>
                               if n < 1 \<or> n > 65535 then Inl (RegisterIPPort (trimSpace p))
                               else resolveHost lookup (trimSpace h) (trimSpace p))))"

definition ResolveRegisterDialAddr :: "lookup \<Rightarrow> string \<Rightarrow> URL option \<Rightarrow> forward_error + string" where
  "ResolveRegisterDialAddr defaultResolver raw regURL =
     ResolveRegisterDialAddrWithLookup raw regURL (Some defaultResolver)"

subsection \<open>The forward\<close>

definition NewRemoteForward :: "lookup \<Rightarrow> RemoteForwardConfig \<Rightarrow> forward_error + RemoteForward" where
  "NewRemoteForward resolver c =
     (case ParseProxyMode (cProxyMode c) of
        Inl e \<Rightarrow> Inl e
      | Inr mode \<Rightarrow>
          (case ParseRemoteTargetURL (cTargetURL c) ''remote target URL'' of
             Inl e \<Rightarrow> Inl e
           | Inr target \<Rightarrow>
               (case ValidateProxyModeTarget mode (Some target) of
                  Some e \<Rightarrow> Inl e
                | None \<Rightarrow>
                    (case BuildRegisterURL (cRegisterHost c) (cUUID c) mode (TargetKindFromTargetURL (Some target)) of
                       Inl e \<Rightarrow> Inl e
                     | Inr u \<Rightarrow>
                         (case ResolveRegisterDialAddr resolver (cRegisterIP c) (Some u) of
                            Inl e \<Rightarrow> Inl e
                          | Inr addr \<Rightarrow>
                              Inr \<lparr>fRegisterURL = u, fRegisterDialAddr = addr,
                                   fRegisterXToken = trimSpace (cRegisterXToken c),
                                   fRegisterBearerToken = trimSpace (cRegisterBearerToken c), fTarget = target\<rparr>)))))"

definition RegisterURL :: "RemoteForward option \<Rightarrow> URL option" where
  "RegisterURL f = map_option fRegisterURL f"

definition RegisterDialAddr :: "RemoteForward option \<Rightarrow> string" where
  "RegisterDialAddr f = (case f of None \<Rightarrow> [] | Some f \<Rightarrow> fRegisterDialAddr f)"

definition forward_agent :: "env \<Rightarrow> RemoteForward \<Rightarrow> Agent" where
  "forward_agent env f =
     New env (fRegisterURL f) (fRegisterDialAddr f) (fRegisterXToken f) (fRegisterBearerToken f) (fTarget f)"

text \<open>\<open>runAgent\<close>: what \<^verbatim>\<open>Agent.Run\<close> returns; \<open>canceled\<close> is the error \<^verbatim>\<open>context.Canceled\<close>.\<close>

definition canceled :: ioerr where
  "canceled = OtherErr ''context canceled''"

definition forward_Run :: "env \<Rightarrow> (Agent \<Rightarrow> ioerr option) \<Rightarrow> RemoteForward option \<Rightarrow> forward_error option" where
  "forward_Run env runAgent f =
     (case f of
        None \<Rightarrow> Some ForwardNil
      | Some f \<Rightarrow>
          (case runAgent (forward_agent env f) of
             None \<Rightarrow> None
           | Some e \<Rightarrow> if e = canceled then None else Some (AgentExit e)))"

section \<open>Lemmas\<close>

subsection \<open>Schemes and targets\<close>

lemma schemeOf_parsed: "list_all scheme_lower (uScheme u) \<Longrightarrow> schemeOf u = uScheme u"
  by (simp only: schemeOf_def scheme_canonical(1))

lemma isTCPTarget_parsed: "list_all scheme_lower (uScheme u) \<Longrightarrow> isTCPTarget (Some u) \<longleftrightarrow> uScheme u = ''tcp''"
proof -
  assume "list_all scheme_lower (uScheme u)"
  moreover have "foldCase ''tcp'' = ''tcp''" by code_simp
  ultimately show ?thesis by (simp add: isTCPTarget_def equalFold_def scheme_canonical)
qed

lemma isWebSocketTarget_parsed:
  "list_all scheme_lower (uScheme u) \<Longrightarrow> isWebSocketTarget (Some u) \<longleftrightarrow> uScheme u \<in> {''ws'', ''wss''}"
  by (simp only: isWebSocketTarget_def scheme_canonical(1) Let_def option.case insert_iff empty_iff simp_thms)

lemma ParseRemoteTargetURL_ok:
  assumes "ParseRemoteTargetURL raw field = Inr u"
  shows "list_all scheme_lower (uScheme u)" "uScheme u \<in> {''http'', ''https'', ''tcp'', ''ws'', ''wss''}"
    "trimSpace (uHost u) \<noteq> []" "uOpaque u = []" "list_all (\<lambda>c. \<not> ctl_byte c) (uHost u)"
    "uScheme u = ''tcp'' \<Longrightarrow> trimSpace (Port u) \<noteq> [] \<and> uPath u \<in> {[], ''/''}"
proof -
  from assms have p: "Parse (trimSpace raw) = Some u"
    and s: "schemeOf u \<in> {''http'', ''https'', ''tcp'', ''ws'', ''wss''}" and h: "trimSpace (uHost u) \<noteq> []"
    and c: "schemeOf u = ''tcp'' \<Longrightarrow> trimSpace (Port u) \<noteq> [] \<and> uPath u \<in> {[], ''/''}"
    unfolding ParseRemoteTargetURL_def Let_def by (auto split: option.splits if_splits)
  note f = Parse_facts [OF p]
  have "uHost u \<noteq> []" using h by auto
  with f s h c schemeOf_parsed [OF f(1)]
  show "list_all scheme_lower (uScheme u)" "uScheme u \<in> {''http'', ''https'', ''tcp'', ''ws'', ''wss''}"
    "trimSpace (uHost u) \<noteq> []" "uOpaque u = []" "list_all (\<lambda>c. \<not> ctl_byte c) (uHost u)"
    "uScheme u = ''tcp'' \<Longrightarrow> trimSpace (Port u) \<noteq> [] \<and> uPath u \<in> {[], ''/''}" by auto
qed

lemma TargetKind_parsed:
  assumes "list_all scheme_lower (uScheme u)"
  shows "TargetKindFromTargetURL (Some u) =
    (if uScheme u \<in> {''http'', ''https''} then TargetKindHTTP else if uScheme u = ''tcp'' then TargetKindTCP
     else if uScheme u \<in> {''ws'', ''wss''} then TargetKindWebSocket else TargetKindUnknown)"
  using schemeOf_parsed [OF assms] by (simp add: TargetKindFromTargetURL_def)

subsection \<open>Register queries\<close>

lemma qlookup_qset: "qlookup (qset q k v) j = (if j = k then [v] else qlookup q j)"
  by (simp add: qlookup_def qset_def AList.update_conv')

lemma query_size_qset: "query_size (qset q k v) \<le> query_size q + 1"
  by (induction q) (auto simp: query_size_def qset_def)

lemma distinct_qset: "distinct (map fst q) \<Longrightarrow> distinct (map fst (qset q k v))"
  by (simp add: qset_def AList.distinct_update)

lemma length_splitOn: "length (splitOn c s) \<le> length s + 1"
  by (induction s) (auto split: list.splits)

lemma query_size_ParseQuery: "query_size (fst (ParseQuery s)) \<le> length s + 1"
  using query_size_parse_pairs [of "splitOn CHR ''&'' s" "[]"] length_splitOn [of "CHR ''&''" s]
  by (auto simp: ParseQuery_def Let_def query_size_def)

lemma length_trimSpace: "length (trimSpace s) \<le> length s"
  using trimLeft_suffix [of s] trimRight_prefix [of "trimLeft s"]
  by (metis trimSpace_def prefix_length_le suffix_length_le order.trans)

lemma registerQuery_facts:
  assumes "distinct (map fst q)"
  shows "distinct (map fst (registerQuery q u m k))" "query_size (registerQuery q u m k) \<le> query_size q + 3"
    "qget (registerQuery q u m k) ''uuid'' = u" "trimSpace m \<noteq> [] \<Longrightarrow> qget (registerQuery q u m k) ''proxy_mode'' = m"
    "k \<noteq> TargetKindUnknown \<Longrightarrow> qget (registerQuery q u m k) ''target_kind'' = k"
proof -
  show "distinct (map fst (registerQuery q u m k))" using assms by (simp add: registerQuery_def Let_def distinct_qset)
  show "query_size (registerQuery q u m k) \<le> query_size q + 3"
    using query_size_qset [of q "''uuid''" u] query_size_qset [of "qset q ''uuid'' u" "''proxy_mode''" m]
      query_size_qset [of "qset q ''uuid'' u" "''target_kind''" k]
      query_size_qset [of "qset (qset q ''uuid'' u) ''proxy_mode'' m" "''target_kind''" k]
    by (simp add: registerQuery_def Let_def)
  show "qget (registerQuery q u m k) ''uuid'' = u" "trimSpace m \<noteq> [] \<Longrightarrow> qget (registerQuery q u m k) ''proxy_mode'' = m"
    "k \<noteq> TargetKindUnknown \<Longrightarrow> qget (registerQuery q u m k) ''target_kind'' = k"
    by (simp_all add: qget_def registerQuery_def Let_def qlookup_qset)
qed

text \<open>The gateway reads back what the forward put into the register URL.\<close>

lemma BuildRegisterURL_query:
  assumes "BuildRegisterURL host u m k = Inr url" and "length host \<le> 9000" and "trimSpace m \<noteq> []"
    and "NormalizeTargetKind k = Inr k'" and "k' \<noteq> TargetKindUnknown"
  defines "Q \<equiv> fst (ParseQuery (uRawQuery url))"
  shows "qget Q ''uuid'' = u" "qget Q ''proxy_mode'' = m" "qget Q ''target_kind'' = k'"
proof -
  let ?raw0 = "trimSpace host"
  define raw where "raw = (if containsSub ?raw0 ''://'' then ?raw0 else ''https://'' @ ?raw0)"
  obtain u0 q where p: "Parse raw = Some u0" and q: "q = fst (ParseQuery (uRawQuery u0))"
    and url: "uRawQuery url = Encode (registerQuery q u m k')"
    using assms(1,4) unfolding BuildRegisterURL_def Let_def raw_def [symmetric]
    by (auto split: option.splits if_splits sum.splits)
  have "length raw \<le> length host + 8" using length_trimSpace [of host] by (simp add: raw_def)
  then have sz: "query_size q \<le> length host + 9"
    using query_size_ParseQuery [of "uRawQuery u0"] Parse_facts(4) [OF p] unfolding q by linarith
  have d: "distinct (map fst q)" unfolding q by (rule ParseQuery_ok)
  note r = registerQuery_facts [OF d]
  have "query_size (registerQuery q u m k') \<le> maxQueryParams"
    using sz r(2) [of u m k'] assms(2) unfolding maxQueryParams_def by linarith
  note rt = ParseQuery_Encode(2) [OF r(1) this]
  have "qget Q j = qget (registerQuery q u m k') j" for j unfolding Q_def url by (simp add: qget_def rt)
  then show "qget Q ''uuid'' = u" "qget Q ''proxy_mode'' = m" "qget Q ''target_kind'' = k'"
    using r(3-5) assms(3,5) by auto
qed

subsection \<open>Accepted forwards\<close>

lemma BuildRegisterURL_wf:
  assumes "BuildRegisterURL host u m k = Inr url"
  shows "uScheme url \<in> {''ws'', ''wss''}" "trimSpace (uHost url) \<noteq> []" "uPath url \<notin> {[], ''/''}" "uOpaque url = []"
    "list_all (\<lambda>c. \<not> ctl_byte c) (uHost url)"
proof -
  obtain raw u0 where p: "Parse raw = Some u0" and s: "schemeOf u0 \<in> {''https'', ''http'', ''wss'', ''ws''}"
    and h: "trimSpace (uHost u0) \<noteq> []" and url: "uHost url = uHost u0" "uOpaque url = uOpaque u0" "uPath url \<notin> {[], ''/''}"
    "uScheme url = (if schemeOf u0 = ''https'' then ''wss'' else if schemeOf u0 = ''http'' then ''ws'' else uScheme u0)"
    using assms unfolding BuildRegisterURL_def Let_def by (auto split: option.splits if_splits sum.splits)
  note f = Parse_facts [OF p]
  show "uScheme url \<in> {''ws'', ''wss''}" using s url(4) schemeOf_parsed [OF f(1)] by auto
  have "uHost u0 \<noteq> []" using h by auto
  then show "trimSpace (uHost url) \<noteq> []" "uPath url \<notin> {[], ''/''}" "uOpaque url = []"
    "list_all (\<lambda>c. \<not> ctl_byte c) (uHost url)" using f h url by simp_all
qed

lemma NewRemoteForward_ok:
  assumes "NewRemoteForward resolver c = Inr f"
  obtains mode where "NormalizeProxyMode (cProxyMode c) = Inr mode"
    "ParseRemoteTargetURL (cTargetURL c) ''remote target URL'' = Inr (fTarget f)"
    "ValidateProxyModeTarget mode (Some (fTarget f)) = None"
    "BuildRegisterURL (cRegisterHost c) (cUUID c) mode (TargetKindFromTargetURL (Some (fTarget f))) = Inr (fRegisterURL f)"
    "fRegisterXToken f = trimSpace (cRegisterXToken c)"
  using assms unfolding NewRemoteForward_def ParseProxyMode_def
  by (auto split: sum.split_asm option.split_asm)

text \<open>What the agent relies on of a forward: where it registers, and a target it has a handler for.\<close>

definition wf_forward :: "RemoteForward \<Rightarrow> bool" where
  "wf_forward f \<longleftrightarrow>
     uScheme (fRegisterURL f) \<in> {''ws'', ''wss''} \<and> trimSpace (uHost (fRegisterURL f)) \<noteq> [] \<and>
     list_all (\<lambda>c. \<not> ctl_byte c) (uHost (fRegisterURL f)) \<and> uOpaque (fRegisterURL f) = [] \<and>
     uPath (fRegisterURL f) \<notin> {[], ''/''} \<and>
     uScheme (fTarget f) \<in> {''http'', ''https'', ''tcp'', ''ws'', ''wss''} \<and> trimSpace (uHost (fTarget f)) \<noteq> [] \<and>
     list_all (\<lambda>c. \<not> ctl_byte c) (uHost (fTarget f)) \<and> uOpaque (fTarget f) = [] \<and>
     (uScheme (fTarget f) = ''tcp'' \<longrightarrow> trimSpace (Port (fTarget f)) \<noteq> [] \<and> uPath (fTarget f) \<in> {[], ''/''}) \<and>
     trimSpace (fRegisterXToken f) = fRegisterXToken f \<and> trimSpace (fRegisterBearerToken f) = fRegisterBearerToken f"

lemma NewRemoteForward_wf: "NewRemoteForward resolver c = Inr f \<Longrightarrow> wf_forward f"
proof -
  assume f: "NewRemoteForward resolver c = Inr f"
  then obtain mode where t: "ParseRemoteTargetURL (cTargetURL c) ''remote target URL'' = Inr (fTarget f)"
    and b: "BuildRegisterURL (cRegisterHost c) (cUUID c) mode (TargetKindFromTargetURL (Some (fTarget f))) = Inr (fRegisterURL f)"
    by (elim NewRemoteForward_ok)
  have "trimSpace (fRegisterXToken f) = fRegisterXToken f" "trimSpace (fRegisterBearerToken f) = fRegisterBearerToken f"
    using f by (auto simp: NewRemoteForward_def trimSpace_idem split: sum.split_asm option.split_asm)
  then show ?thesis
    unfolding wf_forward_def using ParseRemoteTargetURL_ok(6) [OF t]
    by (intro conjI impI BuildRegisterURL_wf [OF b] ParseRemoteTargetURL_ok(2-5) [OF t]) simp_all
qed

subsection \<open>Addresses to dial\<close>

definition plain_port :: "string \<Rightarrow> bool" where
  "plain_port p \<longleftrightarrow> (\<forall>c \<in> set p. c \<notin> set '':[]'')"

definition no_brackets :: "string \<Rightarrow> bool" where
  "no_brackets s \<longleftrightarrow> CHR ''['' \<notin> set s \<and> CHR '']'' \<notin> set s"

lemma digits_plain_port: "list_all is_digit p \<Longrightarrow> plain_port p"
  by (auto simp: plain_port_def list_all_iff is_digit_def)

lemma Port_digits: "list_all is_digit (Port u)"
  by (auto simp: Port_def splitHostPort_def Let_def split: option.splits prod.splits if_splits)

lemma registerPort_plain: "registerPort u = Some p \<Longrightarrow> plain_port p"
proof -
  have "plain_port ''443''" "plain_port ''80''" by (simp_all add: plain_port_def)
  moreover assume "registerPort u = Some p"
  ultimately show ?thesis using digits_plain_port [OF Port_digits [of u]] by (auto simp: registerPort_def split: if_splits)
qed

lemma parseInt_plain: "parseInt p = Some n \<Longrightarrow> plain_port p"
proof -
  assume "parseInt p = Some n"
  then have d: "list_all is_digit (if hasPrefix p ''-'' \<or> hasPrefix p ''+'' then tl p else p)"
    by (auto simp: parseInt_def Let_def split: if_splits)
  show ?thesis
  proof (cases "hasPrefix p ''-'' \<or> hasPrefix p ''+''")
    case True
    then obtain c r where p: "p = c # r" "c = CHR ''-'' \<or> c = CHR ''+''" by (cases p) (auto simp: hasPrefix_def)
    then show ?thesis using d True digits_plain_port [of r] by (auto simp: plain_port_def)
  qed (use d digits_plain_port in auto)
qed

lemma cutLast_Some: "cutLast c s = Some (a, b) \<Longrightarrow> s = a @ c # b"
proof -
  assume "cutLast c s = Some (a, b)"
  then have "cutAt c (rev s) = (rev b, Some (rev a))" by (auto simp: cutLast_def split: prod.splits option.splits)
  from cutAt_Some [OF this] have "rev (rev s) = rev (rev b @ c # rev a)" by simp
  then show ?thesis by simp
qed

lemma SplitHostPort_no_brackets: "SplitHostPort s = Inr (h, p) \<Longrightarrow> no_brackets h"
proof -
  assume s: "SplitHostPort s = Inr (h, p)"
  then obtain a where a: "cutLast CHR '':'' s = Some (a, p)"
    by (auto simp: SplitHostPort_def split: option.splits if_splits prod.splits)
  show ?thesis
  proof (cases "hasPrefix s ''[''")
    case True
    then obtain pre post where cut: "cutAt CHR '']'' s = (pre, Some post)" and h: "h = tl pre" "CHR ''['' \<notin> set (tl s)"
      using s a by (auto simp: SplitHostPort_def split: option.splits if_splits prod.splits)
    have "s = pre @ CHR '']'' # post" "CHR '']'' \<notin> set pre" using cutAt_Some [OF cut] by auto
    with h show ?thesis by (cases pre) (auto simp: no_brackets_def)
  next
    case False
    then have "h = a" "no_brackets s" using s a by (auto simp: SplitHostPort_def no_brackets_def split: if_splits)
    moreover have "set a \<subseteq> set s" using cutLast_Some [OF a] by auto
    ultimately show ?thesis by (auto simp: no_brackets_def)
  qed
qed

lemma ParseAddr_zone: "ParseAddr s = Some (ip, z) \<Longrightarrow> set z \<subseteq> set s"
  using cutAt_Some [of "CHR ''%''" s]
  by (fastforce simp: ParseAddr_def split: list.splits if_splits prod.splits option.splits)

lemma no_brackets_sub: "no_brackets s \<Longrightarrow> set t \<subseteq> set s \<Longrightarrow> no_brackets t"
  by (auto simp: no_brackets_def)

text \<open>An address and a port, printed, can be split and read again.\<close>

lemma dial_text:
  assumes "addr_ok a" and "no_brackets (snd a)" and "plain_port p"
  shows "SplitHostPort (JoinHostPort (Addr_String a) p) = Inr (Addr_String a, p) \<and> ParseAddr (Addr_String a) = Some a"
proof -
  have "CHR ''['' \<notin> set (Addr_String a) \<and> CHR '']'' \<notin> set (Addr_String a)"
    using Addr_String_brackets [OF assms(1)] assms(2) by (auto simp: no_brackets_def)
  then show ?thesis
    using assms(3) ParseAddr_String [OF assms(1)] by (simp add: SplitHostPort_Join plain_port_def)
qed

lemma pickAddress_ok:
  assumes "pickAddress ips = Some ip" and "\<forall>x \<in> set ips. bytes_ok x"
  shows "\<exists>q. addr_ok (q, []) \<and> IP_String ip = Addr_String (q, [])"
proof -
  have d: "bytes_ok x \<Longrightarrow> bytes_ok (drop n x)" "bytes_ok x \<Longrightarrow> bytes_ok (map4in6 x)" for x n
    by (auto simp: bytes_ok_def list_all_iff map4in6_def dest: in_set_dropD)
  have "ip \<in> set (List.map_filter To4 ips) \<or> ip \<in> set (List.map_filter To16 ips)"
    using assms(1) by (auto simp: pickAddress_def split: list.splits)
  then obtain x where "x \<in> set ips" "To4 x = Some ip \<or> To16 x = Some ip"
    by (auto simp: List.map_filter_def)
  then have "bytes_ok ip" "length ip = 4 \<or> length ip = 16"
    using assms(2) d by (auto simp: To4_def To16_def Is4In6_def map4in6_def split: if_splits)
  then show ?thesis
    using d(1) [of ip 12] by (cases "Is4In6 ip") (force simp: IP_String_def To4_def Is4In6_def addr_ok_def)+
qed

text \<open>The ways in which an address is found.\<close>

lemma resolveHost_cases:
  assumes "resolveHost lk host port = Inr addr"
  obtains a where "ParseAddr host = Some a" "addr = JoinHostPort (Addr_String a) port"
  | f ips ip where "lk = Some f" "f host = Inr ips" "pickAddress ips = Some ip" "addr = JoinHostPort (IP_String ip) port"
  using assms unfolding resolveHost_def by (auto split: option.splits sum.splits)

lemma Resolve_cases:
  assumes "ResolveRegisterDialAddrWithLookup raw (Some u) lk = Inr addr" and "trimSpace raw \<noteq> []"
  obtains a p where "ParseAddr (trimSpace raw) = Some a" "registerPort u = Some p" "addr = JoinHostPort (Addr_String a) p"
  | h p n dp where "ParseAddr (trimSpace raw) = None" "splitRegisterIP (trimSpace raw) dp = Some (h, p)"
      "resolveHost lk (trimSpace h) (trimSpace p) = Inr addr" "parseInt (trimSpace p) = Some n" "1 \<le> n" "n \<le> 65535"
  using assms unfolding ResolveRegisterDialAddrWithLookup_def Let_def
  by (auto simp: not_less split: if_split_asm option.split_asm prod.split_asm)

section \<open>Properties\<close>

text \<open>C26. A register address override is always an address.  Whatever form of \<^verbatim>\<open>--register-ip\<close> is accepted (an address, an
  address with a port, a host name with or without a port), the address to dial splits into a host that parses
  as an IP address, so that dialling never resolves a name again, and a port that is the register URL's own or
  lies between 1 and 65535.  The hypotheses: an address given alone has no bracket in its zone, and the resolver
  answers with byte sequences.\<close>

theorem dial_override_is_address:
  assumes "ResolveRegisterDialAddrWithLookup raw (Some u) lk = Inr addr" and "trimSpace raw \<noteq> []"
    and "\<forall>a. ParseAddr (trimSpace raw) = Some a \<longrightarrow> no_brackets (snd a)"
    and "\<forall>f h ips ip. lk = Some f \<and> f h = Inr ips \<and> ip \<in> set ips \<longrightarrow> bytes_ok ip"
  shows "\<exists>host p a. SplitHostPort addr = Inr (host, p) \<and> ParseAddr host = Some a \<and>
    (registerPort u = Some p \<or> (\<exists>n. parseInt p = Some n \<and> 1 \<le> n \<and> n \<le> 65535))"
  using assms(1,2)
proof (cases rule: Resolve_cases)
  case (1 a p)
  then show ?thesis using dial_text [OF ParseAddr_ok _ registerPort_plain] assms(3) by blast
next
  case (2 h p n dp)
  note plain = parseInt_plain [OF 2(4)]
  from 2(3) show ?thesis
  proof (cases rule: resolveHost_cases)
    case (1 a)
    have "h \<noteq> trimSpace raw" using 1(1) 2(1) by (auto simp: trimSpace_idem)
    then obtain h' p' where "SplitHostPort (trimSpace raw) = Inr (h', p')" "h = trimSpace h'"
      using 2(2) by (auto simp: splitRegisterIP_def split: sum.splits if_splits)
    then have "no_brackets (trimSpace h)"
      using no_brackets_sub [OF SplitHostPort_no_brackets] set_trimSpace by (metis trimSpace_idem)
    then have "no_brackets (snd a)" using ParseAddr_zone [of "trimSpace h" "fst a" "snd a"] 1(1) no_brackets_sub by simp
    then show ?thesis using dial_text [OF ParseAddr_ok [OF 1(1)] _ plain] 1 2 by blast
  next
    case (2 f ips ip)
    then obtain q where "addr_ok (q, [])" "IP_String ip = Addr_String (q, [])"
      using pickAddress_ok assms(4) by metis
    then show ?thesis
      using dial_text [of "(q, [])", OF _ _ plain] 2 \<open>parseInt (trimSpace p) = Some n\<close> \<open>1 \<le> n\<close> \<open>n \<le> 65535\<close>
      by (fastforce simp: no_brackets_def)
  qed
qed

definition demo_lookup :: lookup where
  "demo_lookup h = (if h = ''gw.example'' then Inr [replicate 15 0 @ [1], [192, 0, 2, 7]] else Inl ''no such host'')"

theorem dial_override_is_address_witness:
  "ResolveRegisterDialAddrWithLookup ''gw.example:8443'' (Some (emptyURL\<lparr>uScheme := ''wss'', uHost := ''h''\<rparr>)) (Some demo_lookup) =
     Inr ''192.0.2.7:8443'' \<and> (\<exists>host p a. SplitHostPort ''192.0.2.7:8443'' = Inr (host, p) \<and> ParseAddr host = Some a)"
proof -
  let ?u = "emptyURL\<lparr>uScheme := ''wss'', uHost := ''h''\<rparr>"
  have r: "ResolveRegisterDialAddrWithLookup ''gw.example:8443'' (Some ?u) (Some demo_lookup) = Inr ''192.0.2.7:8443''"
    "trimSpace ''gw.example:8443'' \<noteq> []" "ParseAddr (trimSpace ''gw.example:8443'') = None" by code_simp+
  have "\<forall>f h ips ip. Some demo_lookup = Some f \<and> f h = Inr ips \<and> ip \<in> set ips \<longrightarrow> bytes_ok ip"
    by (auto simp: demo_lookup_def bytes_ok_def list_all_iff split: if_splits)
  with dial_override_is_address [OF r(1,2)] r show ?thesis by fastforce
qed

end
