(* ===== verification/Reverse_Proxy.thy ===== *)
theory Reverse_Proxy
  imports Go_UrlText Go_Http Go_Net Go_Time Go_Response
begin

text \<open>
  \<^verbatim>\<open>internal/reverseproxy\<close>: the local listener of \<^verbatim>\<open>-L\<close>.  Of \<^verbatim>\<open>httputil.ReverseProxy\<close> the model
  has the director of \<^verbatim>\<open>NewSingleHostReverseProxy\<close> (\<^verbatim>\<open>rewriteRequestURL\<close>, \<^verbatim>\<open>joinURLPath\<close>), which the source
  wraps, and what \<^verbatim>\<open>ServeHTTP\<close> does to the request after the director has run: it removes the hop-by-hop
  headers and those named by \<^verbatim>\<open>Connection\<close>, puts back those of an upgrade and \<^verbatim>\<open>Te: trailers\<close>, and adds the
  client's address to \<^verbatim>\<open>X-Forwarded-For\<close>.  The transport and the copying of bodies are the library's.
\<close>

section \<open>The director of the library\<close>

record proxy_request =
  dURL :: URL
  dHost :: string
  dHeader :: header
  dRemoteAddr :: string

definition singleJoiningSlash :: "string \<Rightarrow> string \<Rightarrow> string" where
  "singleJoiningSlash a b =
     (let aslash = hasSuffix a ''/''; bslash = hasPrefix b ''/''
      in if aslash \<and> bslash then a @ tl b else if \<not> aslash \<and> \<not> bslash then a @ ''/'' @ b else a @ b)"

definition joinURLPath :: "URL \<Rightarrow> URL \<Rightarrow> string \<times> string" where
  "joinURLPath a b =
     (if uRawPath a = [] \<and> uRawPath b = [] then (singleJoiningSlash (uPath a) (uPath b), [])
      else
        let apath = EscapedPath a; bpath = EscapedPath b;
            aslash = hasSuffix apath ''/''; bslash = hasPrefix bpath ''/''
        in if aslash \<and> bslash then (uPath a @ tl (uPath b), apath @ tl bpath)
           else if \<not> aslash \<and> \<not> bslash then (uPath a @ ''/'' @ uPath b, apath @ ''/'' @ bpath)
           else (uPath a @ uPath b, apath @ bpath))"

definition rewriteRequestURL :: "URL \<Rightarrow> URL \<Rightarrow> URL" where
  "rewriteRequestURL target u =
     (case joinURLPath target u of (path, raw) \<Rightarrow>
        u\<lparr>uScheme := uScheme target, uHost := uHost target, uPath := path, uRawPath := raw,
          uRawQuery := (if uRawQuery target = [] \<or> uRawQuery u = [] then uRawQuery target @ uRawQuery u
                        else uRawQuery target @ ''&'' @ uRawQuery u)\<rparr>)"

section \<open>server.go\<close>

record transport =
  tDialTimeout :: duration
  tDialKeepAlive :: duration
  tForceAttemptHTTP2 :: bool
  tMaxIdleConns :: int
  tIdleConnTimeout :: duration
  tResponseHeaderTimeout :: duration
  tTLSHandshakeTimeout :: duration
  tExpectContinueTimeout :: duration

record proxy_server =
  listenAddr :: string
  upstreamURL :: URL
  bearerToken :: string
  transport :: transport

definition New_proxy :: "string \<Rightarrow> URL \<Rightarrow> string \<Rightarrow> proxy_server" where
  "New_proxy addr up token =
     \<lparr>listenAddr = addr, upstreamURL = up, bearerToken = token,
      transport =
        \<lparr>tDialTimeout = 10 * Second, tDialKeepAlive = 30 * Second, tForceAttemptHTTP2 = True, tMaxIdleConns = 100,
         tIdleConnTimeout = 90 * Second, tResponseHeaderTimeout = 30 * Second, tTLSHandshakeTimeout = 10 * Second,
         tExpectContinueTimeout = 1 * Second\<rparr>\<rparr>"

definition director :: "proxy_server \<Rightarrow> proxy_request \<Rightarrow> proxy_request" where
  "director s r =
     r\<lparr>dURL := rewriteRequestURL (upstreamURL s) (dURL r),
       dHost := uHost (upstreamURL s),
       dHeader := (if bearerToken s \<noteq> [] then hset (dHeader r) ''Authorization'' (''Bearer '' @ bearerToken s) else dHeader r)\<rparr>"

section \<open>What the library does after the director\<close>

text \<open>\<^verbatim>\<open>textproto.TrimString\<close>, and the search for a token in the values of a header.\<close>

definition trimString :: "string \<Rightarrow> string" where
  "trimString = trimChars [CHR 0x20, CHR 0x09, CHR 0x0A, CHR 0x0D]"

definition containsToken :: "string list \<Rightarrow> string \<Rightarrow> bool" where
  "containsToken vs token =
     list_ex (\<lambda>t. map lower_byte (trimChars [CHR 0x20, CHR 0x09] t) = map lower_byte token)
       (concat (map (splitOn CHR '','') vs))"

definition upgradeType :: "header \<Rightarrow> string" where
  "upgradeType h = (if containsToken (hlookup h ''Connection'') ''Upgrade'' then hget h ''Upgrade'' else [])"

definition hopHeaders :: "string list" where
  "hopHeaders =
     [''Connection'', ''Proxy-Connection'', ''Keep-Alive'', ''Proxy-Authenticate'', ''Proxy-Authorization'', ''Te'', ''Trailer'',
      ''Transfer-Encoding'', ''Upgrade'']"

definition removeHopByHopHeaders :: "header \<Rightarrow> header" where
  "removeHopByHopHeaders h =
     fold (\<lambda>k h. hdel h k) hopHeaders
       (fold (\<lambda>k h. hdel h k)
         (filter (\<lambda>k. k \<noteq> []) (map trimString (concat (map (splitOn CHR '','') (hlookup h ''Connection''))))) h)"

definition add_forwarded :: "string \<Rightarrow> header \<Rightarrow> header" where
  "add_forwarded remote h =
     (case SplitHostPort remote of
        Inl _ \<Rightarrow> h
      | Inr (ip, _) \<Rightarrow>
          (case hlookup h ''X-Forwarded-For'' of
             [] \<Rightarrow> hset h ''X-Forwarded-For'' ip
           | prior \<Rightarrow> hset h ''X-Forwarded-For'' (joinWith '', '' prior @ '', '' @ ip)))"

definition keep_user_agent :: "header \<Rightarrow> header" where
  "keep_user_agent h = (if map_of h ''User-Agent'' = None then hset h ''User-Agent'' [] else h)"

text \<open>
  The request handed to the transport, \<open>None\<close> when the client asks to switch to a protocol that is not
  printable.
\<close>

definition proxied_request :: "proxy_server \<Rightarrow> proxy_request \<Rightarrow> proxy_request option" where
  "proxied_request s q =
     (let r = director s q; up = upgradeType (dHeader r);
          h1 = removeHopByHopHeaders (dHeader r);
          h2 = (if containsToken (hlookup (dHeader q) ''Te'') ''trailers'' then hset h1 ''Te'' ''trailers'' else h1);
          h3 = (if up \<noteq> [] then hset (hset h2 ''Connection'' ''Upgrade'') ''Upgrade'' up else h2)
      in if list_all (\<lambda>c. 0x20 \<le> ord_of c \<and> ord_of c \<le> 0x7E) up
         then Some (r\<lparr>dHeader := keep_user_agent (add_forwarded (dRemoteAddr q) h3)\<rparr>) else None)"

section \<open>Failures and the end\<close>

text \<open>What a client gets when the upstream request fails.\<close>

definition errorHandler :: "'a rw_scheme \<Rightarrow> 'a rw_scheme" where
  "errorHandler w = http_Error w ''bad gateway'' 502"

text \<open>
  How serving ends: the listener returns by itself, or the context ends first and the listener returns after the
  shutdown.  \<open>None\<close> as the listener's error is no error.
\<close>

datatype serve_err = ErrServerClosed | ServeErr string

datatype serve_end = ListenerEnds "serve_err option" | ContextEnds "serve_err option"

datatype proxy_error = ListenFailed "serve_err option" | ShutdownFailed serve_err | CtxErr

definition proxy_Run :: "serve_end \<Rightarrow> proxy_error option" where
  "proxy_Run e =
     (case e of
        ListenerEnds err \<Rightarrow> if err = Some ErrServerClosed then None else Some (ListenFailed err)
      | ContextEnds err \<Rightarrow>
          (case err of
             Some (ServeErr m) \<Rightarrow> Some (ShutdownFailed (ServeErr m))
           | _ \<Rightarrow> Some CtxErr))"

section \<open>Lemmas\<close>

lemma hasSuffix_slash: "hasSuffix s ''/'' \<longleftrightarrow> s \<noteq> [] \<and> last s = CHR ''/''"
  by (cases s rule: rev_cases) (auto simp: hasSuffix_iff suffix_def)

lemma escapePath_last: "s \<noteq> [] \<Longrightarrow> escapePath s \<noteq> [] \<and> (last (escapePath s) = CHR ''/'' \<longleftrightarrow> last s = CHR ''/'')"
proof (induction s)
  case (Cons c s)
  have "hex_digit n \<noteq> CHR ''/''" if "n < 16" for n using is_hex_digit [OF that] by (auto simp: is_hex_def is_digit_def)
  moreover have "path_plain CHR ''/''" by code_simp
  ultimately show ?case using Cons ord_nibbles(2) [of c] by (cases "s = []") auto
qed simp

text \<open>Below an upstream path without a final slash, a request path is appended as it is.\<close>

lemma rewrite_path:
  assumes "uRawPath up = []" and "uPath up \<noteq> []" and "last (uPath up) \<noteq> CHR ''/''" and "uPath up \<noteq> ''*''"
    and "hasPrefix (uPath u) ''/''" and "hasPrefix (EscapedPath u) ''/''"
  shows "uPath (rewriteRequestURL up u) = uPath up @ uPath u"
proof -
  have "\<not> hasSuffix (EscapedPath up) ''/''" "\<not> hasSuffix (uPath up) ''/''"
    using assms(1-4) escapePath_last [of "uPath up"] by (auto simp: EscapedPath_def hasSuffix_slash)
  then show ?thesis
    using assms(5,6) by (auto simp: rewriteRequestURL_def joinURLPath_def singleJoiningSlash_def Let_def split: prod.splits)
qed

text \<open>The header fields an element of the client's \<^verbatim>\<open>Connection\<close> header names.\<close>

definition connection_names :: "header \<Rightarrow> string \<Rightarrow> bool" where
  "connection_names h k \<longleftrightarrow>
     (\<exists>v \<in> set (hlookup h ''Connection''). \<exists>w \<in> set (splitOn CHR '','' v). trimString w \<noteq> [] \<and> canonicalHeaderKey (trimString w) = k)"

lemma hop_keys:
  "canonicalHeaderKey ` set hopHeaders = set hopHeaders" "canonicalHeaderKey ''Authorization'' = ''Authorization''"
  "canonicalHeaderKey ''X-Forwarded-For'' = ''X-Forwarded-For''" "canonicalHeaderKey ''User-Agent'' = ''User-Agent''"
  "canonicalHeaderKey ''Te'' = ''Te''" "canonicalHeaderKey ''Connection'' = ''Connection''" "canonicalHeaderKey ''Upgrade'' = ''Upgrade''"
  by code_simp+

lemma hlookup_removeHopByHop:
  "hlookup (removeHopByHopHeaders h) k = (if k \<in> set hopHeaders \<or> connection_names h k then [] else hlookup h k)"
proof -
  define ks where "ks = filter (\<lambda>k. k \<noteq> []) (map trimString (concat (map (splitOn CHR '','') (hlookup h ''Connection''))))"
  have "k \<in> canonicalHeaderKey ` set ks \<longleftrightarrow> connection_names h k" by (auto simp: ks_def connection_names_def image_iff)
  then show ?thesis
    unfolding removeHopByHopHeaders_def ks_def [symmetric]
    by (simp add: fold_hdel hlookup_def [of "fold _ _ _"] map_of_fold_delete hop_keys(1)) (simp add: hlookup_def)
qed

lemma hlookup_add_forwarded: "k \<noteq> ''X-Forwarded-For'' \<Longrightarrow> hlookup (add_forwarded remote h) k = hlookup h k"
  by (auto simp: add_forwarded_def hlookup_hset hop_keys split: sum.split list.split)

lemma hlookup_keep_user_agent: "k \<noteq> ''User-Agent'' \<or> hlookup h k \<noteq> [] \<Longrightarrow> hlookup (keep_user_agent h) k = hlookup h k"
  by (auto simp: keep_user_agent_def hlookup_hset hop_keys) (auto simp: hlookup_def)

text \<open>The header that leaves: the director's, without what names or is a hop-by-hop header.\<close>

lemma proxied_header:
  assumes "proxied_request s q = Some out"
  shows "k \<notin> set hopHeaders \<Longrightarrow> k \<noteq> ''X-Forwarded-For'' \<Longrightarrow>
      k = ''User-Agent'' \<longrightarrow> \<not> connection_names (dHeader (director s q)) k \<and> hlookup (dHeader (director s q)) k \<noteq> [] \<Longrightarrow>
      hlookup (dHeader out) k = (if connection_names (dHeader (director s q)) k then [] else hlookup (dHeader (director s q)) k)"
    "dURL out = dURL (director s q)" "dHost out = dHost (director s q)"
    "hlookup (dHeader out) ''Connection'' = (if upgradeType (dHeader (director s q)) = [] then [] else [''Upgrade''])"
    "hlookup (dHeader out) ''Upgrade'' = (if upgradeType (dHeader (director s q)) = [] then [] else [upgradeType (dHeader (director s q))])"
proof -
  have ne: "set [''Te'', ''Connection'', ''Upgrade''] \<subseteq> set hopHeaders" by code_simp
  show "dURL out = dURL (director s q)" "dHost out = dHost (director s q)"
    using assms by (auto simp: proxied_request_def Let_def split: if_splits)
  define h where "h = add_forwarded (dRemoteAddr q)
    (let h1 = removeHopByHopHeaders (dHeader (director s q));
         h2 = (if containsToken (hlookup (dHeader q) ''Te'') ''trailers'' then hset h1 ''Te'' ''trailers'' else h1)
     in if upgradeType (dHeader (director s q)) \<noteq> []
        then hset (hset h2 ''Connection'' ''Upgrade'') ''Upgrade'' (upgradeType (dHeader (director s q))) else h2)"
  have out: "dHeader out = keep_user_agent h"
    using assms by (auto simp: proxied_request_def h_def Let_def split: if_splits)
  have "hlookup h k = (if connection_names (dHeader (director s q)) k then [] else hlookup (dHeader (director s q)) k)"
    if "k \<notin> set hopHeaders" "k \<noteq> ''X-Forwarded-For''"
    using that ne by (auto simp: h_def Let_def hlookup_add_forwarded hlookup_hset hop_keys(2-) hlookup_removeHopByHop)
  then show "k \<notin> set hopHeaders \<Longrightarrow> k \<noteq> ''X-Forwarded-For'' \<Longrightarrow>
      k = ''User-Agent'' \<longrightarrow> \<not> connection_names (dHeader (director s q)) k \<and> hlookup (dHeader (director s q)) k \<noteq> [] \<Longrightarrow>
      hlookup (dHeader out) k = (if connection_names (dHeader (director s q)) k then [] else hlookup (dHeader (director s q)) k)"
    using hlookup_keep_user_agent [of k h] unfolding out by (cases "k = ''User-Agent''") auto
  show "hlookup (dHeader out) ''Connection'' = (if upgradeType (dHeader (director s q)) = [] then [] else [''Upgrade''])"
    "hlookup (dHeader out) ''Upgrade'' = (if upgradeType (dHeader (director s q)) = [] then [] else [upgradeType (dHeader (director s q))])"
    using ne by (auto simp: out h_def Let_def hlookup_keep_user_agent hlookup_add_forwarded hlookup_hset hop_keys(2-)
        hlookup_removeHopByHop)
qed

lemma director_header:
  "connection_names (dHeader (director s q)) k = connection_names (dHeader q) k"
  "upgradeType (dHeader (director s q)) = upgradeType (dHeader q)"
  "k \<noteq> ''Authorization'' \<Longrightarrow> hlookup (dHeader (director s q)) k = hlookup (dHeader q) k"
  "bearerToken s \<noteq> [] \<Longrightarrow> hlookup (dHeader (director s q)) ''Authorization'' = [''Bearer '' @ bearerToken s]"
  by (simp_all add: director_def connection_names_def upgradeType_def hget_def hvalues_def hlookup_hset hop_keys(2-))

end
