(* ===== verification/Cli.thy ===== *)
theory Cli
  imports Forward Reverse_Proxy
begin

text \<open>
  \<^verbatim>\<open>cmd/clockbridge-cli\<close>: what the command does with its flags, its positional arguments, the environment
  and the token files.  The values of the flags are the input: \<^verbatim>\<open>flag.Parse\<close> is the library's.  The result
  of the command is an action; the embedded frp client, which \<^verbatim>\<open>--frp\<close> selects, is a third-party program.
\<close>

section \<open>Definitions\<close>

datatype cli_error =
    ModesExclusive
  | ModeMissing
  | ListenSpecEmpty
  | ListenSpecInvalid string
  | ListenPortInvalid string
  | DestinationInvalid string
  | LocalArgs
  | RemoteArgs
  | RegisterIPOnlyRemote
  | TokenFileUnreadable string
  | TokenFileEmpty string
  | ForwardError forward_error

datatype mode = modeUnknown | modeLocalForward | modeRemoteForward

text \<open>The contents of the files; \<open>None\<close> is a file that cannot be read.\<close>

type_synonym files = "string \<Rightarrow> string option"

definition resolveMode :: "string \<Rightarrow> string \<Rightarrow> cli_error + mode" where
  "resolveMode localSpec remoteTarget =
     (let hasLocal = trimSpace localSpec \<noteq> []; hasRemote = trimSpace remoteTarget \<noteq> []
      in if hasLocal \<and> hasRemote then Inl ModesExclusive
         else if \<not> hasLocal \<and> \<not> hasRemote then Inl ModeMissing
         else if hasLocal then Inr modeLocalForward
         else Inr modeRemoteForward)"

definition isDigits :: "string \<Rightarrow> bool" where
  "isDigits s \<longleftrightarrow> s \<noteq> [] \<and> list_all is_digit s"

definition parseListenAddr :: "string \<Rightarrow> cli_error + string" where
  "parseListenAddr raw =
     (let spec = trimSpace raw
      in if spec = [] then Inl ListenSpecEmpty
         else if isDigits spec then Inr (''127.0.0.1:'' @ spec)
         else case SplitHostPort spec of
           Inl _ \<Rightarrow> Inl (ListenSpecInvalid spec)
         | Inr (host, port) \<Rightarrow>
             if \<not> isDigits port then Inl (ListenPortInvalid port)
             else Inr (JoinHostPort (if host = [] then ''127.0.0.1'' else host) port))"

definition parseDestination :: "string \<Rightarrow> cli_error + (string \<times> string)" where
  "parseDestination raw =
     (let spec = trimSpace raw; parts = splitN2 CHR ''@'' spec
      in if length parts \<noteq> 2 then Inl (DestinationInvalid spec)
         else
           let u = trimSpace (parts ! 0); h = trimSpace (parts ! 1)
           in if u = [] \<or> h = [] then Inl (DestinationInvalid spec) else Inr (u, h))"

definition parseHTTPURL :: "string \<Rightarrow> string \<Rightarrow> forward_error + URL" where
  "parseHTTPURL raw field =
     (let val = trimSpace raw
      in if val = [] then Inl (FieldEmpty field)
         else case Parse val of
           None \<Rightarrow> Inl (FieldInvalid field raw)
         | Some u \<Rightarrow>
             if schemeOf u \<notin> {''http'', ''https''} then Inl (SchemeNotSupported field raw)
             else if trimSpace (uHost u) = [] then Inl (HostMissing field raw)
             else Inr u)"

definition readTokenFromFile :: "files \<Rightarrow> string \<Rightarrow> cli_error + string" where
  "readTokenFromFile files path =
     (case files path of
        None \<Rightarrow> Inl (TokenFileUnreadable path)
      | Some content \<Rightarrow>
          let val = trimSpace content in if val = [] then Inl (TokenFileEmpty path) else Inr val)"

definition resolveBearerToken :: "env \<Rightarrow> files \<Rightarrow> string \<Rightarrow> string \<Rightarrow> cli_error + (string \<times> string)" where
  "resolveBearerToken env files tokenFlag identityFile =
     (let tokenFromFlag = trimSpace tokenFlag;
          identityPath = trimSpace identityFile;
          tokenFromEnv = trimSpace (env ''CLOCKBRIDGE_HTTPS_PROXY_TOKEN'');
          tokenPathEnv = trimSpace (env ''CLOCKBRIDGE_HTTPS_PROXY_TOKEN_PATH'')
      in if tokenFromFlag \<noteq> [] then Inr (tokenFromFlag, ''flag:--token'')
         else if identityPath \<noteq> [] then
           (case readTokenFromFile files identityPath of Inl e \<Rightarrow> Inl e | Inr v \<Rightarrow> Inr (v, ''flag:-i''))
         else if tokenFromEnv \<noteq> [] then Inr (tokenFromEnv, ''env:CLOCKBRIDGE_HTTPS_PROXY_TOKEN'')
         else if tokenPathEnv \<noteq> [] then
           (case readTokenFromFile files tokenPathEnv of
              Inl e \<Rightarrow> Inl e
            | Inr v \<Rightarrow> Inr (v, ''env:CLOCKBRIDGE_HTTPS_PROXY_TOKEN_PATH''))
         else Inr ([], ''none''))"

definition runLocalForward :: "string \<Rightarrow> string list \<Rightarrow> string \<Rightarrow> cli_error + proxy_server" where
  "runLocalForward localSpec args token =
     (case args of
        [dest] \<Rightarrow>
          (case parseListenAddr localSpec of
             Inl e \<Rightarrow> Inl e
           | Inr addr \<Rightarrow>
               (case parseHTTPURL dest ''upstream URL'' of
                  Inl e \<Rightarrow> Inl (ForwardError e)
                | Inr up \<Rightarrow> Inr (New_proxy addr up token)))
      | _ \<Rightarrow> Inl LocalArgs)"

text \<open>The end of the local forward: the end of the context, which only a signal brings about, is no error.\<close>

definition local_exit :: "serve_end \<Rightarrow> proxy_error option" where
  "local_exit e = (case proxy_Run e of Some CtxErr \<Rightarrow> None | err \<Rightarrow> err)"

definition runRemoteForward ::
  "lookup \<Rightarrow> string \<Rightarrow> string list \<Rightarrow> string \<Rightarrow> string \<Rightarrow> string \<Rightarrow> string \<Rightarrow> cli_error + RemoteForward" where
  "runRemoteForward resolver remoteTarget args proxyMode registerIP token xToken =
     (case args of
        [dest] \<Rightarrow>
          (case parseDestination dest of
             Inl e \<Rightarrow> Inl e
           | Inr (u, host) \<Rightarrow>
               (case NewRemoteForward resolver
                       \<lparr>cTargetURL = remoteTarget, cUUID = u, cRegisterHost = host, cRegisterIP = registerIP,
                        cProxyMode = proxyMode, cRegisterXToken = trimSpace xToken, cRegisterBearerToken = token\<rparr> of
                  Inl e \<Rightarrow> Inl (ForwardError e)
                | Inr f \<Rightarrow> Inr f))
      | _ \<Rightarrow> Inl RemoteArgs)"

record cli_flags =
  flagL :: string
  flagR :: string
  flagProxyMode :: string
  flagRegisterIP :: string
  flagI :: string
  flagToken :: string
  flagXToken :: string
  flagVersion :: bool

definition default_flags :: cli_flags where
  "default_flags = \<lparr>flagL = [], flagR = [], flagProxyMode = ProxyModeLegacyFramed, flagRegisterIP = [], flagI = [],
     flagToken = [], flagXToken = [], flagVersion = False\<rparr>"

datatype cli_action =
    ExecFrp "string list"
  | PrintVersion
  | Fatal cli_error
  | ServeLocal proxy_server
  | ServeRemote RemoteForward

text \<open>\<open>osArgs\<close> is \<^verbatim>\<open>os.Args\<close>; \<open>flags\<close> and \<open>args\<close> are what \<^verbatim>\<open>flag.Parse\<close> makes of it.\<close>

definition cli_main ::
  "env \<Rightarrow> files \<Rightarrow> lookup \<Rightarrow> string list \<Rightarrow> cli_flags \<Rightarrow> string list \<Rightarrow> cli_action" where
  "cli_main env files resolver osArgs flags args =
     (if length osArgs > 1 \<and> osArgs ! 1 = ''--frp'' then ExecFrp (hd osArgs # drop 2 osArgs)
      else if flagVersion flags then PrintVersion
      else case resolveMode (flagL flags) (flagR flags) of
        Inl e \<Rightarrow> Fatal e
      | Inr m \<Rightarrow>
          (case resolveBearerToken env files (flagToken flags) (flagI flags) of
             Inl e \<Rightarrow> Fatal e
           | Inr (token, _) \<Rightarrow>
               if m = modeLocalForward then
                 (if trimSpace (flagRegisterIP flags) \<noteq> [] then Fatal RegisterIPOnlyRemote
                  else case runLocalForward (flagL flags) args token of Inl e \<Rightarrow> Fatal e | Inr s \<Rightarrow> ServeLocal s)
               else
                 (case runRemoteForward resolver (flagR flags) args (flagProxyMode flags) (flagRegisterIP flags) token
                         (flagXToken flags) of
                    Inl e \<Rightarrow> Fatal e
                  | Inr f \<Rightarrow> ServeRemote f)))"

section \<open>Lemmas\<close>

lemma parseDestination_ok:
  assumes "parseDestination raw = Inr (u, h)"
  shows "u \<noteq> []" "trimSpace u = u" "CHR ''@'' \<notin> set u" "length h \<le> length raw"
proof -
  let ?s = "trimSpace raw"
  obtain a b where c: "cutAt CHR ''@'' ?s = (a, Some b)" and u: "u = trimSpace a" "h = trimSpace b" "u \<noteq> []"
    using assms by (auto simp: parseDestination_def splitN2_def Let_def split: prod.splits option.splits if_splits)
  note s = cutAt_Some [OF c]
  show "u \<noteq> []" "trimSpace u = u" "CHR ''@'' \<notin> set u" using u s set_trimSpace [of a] by (auto simp: trimSpace_idem)
  have "length ?s = length (a @ CHR ''@'' # b)" using s by (rule arg_cong [OF conjunct1])
  then have "length ?s = length a + 1 + length b" by simp
  then show "length h \<le> length raw" unfolding u(2) using length_trimSpace [of b] length_trimSpace [of raw] by linarith
qed

lemma resolveBearerToken_cases:
  "resolveBearerToken env files t i = Inr (tok, src) \<Longrightarrow> trimSpace tok = tok \<and> (tok = [] \<longleftrightarrow> src = ''none'')"
proof -
  have r: "readTokenFromFile files p = Inr v \<Longrightarrow> trimSpace v = v \<and> v \<noteq> []" for p v
    by (auto simp: readTokenFromFile_def Let_def trimSpace_idem split: option.splits if_split_asm)
  assume "resolveBearerToken env files t i = Inr (tok, src)"
  then show ?thesis
    unfolding resolveBearerToken_def Let_def by (auto simp: trimSpace_idem dest: r split: if_split_asm sum.split_asm)
qed

lemma cli_main_remote:
  assumes "cli_main env files resolver osArgs flags args = ServeRemote f"
  obtains dest u h c where "args = [dest]" "parseDestination dest = Inr (u, h)" "NewRemoteForward resolver c = Inr f"
    "cUUID c = u" "cRegisterHost c = h" "cProxyMode c = flagProxyMode flags" "cTargetURL c = flagR flags"
    "cRegisterXToken c = trimSpace (flagXToken flags)"
proof -
  obtain token where "runRemoteForward resolver (flagR flags) args (flagProxyMode flags) (flagRegisterIP flags) token
      (flagXToken flags) = Inr f"
    using assms by (auto simp: cli_main_def split: if_splits sum.splits)
  then show thesis
    using that by (fastforce simp: runRemoteForward_def split: list.splits sum.splits)
qed

lemma parseListenAddr_ok:
  assumes "parseListenAddr raw = Inr addr"
  obtains h p where "SplitHostPort addr = Inr (h, p)" "isDigits p" "h \<noteq> []"
    "h = ''127.0.0.1'' \<or> SplitHostPort (trimSpace raw) = Inr (h, p)"
proof (cases "isDigits (trimSpace raw)")
  case True
  then have addr: "addr = JoinHostPort ''127.0.0.1'' (trimSpace raw)"
    using assms by (auto simp: parseListenAddr_def Let_def JoinHostPort_def split: if_splits)
  show thesis
    using that [of "''127.0.0.1''" "trimSpace raw"] True SplitHostPort_Join [of "''127.0.0.1''" "trimSpace raw"]
      digits_plain_port [of "trimSpace raw"] unfolding addr
    by (auto simp: isDigits_def plain_port_def)
next
  case False
  then obtain h p where s: "SplitHostPort (trimSpace raw) = Inr (h, p)" "isDigits p"
    and addr: "addr = JoinHostPort (if h = [] then ''127.0.0.1'' else h) p"
    using assms by (auto simp: parseListenAddr_def Let_def split: if_splits sum.splits)
  have "no_brackets (if h = [] then ''127.0.0.1'' else h)"
    using SplitHostPort_no_brackets [OF s(1)] by (simp add: no_brackets_def)
  then have "SplitHostPort addr = Inr (if h = [] then ''127.0.0.1'' else h, p)"
    unfolding addr using s(2) digits_plain_port [of p]
    by (intro SplitHostPort_Join) (auto simp: no_brackets_def isDigits_def plain_port_def)
  then show thesis using that s by (cases "h = []") auto
qed

lemma parseHTTPURL_ok:
  assumes "parseHTTPURL raw field = Inr u"
  shows "uScheme u \<in> {''http'', ''https''}" "trimSpace (uHost u) \<noteq> []" "uOpaque u = []"
    "list_all (\<lambda>c. \<not> ctl_byte c) (uHost u)"
proof -
  have p: "Parse (trimSpace raw) = Some u" and s: "schemeOf u \<in> {''http'', ''https''}" "trimSpace (uHost u) \<noteq> []"
    using assms by (auto simp: parseHTTPURL_def Let_def split: option.splits if_splits)
  note f = Parse_facts [OF p]
  have "uHost u \<noteq> []" using s(2) by auto
  then show "uScheme u \<in> {''http'', ''https''}" "trimSpace (uHost u) \<noteq> []" "uOpaque u = []"
    "list_all (\<lambda>c. \<not> ctl_byte c) (uHost u)" using f s schemeOf_parsed [OF f(1)] by simp_all
qed

text \<open>What the servers the command starts rely on.\<close>

fun wf_action :: "cli_action \<Rightarrow> bool" where
  "wf_action (ExecFrp osArgs) \<longleftrightarrow> osArgs \<noteq> []"
| "wf_action PrintVersion \<longleftrightarrow> True"
| "wf_action (Fatal _) \<longleftrightarrow> True"
| "wf_action (ServeLocal p) \<longleftrightarrow>
     (case SplitHostPort (listenAddr p) of Inl _ \<Rightarrow> False | Inr (h, port) \<Rightarrow> h \<noteq> [] \<and> isDigits port) \<and>
     uScheme (upstreamURL p) \<in> {''http'', ''https''} \<and> trimSpace (uHost (upstreamURL p)) \<noteq> [] \<and>
     uOpaque (upstreamURL p) = [] \<and> list_all (\<lambda>c. \<not> ctl_byte c) (uHost (upstreamURL p)) \<and>
     trimSpace (bearerToken p) = bearerToken p"
| "wf_action (ServeRemote f) \<longleftrightarrow> wf_forward f"

lemma runLocalForward_wf:
  assumes "runLocalForward spec args token = Inr p" and "trimSpace token = token"
  shows "wf_action (ServeLocal p)"
proof -
  obtain dest addr up where a: "parseListenAddr spec = Inr addr" and u: "parseHTTPURL dest ''upstream URL'' = Inr up"
    and p: "p = New_proxy addr up token"
    using assms(1) by (auto simp: runLocalForward_def split: list.splits sum.splits)
  from a obtain h q where "SplitHostPort addr = Inr (h, q)" "isDigits q" "h \<noteq> []" by (elim parseListenAddr_ok)
  then show ?thesis using parseHTTPURL_ok [OF u] assms(2) unfolding p by (simp add: New_proxy_def)
qed

section \<open>Properties\<close>

text \<open>C27. The local listener is not exposed by accident.  An accepted \<^verbatim>\<open>-L\<close> specification yields an address with a numeric
  port whose host is the bind address the user wrote; when the user wrote none, in whatever form, it is the
  IPv4 loopback address and never the wildcard.\<close>

theorem parseListenAddr_loopback:
  assumes "parseListenAddr raw = Inr addr"
  shows "\<exists>h p. SplitHostPort addr = Inr (h, p) \<and> isDigits p \<and>
    (h = ''127.0.0.1'' \<or> h \<noteq> [] \<and> SplitHostPort (trimSpace raw) = Inr (h, p))"
  using assms by (elim parseListenAddr_ok) blast

theorem parseListenAddr_loopback_witness:
  "parseListenAddr '':28789'' = Inr ''127.0.0.1:28789'' \<and>
   (\<exists>h p. SplitHostPort ''127.0.0.1:28789'' = Inr (h, p) \<and> isDigits p \<and>
     (h = ''127.0.0.1'' \<or> h \<noteq> [] \<and> SplitHostPort (trimSpace '':28789'') = Inr (h, p)))"
proof -
  have "parseListenAddr '':28789'' = Inr ''127.0.0.1:28789''" by code_simp
  with parseListenAddr_loopback [OF this] show ?thesis by blast
qed

text \<open>C19. Whatever its arguments, the command starts nothing it cannot serve.  A remote forward has a WebSocket register
  URL with a host and a path, and a target of a supported scheme with a host, a TCP target with a port and
  without a path; a local forward has a bind address with a numeric port and an upstream of scheme http or https with a
  host; hosts are free of control bytes, and the tokens that go into headers are trimmed.\<close>

theorem cli_main_wellformed: "wf_action (cli_main env files resolver osArgs flags args)"
proof (cases "cli_main env files resolver osArgs flags args")
  case (ExecFrp as)
  then show ?thesis by (auto simp: cli_main_def split: if_splits sum.splits)
next
  case (ServeLocal p)
  then obtain token src where "resolveBearerToken env files (flagToken flags) (flagI flags) = Inr (token, src)"
    "runLocalForward (flagL flags) args token = Inr p"
    by (auto simp: cli_main_def split: if_splits sum.splits)
  then show ?thesis using runLocalForward_wf resolveBearerToken_cases ServeLocal by metis
next
  case (ServeRemote f)
  then obtain c where "NewRemoteForward resolver c = Inr f" by (elim cli_main_remote)
  then show ?thesis using NewRemoteForward_wf ServeRemote by simp
qed simp_all

end
