(* ===== verification/Spec2Isabelle.thy ===== *)
theory Spec2Isabelle
  imports Agent_Http Agent_Ws Agent_Session Gateway_Client Cli
begin

text \<open>
  \<^bold>\<open>clockbridge\<close>: a tunnel that makes an application behind a firewall reachable through one public gateway.
  The gateway (\<^verbatim>\<open>internal/gateway\<close>, \<^verbatim>\<open>cmd/gateway\<close>) accepts WebSocket registrations of agents and requests of
  clients for \<^verbatim>\<open>/<uuid>/...\<close>; the agent (\<^verbatim>\<open>internal/agent\<close>, started by \<^verbatim>\<open>pkg/clockbridge\<close> and
  \<^verbatim>\<open>cmd/clockbridge-cli\<close>) keeps the registration connection and performs the requests against its target.
  One binary frame protocol (\<^verbatim>\<open>internal/proto\<close>) multiplexes the streams of all requests over that connection.

  \<^bold>\<open>The library\<close> (what it models; paths are below \<^verbatim>\<open>src/\<close>)
  \<^item> \<^verbatim>\<open>Prelude\<close>: types, machine integers, and the locales: \<open>safety\<close> (a transition system with an invariant),
    \<open>bounded_rx\<close> (a bounded receive queue refines a FIFO queue), \<open>relay\<close> (a goroutine that forwards what it
    reads, under any interleaving).  \<^verbatim>\<open>Keepalive\<close>: the locale \<open>keepalive\<close> of read deadlines that pongs extend.
  \<^item> \<^verbatim>\<open>Go_Strings\<close>, \<^verbatim>\<open>Go_Http\<close>, \<^verbatim>\<open>Go_Url\<close>, \<^verbatim>\<open>Go_UrlText\<close>, \<^verbatim>\<open>Go_UrlParse\<close>, \<^verbatim>\<open>Go_Query\<close>, \<^verbatim>\<open>Go_Time\<close>, \<^verbatim>\<open>Go_Net\<close>,
    \<^verbatim>\<open>Go_Netip\<close>, \<^verbatim>\<open>Go_Json\<close>, \<^verbatim>\<open>Go_Response\<close>, \<^verbatim>\<open>Go_Crypto\<close>: what the program uses of Go's standard library, on
    byte strings: white space, case and numbers; headers; URLs, queries and their parsers; durations and
    float64 rounding; host-port pairs and IP addresses; JSON; the response writer; SHA-1 and base64.
  \<^item> \<^verbatim>\<open>Proto\<close> (\<^verbatim>\<open>internal/proto/frame.go\<close>, \<^verbatim>\<open>types.go\<close>) and \<^verbatim>\<open>Wire\<close> (\<^verbatim>\<open>wire.go\<close>): frames and the JSON of the
    heads of requests and responses.
  \<^item> \<^verbatim>\<open>Shared\<close> (\<^verbatim>\<open>internal/shared\<close>): header rules, URL joining, close codes, modes and target kinds.
  \<^item> \<^verbatim>\<open>Gateway_Conn\<close> (\<^verbatim>\<open>agentconn.go\<close>, \<^verbatim>\<open>stream.go\<close>): the state of a connection is the record \<open>agentConn\<close>, its
    streams are objects of a store, since handlers and the stream map share them; \<open>conn_step\<close> interleaves all
    operations, one lock region or channel operation per step: a stream is closed in one step and leaves the map in
    another (\<open>closing\<close> holds the goroutines in between), and the teardown has its three regions.
  \<^item> \<^verbatim>\<open>Gateway_Config\<close>, \<^verbatim>\<open>Gateway_Server\<close>, \<^verbatim>\<open>Gateway_Http\<close>, \<^verbatim>\<open>Gateway_Ws\<close>, \<^verbatim>\<open>Gateway_Client\<close> (\<^verbatim>\<open>server.go\<close>,
    \<^verbatim>\<open>cmd/gateway/main.go\<close>):
    settings; registration, eviction and routing, with \<open>gw_step\<close> as their interleaving; \<open>handleClientHTTP\<close> as a
    function of what it meets; the three WebSocket handlers, opening as functions and relaying as steps of
    their goroutines, where reads fail because this side closed the client and receives because it closed the
    stream; the ping loop that watches a client.
  \<^item> \<^verbatim>\<open>Agent_Conn\<close>, \<^verbatim>\<open>Agent_Run\<close>, \<^verbatim>\<open>Agent_Session\<close>, \<^verbatim>\<open>Agent_Http\<close>, \<^verbatim>\<open>Agent_Ws\<close> (\<^verbatim>\<open>agent.go\<close>): the stream map and its
    interleaving, in which streams leave the map before they are closed (\<open>aHeld\<close>); the connection loop with its back-off; a session with its deadlines and pings;
    \<open>handleHTTP\<close>; the four WebSocket handlers.
  \<^item> \<^verbatim>\<open>Forward\<close> (\<^verbatim>\<open>pkg/clockbridge/remote_forward.go\<close>), \<^verbatim>\<open>Reverse_Proxy\<close> (\<^verbatim>\<open>internal/reverseproxy/server.go\<close>),
    \<^verbatim>\<open>Cli\<close> (\<^verbatim>\<open>cmd/clockbridge-cli/main.go\<close>): the checks and conversions between the command line and an agent
    or a local listener, whose requests the model follows through the director and what the library's reverse proxy
    does to the headers after it.

  \<^bold>\<open>How effects are modelled\<close>.  Mutable state is a record passed along; a Go pointer that is shared is an index into
  a store.  A handler that blocks is a function of the sequence of outcomes it meets (frames received, results of
  sends and reads, the clock); each theorem quantifies over these outcomes.  Goroutines of one handler are one
  step function with one event per goroutine step, and every event sequence is a schedule; a \<^verbatim>\<open>select\<close> with several
  ready cases takes an argument that picks.  Errors are values.  Integers wrap where the source can overflow
  (stream identifiers are 32-bit words, durations are reduced to 64 bits by \<open>wrap64\<close>).

  \<^bold>\<open>What is shown\<close>
  \<^item> End to end, in this theory: requests and responses cross both programs; WebSocket messages, TCP
    bytes and raw bytes arrive in order and unaltered under any interleaving on both sides; the arguments of the
    command determine the registry entry, and gateway and agent agree on modes; a local forward reaches its
    agent; on-time pings keep both ends alive; late frames of a finished stream are settled on both sides.
  \<^item> Per component: invariants of connections, registry and agent under all interleavings; FIFO refinement of the
    receive queues; overflow resets exactly one stream; teardown closes everything; the goroutines of a relay end by
    themselves within a bounded number of turns; silent clients are
    cut and others are not; the command starts only well-formed servers; policies of
    registration, transparent mode, tokens and routing; limits and time bounds; round trips of frames, JSON,
    queries, paths and addresses.
  \<^item> Behaviours that differ from their documentation are theorems too, for instance the race in which
    an agent never learns of the end of a WebSocket, tokens that stay in a malformed query, or the bearer token that a
    \<^verbatim>\<open>Connection\<close> header removes.

  \<^bold>\<open>Fuel and bounds\<close>.  No definition has fuel: recursive functions are total, by structure or by a measure, and event
  lists are finite prefixes of executions.  A bound on inputs appears in \<open>cli_registration\<close> only (nine thousand
  characters of argument keep a register URL within the ten thousand parameters that \<^verbatim>\<open>url.ParseQuery\<close> accepts).

  \<^bold>\<open>Not modelled\<close>.  Log lines and the functions that only format them (\<^verbatim>\<open>connAddrLocal\<close>, \<^verbatim>\<open>handshakeSummary\<close>,
  \<^verbatim>\<open>setClientWSPongHandler\<close>, the access log's text).  The network, \<^verbatim>\<open>net/http\<close>'s client and server, TLS and the
  gorilla WebSocket library appear as the outcomes of calls, among them the following of redirects by
  \<^verbatim>\<open>http.Client\<close>.  The frp client behind \<^verbatim>\<open>--frp\<close> is third-party code and \<^verbatim>\<open>flag.Parse\<close> is taken as given.  Parse
  errors keep their kind, not their text.  \<^verbatim>\<open>cmd/mockapp\<close> and \<^verbatim>\<open>cmd/mockclient\<close> are programs for manual tests.
  In the relays of the agent and in the raw relays the body of a \<^verbatim>\<open>closeOnce.Do\<close> is one step; float64 arithmetic is
  without fused multiply-add.
\<close>

section \<open>Frames on the wire\<close>

text \<open>The frames a handler sends on stream \<open>i\<close>, as the other side's handler of that stream receives them.\<close>

definition on_stream :: "u32 \<Rightarrow> (byte \<times> bytes) list \<Rightarrow> Frame list" where
  "on_stream i fs = map (\<lambda>(t, p). \<lparr>Type = t, Stream = i, Payload = p\<rparr>) fs"

lemma on_stream_simps [simp]:
  "on_stream i [] = []" "on_stream i ((t, p) # fs) = \<lparr>Type = t, Stream = i, Payload = p\<rparr> # on_stream i fs"
  "on_stream i (a @ b) = on_stream i a @ on_stream i b"
  by (simp_all add: on_stream_def)

lemma canonical_sub:
  "canonical_header h \<Longrightarrow> header_ok h' \<Longrightarrow> fst ` set h' \<subseteq> fst ` set h \<Longrightarrow> canonical_header h'"
  unfolding canonical_header_def by blast

lemma canonical_header_ops:
  assumes "canonical_header h"
  shows "canonical_header (hdel h k)" "canonical_header (hset h k v)" "canonical_header (StripConnectionHeaders h)"
    "canonical_header (sort_header h)"
proof -
  have ok: "header_ok h" using assms by (simp add: canonical_header_def)
  show "canonical_header (StripConnectionHeaders h)"
    using ok keys_Strip by (intro canonical_sub [OF assms]) auto
  show "canonical_header (sort_header h)"
    using ok by (intro canonical_sub [OF assms]) (simp_all add: header_ok_sort_header keys_sort_header)
  show "canonical_header (hdel h k)"
    using ok by (intro canonical_sub [OF assms]) (simp, auto simp: hdel_def AList.delete_eq)
  have "fst ` set (hset h k v) = insert (canonicalHeaderKey k) (fst ` set h)"
    by (simp add: hset_def dom_map_of_conv_image_fst [symmetric] AList.update_conv' del: dom_map_of_conv_image_fst)
  then show "canonical_header (hset h k v)" using assms by (simp add: canonical_header_def)
qed

lemma hlookup_upstream:
  assumes "canonical_header h" "k \<notin> canonicalHeaderKey ` set hopByHopHeaderKeys" "\<not> IsHopByHopHeaderKey k"
    and "hvalues h ''Connection'' = []"
  shows "hlookup (StripConnectionHeaders (CopyHeaders [] h)) k = hlookup h k"
proof -
  have c: "hlookup (CopyHeaders [] h) j = (if IsHopByHopHeaderKey j then [] else hlookup h j)" for j
    using plain_copy.copied_canonical [of h j] assms(1)
    by (simp add: plain_copy.hlookup_copy canonical_header_def) (simp add: hlookup_def)
  have "hvalues (CopyHeaders [] h) ''Connection'' = []" using assms(4) by (simp add: hvalues_def c)
  then show ?thesis
    using c [of k] assms(2,3)
    by (simp add: hlookup_def [of "StripConnectionHeaders _"] map_of_StripConnectionHeaders header_tokens_def)
      (simp add: hlookup_def)
qed

lemma build_ReqStart_header:
  assumes "canonical_header (rHeader r)"
  shows "canonical_header (Header (build_ReqStart r p))" "hvalues (Header (build_ReqStart r p)) ''Connection'' = []"
proof -
  obtain h q where a: "applyQueryBearerAuth (stripForwardingIPHeaders (rHeader r)) (rRawQuery r) = (h, q)" by fastforce
  have "canonical_header (stripForwardingIPHeaders (rHeader r))"
    unfolding stripForwardingIPHeaders_def by (intro canonical_header_ops(1) assms)
  then have "canonical_header h"
    using a by (auto simp: applyQueryBearerAuth_def Let_def canonical_header_ops split: if_splits prod.splits bool.splits)
  then show "canonical_header (Header (build_ReqStart r p))" by (simp add: build_ReqStart_def a Let_def canonical_header_ops)
  have "canonicalHeaderKey ''Connection'' \<in> canonicalHeaderKey ` set hopByHopHeaderKeys" by (simp add: hopByHopHeaderKeys_def)
  then show "hvalues (Header (build_ReqStart r p)) ''Connection'' = []"
    by (simp add: build_ReqStart_def a Let_def hvalues_def hlookup_def map_of_StripConnectionHeaders)
qed

section \<open>HTTP from client to target and back\<close>

text \<open>
  The headers that cross a proxy, written out: those with a canonical key that are not hop-by-hop and that no
  element of the client's \<^verbatim>\<open>Connection\<close> header names.  And the queries with a token in them: they parse, and one of the
  three token parameters has a value that is not blank.
\<close>

definition end_to_end :: "header \<Rightarrow> string \<Rightarrow> bool" where
  "end_to_end h k \<longleftrightarrow>
     canonicalHeaderKey k = k \<and>
     k \<notin> {''Connection'', ''Proxy-Connection'', ''Keep-Alive'', ''Proxy-Authenticate'', ''Proxy-Authorization'', ''Te'', ''Trailer'',
          ''Transfer-Encoding'', ''Upgrade''} \<and>
     \<not> (\<exists>v \<in> set (hlookup h ''Connection''). \<exists>w \<in> set (splitOn CHR '','' v).
          trimSpace w \<noteq> [] \<and> canonicalHeaderKey (trimSpace w) = k)"

definition query_token :: "string \<Rightarrow> bool" where
  "query_token raw \<longleftrightarrow> snd (ParseQuery raw) \<and>
     (\<exists>k \<in> {''authorization'', ''access_token'', ''token''}. \<exists>v \<in> set (qlookup (fst (ParseQuery raw)) k). trimSpace v \<noteq> [])"

lemma hop_key_set:
  "canonicalHeaderKey ` set hopByHopHeaderKeys =
     {''Connection'', ''Proxy-Connection'', ''Keep-Alive'', ''Proxy-Authenticate'', ''Proxy-Authorization'', ''Te'', ''Trailer'',
      ''Transfer-Encoding'', ''Upgrade''}"
  "canonicalHeaderKey ''Connection'' = ''Connection''" "canonicalHeaderKey ''X-Forwarded-For'' = ''X-Forwarded-For''"
  "canonicalHeaderKey ''Forwarded'' = ''Forwarded''"
  by code_simp+

lemma end_to_end_iff:
  "end_to_end h k \<longleftrightarrow> canonicalHeaderKey k = k \<and> k \<notin> canonicalHeaderKey ` set hopByHopHeaderKeys \<and>
     k \<notin> set (header_tokens (hvalues h ''Connection''))"
  unfolding end_to_end_def header_tokens_iff hop_key_set hvalues_def by blast

lemma build_ReqStart_values:
  assumes "end_to_end (rHeader r) k" and "k \<notin> {''X-Forwarded-For'', ''Forwarded''}"
    and "k = ''Authorization'' \<Longrightarrow> \<not> query_token (rRawQuery r)"
  shows "hlookup (Header (build_ReqStart r p)) k = hlookup (rHeader r) k"
proof -
  define h0 where "h0 = stripForwardingIPHeaders (rHeader r)"
  define h1 where "h1 = fst (applyQueryBearerAuth h0 (rRawQuery r))"
  have s: "hlookup h0 j = hlookup (rHeader r) j" if "j \<notin> {''X-Forwarded-For'', ''Forwarded''}" for j
    using that by (simp add: h0_def stripForwardingIPHeaders_def hlookup_hdel hop_key_set)
  have "h1 = h0" if "\<not> query_token (rRawQuery r)"
    using that applyQuery_same [of "rRawQuery r" h0]
    by (auto simp: h1_def query_token_def no_token_def tokenKeys_def list_all_iff)
  then have a: "hlookup h1 j = hlookup h0 j" if "j = ''Authorization'' \<Longrightarrow> \<not> query_token (rRawQuery r)" for j
    using that applyQuery_header [of j h0 "rRawQuery r"] by (cases "j = ''Authorization''") (auto simp: h1_def)
  have "hvalues h1 ''Connection'' = hvalues (rHeader r) ''Connection''"
    using a [of "''Connection''"] s [of "''Connection''"] by (simp add: hvalues_def hop_key_set)
  moreover have "Header (build_ReqStart r p) = StripConnectionHeaders h1"
    by (simp add: build_ReqStart_def Let_def h0_def h1_def split: prod.split)
  ultimately have "hlookup (Header (build_ReqStart r p)) k = hlookup h1 k"
    using assms(1) by (simp add: hlookup_def map_of_StripConnectionHeaders end_to_end_iff)
  with a [OF assms(3)] s [OF assms(2)] show ?thesis by simp
qed

lemma build_ReqStart_query:
  "if trimSpace (rRawQuery r) = [] \<or> \<not> snd (ParseQuery (rRawQuery r)) then RawQuery (build_ReqStart r p) = rRawQuery r
   else snd (ParseQuery (RawQuery (build_ReqStart r p))) \<and>
     (\<forall>k. qlookup (fst (ParseQuery (RawQuery (build_ReqStart r p)))) k =
        (if k \<in> {''authorization'', ''access_token'', ''token''} then [] else qlookup (fst (ParseQuery (rRawQuery r))) k))"
proof -
  have q: "RawQuery (build_ReqStart r p) = snd (applyQueryBearerAuth (stripForwardingIPHeaders (rHeader r)) (rRawQuery r))"
    by (simp add: build_ReqStart_def Let_def split: prod.split)
  have "snd (ParseQuery (rRawQuery r)) \<Longrightarrow> ParseQuery (rRawQuery r) = (fst (ParseQuery (rRawQuery r)), True)"
    by (cases "ParseQuery (rRawQuery r)") simp
  from applyQuery_parsed [OF this] show ?thesis unfolding q by (simp add: applyQuery_same(1))
qed

text \<open>C1. An HTTP request crosses the bridge. When the gateway can open a stream and send on it, and the client's body
  ends within the limit, the frames it sends make the agent run its HTTP handler: the bytes written into the upstream
  request's body are the client's body, the upstream request has the client's method and host, and the path is the
  client's path joined to the target's.  Its query is the client's, byte for byte, if that is blank or does not parse;
  otherwise it parses to the client's parameters with their values, without the three token parameters.  And it has
  the client's values of every header that crosses a proxy, except for \<open>Content-Length\<close>, the two headers with client
  addresses, and \<open>Authorization\<close> when the query has a token.\<close>

theorem http_end_to_end_request:
  assumes "heNew e" and "\<forall>i. heSend e i" and "read_to_end (heBody e) err" and "err \<noteq> MaxBytesErr"
    and "maxBodyBytes s > 0 \<longrightarrow>
      int (length (concat (map fst (heBody e)))) \<le> maxBodyBytes s \<and> rContentLength r \<le> maxBodyBytes s"
    and "heTrailer e = []" and "ReqStart_ok (build_ReqStart r p)" and "canonical_header (rHeader r)"
    and "\<not> isTCPTarget (Some base)" and "requestMethod (rMethod r) = Some meth"
  shows "\<exists>st f fs rs query. send_request s r p e = (None, st) \<and> on_stream i (hSent st) = f # fs \<and>
    handleStream_dispatch mode (Some base) f = RunHTTP rs \<and>
    body_pump pump_new (map (\<lambda>f. PFrame f True) fs) =
      \<lparr>pWritten = concat (map fst (heBody e)), pTrailer = None, pCancelled = False, pEnded = True\<rparr> \<and>
    qMethod (build_upstream base rs meth) = meth \<and> qHost (build_upstream base rs meth) = rHost r \<and>
    qURL (build_upstream base rs meth) = (JoinURL base p)\<lparr>uRawQuery := query\<rparr> \<and>
    (if trimSpace (rRawQuery r) = [] \<or> \<not> snd (ParseQuery (rRawQuery r)) then query = rRawQuery r
     else snd (ParseQuery query) \<and>
       (\<forall>k. qlookup (fst (ParseQuery query)) k =
          (if k \<in> {''authorization'', ''access_token'', ''token''} then [] else qlookup (fst (ParseQuery (rRawQuery r))) k))) \<and>
    (\<forall>k. end_to_end (rHeader r) k \<and> k \<notin> {''Content-Length'', ''X-Forwarded-For'', ''Forwarded''} \<and>
       (k = ''Authorization'' \<longrightarrow> \<not> query_token (rRawQuery r)) \<longrightarrow>
      hlookup (qHeader (build_upstream base rs meth)) k = hlookup (rHeader r) k)"
proof -
  let ?q = "build_ReqStart r p"
  obtain st cs where st: "send_request s r p e = (None, st)"
    and sent: "hSent st = [(TReqStart, MustJSON (ReqStart_json ?q))] @ map (Pair TReqData) cs @ [(TReqEnd, [])]"
    and cs: "concat cs = concat (map fst (heBody e))"
    using http_request_forwarded [OF assms(1-5), of p] assms(6) by auto
  define rs where "rs = ?q\<lparr>Header := sort_header (Header ?q)\<rparr>"
  let ?f = "\<lparr>Type = TReqStart, Stream = i, Payload = MustJSON (ReqStart_json ?q)\<rparr>"
  let ?fs = "on_stream i (map (Pair TReqData) cs @ [(TReqEnd, [])])"
  have 1: "handleStream_dispatch mode (Some base) ?f = RunHTTP rs"
    using unmarshal_ReqStart_MustJSON [OF assms(7)] assms(9)
    by (simp add: handleStream_dispatch_def rs_def) (simp add: build_ReqStart_def Let_def split: prod.splits)
  have ev: "map (\<lambda>f. PFrame f True) ?fs = data_events cs i @ [PFrame \<lparr>Type = TReqEnd, Stream = i, Payload = []\<rparr> True]"
    by (simp add: on_stream_def data_events_def)
  have 2: "body_pump pump_new (map (\<lambda>f. PFrame f True) ?fs) =
      \<lparr>pWritten = concat (map fst (heBody e)), pTrailer = None, pCancelled = False, pEnded = True\<rparr>"
    unfolding ev body_pump_append by (simp add: body_pump_data pump_new_def pump_frame_def cs)
  have h: "canonical_header (sort_header (Header ?q))" "hvalues (sort_header (Header ?q)) ''Connection'' = []"
    using build_ReqStart_header [OF assms(8), of p] by (simp_all add: canonical_header_ops hvalues_sort_header)
  have 3: "hlookup (qHeader (build_upstream base rs meth)) k = hlookup (rHeader r) k"
    if "end_to_end (rHeader r) k" "k \<notin> {''Content-Length'', ''X-Forwarded-For'', ''Forwarded''}"
      "k = ''Authorization'' \<longrightarrow> \<not> query_token (rRawQuery r)" for k
  proof -
    have "canonicalHeaderKey ''Content-Length'' = ''Content-Length''" by code_simp
    moreover have "k \<notin> canonicalHeaderKey ` set hopByHopHeaderKeys" "\<not> IsHopByHopHeaderKey k"
      using that(1) unfolding end_to_end_iff IsHopByHopHeaderKey_def by (metis image_eqI)+
    ultimately show ?thesis
      using hlookup_upstream [OF h(1) _ _ h(2), of k] build_ReqStart_values [OF that(1), of p] that(2,3)
      by (simp add: build_upstream_def Let_def rs_def hlookup_hdel hlookup_sort_header)
  qed
  have 4: "qMethod (build_upstream base rs meth) = meth" "qHost (build_upstream base rs meth) = rHost r"
    "qURL (build_upstream base rs meth) = (JoinURL base p)\<lparr>uRawQuery := RawQuery ?q\<rparr>"
    by (simp_all add: build_upstream_def Let_def rs_def build_ReqStart_def split: prod.splits)
  have 5: "on_stream i (hSent st) = ?f # ?fs" by (simp add: sent)
  have 6: "\<forall>k. end_to_end (rHeader r) k \<and> k \<notin> {''Content-Length'', ''X-Forwarded-For'', ''Forwarded''} \<and>
       (k = ''Authorization'' \<longrightarrow> \<not> query_token (rRawQuery r)) \<longrightarrow>
      hlookup (qHeader (build_upstream base rs meth)) k = hlookup (rHeader r) k" using 3 by blast
  show ?thesis
    by (rule exI [of _ st], rule exI [of _ ?f], rule exI [of _ ?fs], rule exI [of _ rs], rule exI [of _ "RawQuery ?q"])
      (intro conjI st 1 2 4 5 build_ReqStart_query 6)
qed

definition demo_target :: URL where
  "demo_target = \<lparr>uScheme = ''http'', uOpaque = [], uUser = None, uHost = ''127.0.0.1:8080'', uPath = ''/base'', uRawPath = [],
     uForceQuery = False, uRawQuery = [], uFragment = []\<rparr>"

definition query_request :: Request where
  "query_request = demo_request\<lparr>rRawQuery := ''a=b&token=t'', rHeader := [(''Accept'', [''x'', ''y'']), (''Connection'', [''close''])]\<rparr>"

theorem http_end_to_end_request_witness:
  "\<exists>st f fs rs. send_request (demo_server 8) query_request ''/x'' (demo_env [([1, 2], None), ([3], Some EOF)] []) = (None, st) \<and>
    on_stream 1 (hSent st) = f # fs \<and>
    handleStream_dispatch ProxyModeLegacyFramed (Some demo_target) f = RunHTTP rs \<and>
    pWritten (body_pump pump_new (map (\<lambda>f. PFrame f True) fs)) = [1, 2, 3] \<and>
    uPath (qURL (build_upstream demo_target rs ''POST'')) = ''/base/x'' \<and>
    qlookup (fst (ParseQuery (uRawQuery (qURL (build_upstream demo_target rs ''POST''))))) ''a'' = [''b''] \<and>
    hlookup (qHeader (build_upstream demo_target rs ''POST'')) ''Accept'' = [''x'', ''y'']"
proof -
  let ?e = "demo_env [([1, 2], None), ([3], Some EOF)] []" and ?r = query_request
  have e: "heNew ?e" "\<forall>i. heSend ?e i" "read_to_end (heBody ?e) EOF" "heTrailer ?e = []"
    by (simp_all add: demo_env_def read_to_end_def)
  have l: "maxBodyBytes (demo_server 8) > 0 \<longrightarrow>
      int (length (concat (map fst (heBody ?e)))) \<le> maxBodyBytes (demo_server 8) \<and> rContentLength ?r \<le> maxBodyBytes (demo_server 8)"
    by (simp add: demo_env_def demo_server_def demo_request_def query_request_def)
  have r: "ReqStart_ok (build_ReqStart ?r ''/x'')" "canonical_header (rHeader ?r)"
    "\<not> isTCPTarget (Some demo_target)" "requestMethod (rMethod ?r) = Some ''POST''"
    "uPath (JoinURL demo_target ''/x'') = ''/base/x''" "trimSpace (rRawQuery ?r) \<noteq> []"
    "ParseQuery (rRawQuery ?r) = ([(''a'', [''b'']), (''token'', [''t''])], True)" by code_simp+
  have k: "end_to_end (rHeader ?r) ''Accept''" "hlookup (rHeader ?r) ''Accept'' = [''x'', ''y'']" by code_simp+
  from http_end_to_end_request [OF e(1,2,3) _ l e(4) r(1-4), of 1 ProxyModeLegacyFramed]
  obtain st f fs rs query where "send_request (demo_server 8) ?r ''/x'' ?e = (None, st)" "on_stream 1 (hSent st) = f # fs"
    "handleStream_dispatch ProxyModeLegacyFramed (Some demo_target) f = RunHTTP rs"
    "pWritten (body_pump pump_new (map (\<lambda>f. PFrame f True) fs)) = [1, 2, 3]"
    "uPath (qURL (build_upstream demo_target rs ''POST'')) = ''/base/x''"
    "qlookup (fst (ParseQuery (uRawQuery (qURL (build_upstream demo_target rs ''POST''))))) ''a'' = [''b'']"
    "hlookup (qHeader (build_upstream demo_target rs ''POST'')) ''Accept'' = [''x'', ''y'']"
    using r(5-) k by (auto simp: demo_env_def qlookup_def)
  then show ?thesis by (intro exI conjI)
qed

text \<open>C2. The target's response crosses the bridge unchanged. When the request was sent and the agent's frames reach the
  gateway, the client is given the target's status code, its body bytes in order, and every header that is neither
  hop-by-hop nor named by \<open>Connection\<close> nor \<open>Trailer\<close> with the values the target sent; nothing more is sent to the agent.\<close>

theorem http_end_to_end_response:
  assumes "send_request s r p e = (None, st)"
    and "requestMethod (Method rs) = Some meth" and "\<forall>i. oks i"
    and "answer (build_upstream base rs meth) = ([], Inr resp)" and "read_to_end (pReads resp) err" and "pTrailers resp = []"
    and "heRecv e = map Inr (on_stream i (snd (agent_handleHTTP base rs answer oks)))" and "\<forall>i. heWrite e i"
    and "ResStart_ok (response_start resp)" and "200 \<le> pStatus resp" and "pStatus resp \<le> 999" and "canonical_header (pHeader resp)"
  shows "\<exists>st' h es. handleClientHTTP s r p e = (Returned, st') \<and> wout (hW st') = WStatus (pStatus resp) h # es \<and>
    body_of es = concat (map fst (pReads resp)) \<and> hSent st' = hSent st \<and>
    (\<forall>k. passed (pHeader resp) k \<and> k \<noteq> ''Trailer'' \<longrightarrow> hlookup h k = hlookup (pHeader resp) k)"
proof -
  let ?rs = "response_start resp" and ?cs = "chunks (pReads resp)"
  let ?fs = "on_stream i (map (Pair TResData) ?cs)"
  have recv: "heRecv e = Inr (start_frame i ?rs) # map Inr ?fs @ [Inr \<lparr>Type = TResEnd, Stream = i, Payload = []\<rparr>]"
    using assms(7) agent_handleHTTP_response [of rs meth oks answer base "[]" resp err] assms(2-6) by (simp add: start_frame_def)
  have data: "\<forall>f \<in> set ?fs. Type f = TResData" "concat (map Payload ?fs) = concat (map fst (pReads resp))"
    by (auto simp: on_stream_def concat_chunks [symmetric] comp_def)
  have hdr: "canonical_header (ResHeader ?rs)" using assms(12) by (simp add: response_start_def canonical_header_ops)
  from http_response_relayed [OF assms(1) recv assms(9) _ _ _ hdr data(1) assms(8)]
  obtain st' h es where "handleClientHTTP s r p e = (Returned, st')" "wout (hW st') = WStatus (pStatus resp) h # es"
    "body_of es = concat (map fst (pReads resp))" "hSent st' = hSent st"
    and k: "\<forall>k. passed (ResHeader ?rs) k \<and> k \<noteq> ''Trailer'' \<longrightarrow> hlookup h k = hlookup (ResHeader ?rs) k"
    using assms(10,11) data(2) by (auto simp: response_start_def)
  moreover have "passed (ResHeader ?rs) k \<and> hlookup (ResHeader ?rs) k = hlookup (pHeader resp) k" if "passed (pHeader resp) k" for k
  proof -
    have "canonicalHeaderKey ''Connection'' \<in> canonicalHeaderKey ` set hopByHopHeaderKeys" by (simp add: hopByHopHeaderKeys_def)
    then have "hvalues (StripConnectionHeaders (pHeader resp)) ''Connection'' = []"
      by (simp add: hvalues_def hlookup_def map_of_StripConnectionHeaders)
    then show ?thesis
      using that by (auto simp: response_start_def passed_def header_tokens_def hlookup_def map_of_StripConnectionHeaders)
  qed
  ultimately show ?thesis by (intro exI [of _ st'] exI [of _ h] exI [of _ es]) auto
qed

theorem http_end_to_end_response_witness:
  "\<exists>resp rs e st' h es. heRecv e = map Inr (on_stream 1 (snd (agent_handleHTTP demo_target rs (\<lambda>_. ([], Inr resp)) (\<lambda>_. True)))) \<and>
    handleClientHTTP (demo_server 8) demo_request ''/x'' e = (Returned, st') \<and> wout (hW st') = WStatus 404 h # es \<and> body_of es = [7, 8, 9]"
proof -
  define resp where "resp = \<lparr>pStatus = 404, pHeader = [(''X'', [''y''])], pTrailerKeys = [],
    pReads = [([7, 8], None), ([9], Some EOF)], pTrailers = []\<rparr>"
  define rs where "rs = build_ReqStart demo_request ''/x''"
  define e where "e = demo_env [([], Some EOF)] (map Inr (on_stream 1 (snd (agent_handleHTTP demo_target rs (\<lambda>_. ([], Inr resp)) (\<lambda>_. True)))))"
  have "\<exists>st. send_request (demo_server 8) demo_request ''/x'' e = (None, st)"
    by (simp add: send_request_def demo_server_def demo_request_def demo_env_def e_def hstate_new_def h_send_def)
  then obtain st where st: "send_request (demo_server 8) demo_request ''/x'' e = (None, st)" ..
  have rv: "heRecv e = map Inr (on_stream 1 (snd (agent_handleHTTP demo_target rs (\<lambda>_. ([], Inr resp)) (\<lambda>_. True))))"
    "\<forall>i. heWrite e i" by (simp_all add: e_def demo_env_def)
  have rq: "requestMethod (Method rs) = Some ''POST''" unfolding rs_def by code_simp
  have rp: "read_to_end (pReads resp) EOF" "pTrailers resp = []" "200 \<le> pStatus resp" "pStatus resp \<le> 999"
    by (simp_all add: resp_def read_to_end_def)
  have ok: "ResStart_ok (response_start resp)" "canonical_header (pHeader resp)" unfolding resp_def by code_simp+
  from http_end_to_end_response [OF st rq, of "\<lambda>_. True" "\<lambda>_. ([], Inr resp)" demo_target resp EOF 1] rv rp ok
  obtain st' h es where *: "handleClientHTTP (demo_server 8) demo_request ''/x'' e = (Returned, st')"
    "wout (hW st') = WStatus 404 h # es" "body_of es = [7, 8, 9]" by (auto simp: resp_def)
  show ?thesis by (intro exI conjI) (rule rv(1), rule *(1), rule *(2), rule *(3))
qed

section \<open>WebSocket messages from client to target and back\<close>

text \<open>The gateway's frames that reach a relay of the agent, and the agent's that reach one of the gateway.\<close>

definition frames_to_agent :: "aevent list \<Rightarrow> (byte \<times> bytes) list" where
  "frames_to_agent evs = concat (map (\<lambda>ev. case ev of AvFrame f _ _ \<Rightarrow> [(Type f, Payload f)] | _ \<Rightarrow> []) evs)"

definition frames_to_gateway :: "wsevent list \<Rightarrow> (byte \<times> bytes) list" where
  "frames_to_gateway evs = concat (map (\<lambda>ev. case ev of EvAgentFrame f _ _ \<Rightarrow> [(Type f, Payload f)] | _ \<Rightarrow> []) evs)"

definition client_sent :: "wsevent list \<Rightarrow> (int \<times> bytes) list" where
  "client_sent evs = concat (map (\<lambda>ev. case ev of EvClientMsg mt d _ \<Rightarrow> if data_message mt then [(mt, d)] else [] | _ \<Rightarrow> []) evs)"

definition target_sent :: "aevent list \<Rightarrow> (int \<times> bytes) list" where
  "target_sent evs = concat (map (\<lambda>ev. case ev of AvUpMsg mt d _ \<Rightarrow> if data_message mt then [(mt, d)] else [] | _ \<Rightarrow> []) evs)"

definition unpack :: "bytes \<Rightarrow> int \<times> bytes" where
  "unpack p = (uint (hd p), tl p)"

lemma unpack_payload: "data_message mt \<Longrightarrow> unpack (ws_payload mt d) = (mt, d)"
  by (auto simp: unpack_def ws_payload_def data_message_def TextMessage_def BinaryMessage_def)

lemma client_payload_nonempty: "[] \<notin> set (client_payload ev)" "[] \<notin> set (up_payload ev')"
  by (cases ev; simp add: ws_payload_def) (cases ev'; simp add: ws_payload_def)

lemma payload_nonempty: "p \<in> set (client_payloads evs) \<Longrightarrow> p \<noteq> []"
  by (auto simp: client_payloads_def client_payload_nonempty)

lemma client_sent_payloads: "client_sent evs = map unpack (client_payloads evs)"
  unfolding client_sent_def client_payloads_def map_concat map_map comp_def
  by (intro arg_cong [of _ _ concat] map_cong refl) (auto simp: unpack_payload split: wsevent.splits)

lemma frame_message_payload: "data_message mt \<Longrightarrow> frame_message coerce (ws_payload mt d) = (mt, d)"
  by (auto simp: frame_message_def ws_payload_def data_message_def TextMessage_def BinaryMessage_def)

lemma target_sent_payloads: "target_sent evs = map (frame_message coerce) (concat (map up_payload evs))"
  unfolding target_sent_def map_concat map_map comp_def
  by (intro arg_cong [of _ _ concat] map_cong refl) (auto simp: frame_message_payload split: aevent.splits)

lemma gw_messages_frames:
  "concat (map gw_message evs) = map unpack (filter (\<lambda>p. p \<noteq> []) (sent_of TWsC2A (frames_to_agent evs)))"
  by (induction evs) (auto simp: frames_to_agent_def sent_of_def unpack_def split: aevent.splits)

lemma agent_messages_frames:
  "agent_messages coerce evs = map (frame_message coerce) (filter (\<lambda>p. p \<noteq> []) (sent_of TWsA2C (frames_to_gateway evs)))"
  by (induction evs) (auto simp: agent_messages_def frames_to_gateway_def sent_of_def split: wsevent.splits)

lemma prefix_sent_of: "prefix a b \<Longrightarrow> prefix (sent_of t a) (sent_of t b)"
  by (auto simp: prefix_def)

lemma prefix_filter: "prefix a b \<Longrightarrow> prefix (filter P a) (filter P b)"
  by (auto simp: prefix_def)

lemma prefix_map: "prefix a b \<Longrightarrow> prefix (map f a) (map f b)"
  by (auto simp: prefix_def)

lemma filter_nonempty_prefix: "prefix a b \<Longrightarrow> \<forall>p \<in> set b. p \<noteq> [] \<Longrightarrow> filter (\<lambda>p. p \<noteq> []) a = a"
  by (auto simp: prefix_def filter_id_conv)

text \<open>C3. Framed WebSocket relaying between a client and a WebSocket target, the two relays composed. Whatever the
  interleaving of the goroutines on both sides, if the agent has received a prefix of the frames the gateway sent, the
  target has been sent a prefix of the client's messages: types, contents and order are kept, nothing is invented. The
  same holds from the target to the client.\<close>

theorem ws_messages_end_to_end:
  fixes gevs aevs coerce pings
  defines "g \<equiv> framed_run coerce pings gevs" and "a \<equiv> agent_framed_run aevs"
  shows "(prefix (frames_to_agent aevs) (rSent g) \<longrightarrow> prefix (messages_of (wUp a)) (client_sent gevs)) \<and>
         (prefix (frames_to_gateway gevs) (wSent a) \<longrightarrow> prefix (messages_of (rCli g)) (target_sent aevs))"
proof (intro conjI impI)
  assume p: "prefix (frames_to_agent aevs) (rSent g)"
  have 1: "prefix (sent_of TWsC2A (rSent g)) (client_payloads gevs)" unfolding g_def by (rule framed_run_relays)
  have "prefix (sent_of TWsC2A (frames_to_agent aevs)) (client_payloads gevs)"
    using prefix_sent_of [OF p] 1 by (rule prefix_order.trans)
  then have "prefix (concat (map gw_message aevs)) (client_sent gevs)"
    using filter_nonempty_prefix [of _ "client_payloads gevs"] payload_nonempty [of _ gevs]
    by (simp add: gw_messages_frames client_sent_payloads prefix_map)
  with agent_framed_relays(3) [of aevs] show "prefix (messages_of (wUp a)) (client_sent gevs)"
    unfolding a_def by (rule prefix_order.trans)
next
  assume p: "prefix (frames_to_gateway gevs) (wSent a)"
  have 1: "prefix (sent_of TWsA2C (wSent a)) (concat (map up_payload aevs))" unfolding a_def by (rule agent_framed_relays)
  have ne: "\<forall>q \<in> set (concat (map up_payload aevs)). q \<noteq> []"
    by (auto simp: client_payload_nonempty)
  have "prefix (sent_of TWsA2C (frames_to_gateway gevs)) (concat (map up_payload aevs))"
    using prefix_sent_of [OF p] 1 by (rule prefix_order.trans)
  then have "prefix (agent_messages coerce gevs) (target_sent aevs)"
    using filter_nonempty_prefix [OF _ ne]
    by (simp add: agent_messages_frames target_sent_payloads [of _ coerce] prefix_map)
  with framed_run_relays(3) [of coerce pings gevs] show "prefix (messages_of (rCli g)) (target_sent aevs)"
    unfolding g_def by (rule prefix_order.trans)
qed

theorem ws_messages_end_to_end_witness:
  "prefix (messages_of (wUp (agent_framed_run [AvFrame \<lparr>Type = TWsC2A, Stream = 1, Payload = [2, 7]\<rparr> None True])))
     (client_sent [EvClientMsg 2 [7] True, EvClientMsg 1 [8] True])"
proof -
  have "prefix (frames_to_agent [AvFrame \<lparr>Type = TWsC2A, Stream = 1, Payload = [2, 7]\<rparr> None True])
      (rSent (framed_run False False [EvClientMsg 2 [7] True, EvClientMsg 1 [8] True]))" by code_simp
  with ws_messages_end_to_end [of "[AvFrame \<lparr>Type = TWsC2A, Stream = 1, Payload = [2, 7]\<rparr> None True]" False False
      "[EvClientMsg 2 [7] True, EvClientMsg 1 [8] True]"] show ?thesis by blast
qed

text \<open>The same for a TCP target and for the raw relays: what arrives are bytes.\<close>

definition tcp_frames :: "tcpevent list \<Rightarrow> (byte \<times> bytes) list" where
  "tcp_frames evs = concat (map (\<lambda>ev. case ev of TvFrame f _ _ \<Rightarrow> [(Type f, Payload f)] | _ \<Rightarrow> []) evs)"

definition up_frames :: "upevent list \<Rightarrow> (byte \<times> bytes) list" where
  "up_frames evs = concat (map (\<lambda>ev. case ev of UvFrame f _ _ \<Rightarrow> [(Type f, Payload f)] | _ \<Rightarrow> []) evs)"

definition raw_frames :: "rawevent list \<Rightarrow> (byte \<times> bytes) list" where
  "raw_frames evs = concat (map (\<lambda>ev. case ev of RvFrame f _ _ \<Rightarrow> [(Type f, Payload f)] | _ \<Rightarrow> []) evs)"

lemma tcp_output_frames: "concat (map tcp_output evs) = stripped (sent_of TWsC2A (tcp_frames evs))"
  by (induction evs) (auto simp: tcp_frames_def sent_of_def stripped_def split: tcpevent.splits)

lemma up_output_frames: "concat (map up_output evs) = concat (sent_of TWsC2A (up_frames evs))"
  by (induction evs) (auto simp: up_frames_def sent_of_def split: upevent.splits)

lemma raw_agent_frames: "raw_agent evs = concat (sent_of TWsA2C (raw_frames evs))"
  by (induction evs) (auto simp: raw_agent_def raw_frames_def sent_of_def split: rawevent.splits)

lemma prefix_stripped: "prefix a b \<Longrightarrow> prefix (stripped a) (stripped b)"
  by (auto simp: prefix_def)

lemma prefix_concat: "prefix a b \<Longrightarrow> prefix (concat a) (concat b)"
  by (auto simp: prefix_def)

lemma stripped_client: "stripped (client_payloads evs) = concat (map snd (client_sent evs))"
  unfolding client_sent_payloads stripped_def by (simp add: unpack_def comp_def)

lemma stripped_messages: "concat (map snd (agent_messages coerce evs)) = stripped (sent_of TWsA2C (frames_to_gateway evs))"
proof -
  have "snd (frame_message coerce p) = tl p" for p by (simp add: frame_message_def Let_def)
  then have "concat (map snd (map (frame_message coerce) (filter (\<lambda>p. p \<noteq> []) ps))) = stripped ps" for ps
    by (induction ps) (auto simp: stripped_def)
  then show ?thesis by (simp only: agent_messages_frames)
qed

text \<open>C39. Framed relaying between a WebSocket client and a TCP target. The target is written a prefix of the concatenated
  contents of the client's messages, and the contents of the messages the client is sent form a prefix of what was read
  from the target, under any interleaving on both sides.\<close>

theorem tcp_bytes_end_to_end:
  fixes gevs tevs coerce pings
  defines "g \<equiv> framed_run coerce pings gevs" and "a \<equiv> tcp_run tevs"
  shows "(prefix (tcp_frames tevs) (rSent g) \<longrightarrow> prefix (raw_bytes (wUp a)) (concat (map snd (client_sent gevs)))) \<and>
         (prefix (frames_to_gateway gevs) (wSent a) \<longrightarrow>
            prefix (concat (map snd (messages_of (rCli g)))) (concat (map tcp_input tevs)))"
proof (intro conjI impI)
  assume p: "prefix (tcp_frames tevs) (rSent g)"
  have "prefix (sent_of TWsC2A (tcp_frames tevs)) (client_payloads gevs)"
    using prefix_sent_of [OF p] framed_run_relays(1) [of coerce pings gevs] unfolding g_def by (rule prefix_order.trans)
  then have "prefix (concat (map tcp_output tevs)) (concat (map snd (client_sent gevs)))"
    unfolding tcp_output_frames stripped_client [symmetric] by (rule prefix_stripped)
  with tcp_relays(3) [of tevs] show "prefix (raw_bytes (wUp a)) (concat (map snd (client_sent gevs)))"
    unfolding a_def by (rule prefix_order.trans)
next
  assume p: "prefix (frames_to_gateway gevs) (wSent a)"
  have "prefix (concat (map snd (messages_of (rCli g)))) (concat (map snd (agent_messages coerce gevs)))"
    unfolding g_def by (intro prefix_concat prefix_map framed_run_relays(3))
  also have "prefix \<dots> (stripped (sent_of TWsA2C (wSent a)))"
    unfolding stripped_messages by (intro prefix_stripped prefix_sent_of p)
  also have "prefix \<dots> (concat (map tcp_input tevs))" unfolding a_def by (rule tcp_relays(1))
  finally show "prefix (concat (map snd (messages_of (rCli g)))) (concat (map tcp_input tevs))" .
qed

theorem tcp_bytes_end_to_end_witness:
  "prefix (raw_bytes (wUp (tcp_run [TvFrame \<lparr>Type = TWsC2A, Stream = 1, Payload = [2, 7]\<rparr> True True])))
     (concat (map snd (client_sent [EvClientMsg 2 [7] True, EvClientMsg 2 [8] True])))"
proof -
  have "prefix (tcp_frames [TvFrame \<lparr>Type = TWsC2A, Stream = 1, Payload = [2, 7]\<rparr> True True])
      (rSent (framed_run True False [EvClientMsg 2 [7] True, EvClientMsg 2 [8] True]))" by code_simp
  with tcp_bytes_end_to_end [of "[TvFrame \<lparr>Type = TWsC2A, Stream = 1, Payload = [2, 7]\<rparr> True True]" True False
      "[EvClientMsg 2 [7] True, EvClientMsg 2 [8] True]"] show ?thesis by blast
qed

text \<open>C16. Raw relaying, the two hijacked connections composed. The bytes written to the upstream connection are a prefix of
  those the client sent after its upgrade (buffered ones first), and the bytes written to the client are a prefix of those
  the target sent, under any interleaving; the two order hypotheses say that a reader goroutine forwards its buffered
  bytes before it reads from the socket.\<close>

theorem raw_bytes_end_to_end:
  fixes gevs uevs
  defines "g \<equiv> raw_run gevs" and "a \<equiv> agent_raw_run uevs"
  assumes "reader_order True gevs" and "up_order True uevs"
  shows "(prefix (up_frames uevs) (rSent g) \<longrightarrow> prefix (raw_bytes (wUp a)) (raw_input gevs)) \<and>
         (prefix (raw_frames gevs) (wSent a) \<longrightarrow> prefix (raw_bytes (rCli g)) (concat (map up_input uevs)))"
proof (intro conjI impI)
  assume p: "prefix (up_frames uevs) (rSent g)"
  have "prefix (raw_bytes (wUp a)) (concat (sent_of TWsC2A (up_frames uevs)))"
    unfolding a_def up_output_frames [symmetric] by (rule agent_raw_relays(3) [OF assms(4)])
  also have "prefix \<dots> (concat (sent_of TWsC2A (rSent g)))" by (intro prefix_concat prefix_sent_of p)
  also have "prefix \<dots> (raw_input gevs)" unfolding g_def by (rule raw_run_relays(1) [OF assms(3)])
  finally show "prefix (raw_bytes (wUp a)) (raw_input gevs)" .
next
  assume p: "prefix (raw_frames gevs) (wSent a)"
  have "prefix (raw_bytes (rCli g)) (concat (sent_of TWsA2C (raw_frames gevs)))"
    unfolding g_def raw_agent_frames [symmetric] by (rule raw_run_relays(3) [OF assms(3)])
  also have "prefix \<dots> (concat (sent_of TWsA2C (wSent a)))" by (intro prefix_concat prefix_sent_of p)
  also have "prefix \<dots> (concat (map up_input uevs))" unfolding a_def by (rule agent_raw_relays(1) [OF assms(4)])
  finally show "prefix (raw_bytes (rCli g)) (concat (map up_input uevs))" .
qed

theorem raw_bytes_end_to_end_witness:
  "prefix (raw_bytes (wUp (agent_raw_run [UvFrame \<lparr>Type = TWsC2A, Stream = 1, Payload = [129, 0]\<rparr> True True])))
     (raw_input [RvBuffered (Some [129, 0]) True True, RvRead [5] None True True])"
proof -
  have "prefix (up_frames [UvFrame \<lparr>Type = TWsC2A, Stream = 1, Payload = [129, 0]\<rparr> True True])
      (rSent (raw_run [RvBuffered (Some [129, 0]) True True, RvRead [5] None True True]))"
    "reader_order True [RvBuffered (Some [129, 0]) True True, RvRead [5] None True True]"
    "up_order True [UvFrame \<lparr>Type = TWsC2A, Stream = 1, Payload = [129, 0]\<rparr> True True]" by code_simp+
  with raw_bytes_end_to_end [of "[RvBuffered (Some [129, 0]) True True, RvRead [5] None True True]"
      "[UvFrame \<lparr>Type = TWsC2A, Stream = 1, Payload = [129, 0]\<rparr> True True]"] show ?thesis by blast
qed

section \<open>Agreement on modes\<close>

lemma NormalizeProxyMode_fixes:
  "m \<in> {ProxyModeLegacyFramed, ProxyModeTransparentTunnel} \<Longrightarrow> trimSpace m = m \<and> m \<noteq> [] \<and> NormalizeProxyMode m = Inr m"
  by (elim insertE emptyE; simp only:) code_simp+

lemma resolveProxyMode_range: "fst (resolveProxyMode s u q) \<in> {ProxyModeLegacyFramed, ProxyModeTransparentTunnel}"
  by (simp add: resolveProxyMode_def)

text \<open>The relay mode the gateway asks for, by the handler that serves a connection.\<close>

definition gateway_accepts :: "agentConn \<Rightarrow> string \<Rightarrow> bool" where
  "gateway_accepts c =
     (if proxyModeEffective c = ProxyModeTransparentTunnel \<and> targetKind c = TargetKindWebSocket
      then isRawRelayMode else isFramedRelayMode)"

text \<open>The handler the agent runs for a WebSocket request.\<close>

definition agent_handler :: "Agent \<Rightarrow> string \<Rightarrow> ws_handler" where
  "agent_handler a mode =
     (if mode = ProxyModeTransparentTunnel then handleWebSocketTransparent (registerTargetKind a) (targetBase a)
      else handleWebSocket_target (targetBase a))"

lemma relay_mode_accepted:
  "isFramedRelayMode WsRelayModeFramed" "isRawRelayMode WsRelayModeRaw"
  by code_simp+

lemma open_ok_mode: "open_answer h base rs wsdial dial exchange = (TWsOpenOK, payload) \<Longrightarrow>
    \<exists>k. payload = MustJSON (WsOpenOK_json k) \<and> RelayMode k = (if h = ToRawWebSocket then WsRelayModeRaw else WsRelayModeFramed)"
  by (cases h)
    (auto simp: open_answer_def handleWebSocketToTCP_open_def handleWebSocketToTCPTransparent_open_def open_websocket_def
      handleWebSocketToWSTransparent_open_def open_ok_def open_err_def Let_def frame_types split: sum.splits if_splits prod.splits)

lemma raw_handler_kind: "shouldUseRawTransparentWS k \<Longrightarrow> k \<in> {TargetKindUnknown, TargetKindHTTP, TargetKindTCP, TargetKindWebSocket} \<Longrightarrow> k = TargetKindWebSocket"
  by (elim insertE emptyE; simp only:) (code_simp)+

lemma handleRegister_online:
  assumes "handleRegister s hdr q up now = (RegOnline resp r, s')"
  shows "proxyModeEffective (conns s' ! r) = hget resp HeaderProxyMode"
    "hget resp HeaderProxyMode \<in> {ProxyModeLegacyFramed, ProxyModeTransparentTunnel}"
    "targetKind (conns s' ! r) = normalizeRegisterTargetKind (qget (fst (ParseQuery q)) ''target_kind'')"
    "proxyModeRequested (conns s' ! r) = normalizeRegisterProxyMode (qget (fst (ParseQuery q)) ''proxy_mode'')"
proof -
  let ?req = "normalizeRegisterProxyMode (qget (fst (ParseQuery q)) ''proxy_mode'')"
  obtain ef rs where res: "resolveProxyMode s (qget (fst (ParseQuery q)) ''uuid'') ?req = (ef, rs)" by fastforce
  have "canonicalHeaderKey HeaderProxyMode \<noteq> canonicalHeaderKey HeaderProxyModeReason" by code_simp
  then have h: "hget (registerRespHeader ef rs) HeaderProxyMode = ef"
    by (simp add: registerRespHeader_def hget_def hvalues_def hlookup_hset)
  then show "proxyModeEffective (conns s' ! r) = hget resp HeaderProxyMode"
    "targetKind (conns s' ! r) = normalizeRegisterTargetKind (qget (fst (ParseQuery q)) ''target_kind'')"
    "proxyModeRequested (conns s' ! r) = ?req"
    using assms by (auto simp: handleRegister_def Let_def res newAgentConn_def markActive_def split: if_splits)
  show "hget resp HeaderProxyMode \<in> {ProxyModeLegacyFramed, ProxyModeTransparentTunnel}"
    using assms h resolveProxyMode_range [of s "qget (fst (ParseQuery q)) ''uuid''" ?req]
    by (auto simp: handleRegister_def Let_def res split: if_splits)
qed

lemma modes_agree:
  fixes s' r resp regURL target env dialAddr xToken bearer
  defines "c \<equiv> conns s' ! r" and "a \<equiv> New env regURL dialAddr xToken bearer target"
    and "mode \<equiv> negotiatedProxyModeFromHandshake (Some resp) ProxyModeLegacyFramed"
  assumes "handleRegister s hdr (uRawQuery regURL) up now = (RegOnline resp r, s')"
    and "targetKind c = TargetKindWebSocket \<longrightarrow> \<not> isTCPTarget (Some target)"
  shows "mode = proxyModeEffective c \<and> registerTargetKind a = targetKind c \<and> registerProxyMode a = proxyModeRequested c \<and>
    (\<forall>rs wsdial dial exchange payload.
       open_answer (agent_handler a mode) target rs wsdial dial exchange = (TWsOpenOK, payload) \<longrightarrow>
       (\<exists>k. payload = MustJSON (WsOpenOK_json k) \<and> gateway_accepts c (RelayMode k)))"
proof (intro conjI allI impI)
  note on = handleRegister_online [OF assms(4)]
  show mode: "mode = proxyModeEffective c"
    using NormalizeProxyMode_fixes [OF on(2)] by (simp add: mode_def c_def on(1) negotiatedProxyModeFromHandshake_def Let_def)
  show kind: "registerTargetKind a = targetKind c"
    by (simp add: a_def New_def c_def on(3) targetKindFromRegisterURL_def normalizeRegisterTargetKind_def)
  show "registerProxyMode a = proxyModeRequested c"
    by (simp add: a_def New_def c_def on(4) proxyModeFromRegisterURL_def normalizeRegisterProxyMode_def)
  fix rs wsdial dial exchange payload
  assume "open_answer (agent_handler a mode) target rs wsdial dial exchange = (TWsOpenOK, payload)"
  from open_ok_mode [OF this] obtain k where k: "payload = MustJSON (WsOpenOK_json k)"
    "RelayMode k = (if agent_handler a mode = ToRawWebSocket then WsRelayModeRaw else WsRelayModeFramed)" by blast
  have "TargetKindWebSocket \<in> {k. shouldUseRawTransparentWS k}" by code_simp
  moreover have "targetKind c \<in> {TargetKindUnknown, TargetKindHTTP, TargetKindTCP, TargetKindWebSocket}"
    unfolding c_def on(3) by (auto simp: normalizeRegisterTargetKind_def NormalizeTargetKind_def Let_def split: sum.splits if_splits)
  moreover have "open_answer Unsupported target rs wsdial dial exchange \<noteq> (TWsOpenOK, payload)"
    by (simp add: open_answer_def open_err_def frame_types)
  ultimately have "agent_handler a mode = ToRawWebSocket \<longleftrightarrow>
      proxyModeEffective c = ProxyModeTransparentTunnel \<and> targetKind c = TargetKindWebSocket"
    using assms(5) raw_handler_kind [of "targetKind c"] kind \<open>open_answer (agent_handler a mode) target rs wsdial dial exchange = _\<close>
    unfolding mode [symmetric]
    by (auto simp: agent_handler_def handleWebSocketTransparent_def handleWebSocket_target_def a_def New_def
        split: if_splits)
  then show "\<exists>k. payload = MustJSON (WsOpenOK_json k) \<and> gateway_accepts c (RelayMode k)"
    using k relay_mode_accepted by (intro exI [of _ k]) (simp add: gateway_accepts_def)
qed

section \<open>From the command line to the registry\<close>

lemma register_token: "hget (register_header a) ''X-Token'' = registerXToken a"
proof -
  have "canonicalHeaderKey ''X-Token'' \<noteq> canonicalHeaderKey ''Authorization''" by code_simp
  then show ?thesis by (auto simp: register_header_def Let_def hget_def hvalues_def hlookup_hset hlookup_def [of "[]"])
qed

lemma handleRegister_admitted:
  assumes "handleRegister s hdr q up now = (RegOnline resp r, s')"
  shows "uuid (conns s' ! r) = qget (fst (ParseQuery q)) ''uuid''" "getAgent s' (uuid (conns s' ! r)) = Some r"
    "agentTokenSet s = [] \<or> hget hdr ''X-Token'' \<in> set (agentTokenSet s)"
  using assms
  by (auto simp: handleRegister_def Let_def newAgentConn_def markActive_def getAgent_def AList.update_conv' split: if_splits prod.splits)

lemma NormalizeTargetKind_fixes:
  "k \<in> {TargetKindHTTP, TargetKindTCP, TargetKindWebSocket} \<Longrightarrow> NormalizeTargetKind k = Inr k \<and> k \<noteq> TargetKindUnknown"
  by (elim insertE emptyE; simp only:) code_simp+

lemma NormalizeProxyMode_range: "NormalizeProxyMode x = Inr m \<Longrightarrow> m \<in> {ProxyModeLegacyFramed, ProxyModeTransparentTunnel}"
  by (auto simp: NormalizeProxyMode_def Let_def split: if_splits)

lemma forward_kind:
  assumes "ParseRemoteTargetURL raw field = Inr u"
  shows "TargetKindFromTargetURL (Some u) \<in> {TargetKindHTTP, TargetKindTCP, TargetKindWebSocket}"
    "TargetKindFromTargetURL (Some u) = TargetKindWebSocket \<Longrightarrow> \<not> isTCPTarget (Some u)"
proof -
  note t = ParseRemoteTargetURL_ok [OF assms]
  have ne: "TargetKindTCP \<noteq> TargetKindWebSocket" "TargetKindHTTP \<noteq> TargetKindWebSocket" by code_simp+
  show "TargetKindFromTargetURL (Some u) \<in> {TargetKindHTTP, TargetKindTCP, TargetKindWebSocket}"
    using t(2) by (auto simp: TargetKind_parsed [OF t(1)])
  show "TargetKindFromTargetURL (Some u) = TargetKindWebSocket \<Longrightarrow> \<not> isTCPTarget (Some u)"
    using ne by (auto simp: TargetKind_parsed [OF t(1)] isTCPTarget_parsed [OF t(1)])
qed

lemma forward_handler:
  assumes "ParseRemoteTargetURL raw field = Inr (targetBase a)" and "ValidateProxyModeTarget req (Some (targetBase a)) = None"
    and "mode = ProxyModeTransparentTunnel \<Longrightarrow> req = ProxyModeTransparentTunnel"
  shows "agent_handler a mode \<noteq> Unsupported"
proof -
  note t = ParseRemoteTargetURL_ok [OF assms(1)]
  have "isTCPTarget (Some (targetBase a)) \<or> isWebSocketTarget (Some (targetBase a))" if "mode = ProxyModeTransparentTunnel"
    using assms(2,3) that
    by (auto simp: ValidateProxyModeTarget_def schemeOf_parsed [OF t(1)] isTCPTarget_parsed [OF t(1)]
        isWebSocketTarget_parsed [OF t(1)] split: if_splits)
  then show ?thesis
    by (auto simp: agent_handler_def handleWebSocketTransparent_def handleWebSocket_target_def split: if_splits)
qed

lemma effective_requested:
  assumes "handleRegister s hdr q up now = (RegOnline resp r, s')"
  shows "proxyModeEffective (conns s' ! r) = ProxyModeTransparentTunnel \<Longrightarrow> proxyModeRequested (conns s' ! r) = ProxyModeTransparentTunnel"
proof -
  have "ProxyModeLegacyFramed \<noteq> ProxyModeTransparentTunnel" by code_simp
  then show "proxyModeEffective (conns s' ! r) = ProxyModeTransparentTunnel \<Longrightarrow> proxyModeRequested (conns s' ! r) = ProxyModeTransparentTunnel"
    using assms by (auto simp: handleRegister_def Let_def newAgentConn_def markActive_def resolveProxyMode_def split: if_splits)
qed

text \<open>C4. From the command line to the gateway's registry.  When the command accepts its arguments as a remote forward and
  the agent it starts registers with a gateway that admits it, then the gateway keeps the connection under the uuid
  of the destination argument, the gateway has the X-Token of the flag among its tokens unless it has none, the mode
  the agent reads from the handshake is the mode the gateway keeps, both sides know the kind of the target the
  user named, the agent has a handler for WebSockets to that target, and every relay mode with which the agent
  accepts a WebSocket is one the gateway's handler for the connection accepts: an upgrade never fails on a
  mismatch of modes.  The bound on the argument keeps the register URL within the library's limit on query
  parameters.\<close>

theorem cli_registration:
  fixes env f resp r s'
  defines "a \<equiv> forward_agent env f" and "c \<equiv> conns s' ! r"
    and "mode \<equiv> negotiatedProxyModeFromHandshake (Some resp) ProxyModeLegacyFramed"
  assumes "cli_main env files resolver osArgs flags [dest] = ServeRemote f" and "length dest \<le> 9000"
    and "hget hdr ''X-Token'' = hget (register_header a) ''X-Token''"
    and "handleRegister s hdr (uRawQuery (registerURL a)) up now = (RegOnline resp r, s')"
  shows "(\<exists>u h. parseDestination dest = Inr (u, h) \<and> uuid c = u \<and> getAgent s' u = Some r) \<and>
    (agentTokenSet s = [] \<or> trimSpace (flagXToken flags) \<in> set (agentTokenSet s)) \<and>
    mode = proxyModeEffective c \<and> registerTargetKind a = targetKind c \<and>
    targetKind c = TargetKindFromTargetURL (Some (targetBase a)) \<and> agent_handler a mode \<noteq> Unsupported \<and>
    (\<forall>rs wsdial dial exchange payload.
       open_answer (agent_handler a mode) (targetBase a) rs wsdial dial exchange = (TWsOpenOK, payload) \<longrightarrow>
       (\<exists>k. payload = MustJSON (WsOpenOK_json k) \<and> gateway_accepts c (RelayMode k)))"
proof -
  obtain u h k where d: "parseDestination dest = Inr (u, h)" and k: "NewRemoteForward resolver k = Inr f"
    and ks: "cUUID k = u" "cRegisterHost k = h" "cRegisterXToken k = trimSpace (flagXToken flags)"
    using assms(4) by (elim cli_main_remote) auto
  obtain req where req: "NormalizeProxyMode (cProxyMode k) = Inr req"
    and t: "ParseRemoteTargetURL (cTargetURL k) ''remote target URL'' = Inr (fTarget f)"
    and v: "ValidateProxyModeTarget req (Some (fTarget f)) = None"
    and b: "BuildRegisterURL h u req (TargetKindFromTargetURL (Some (fTarget f))) = Inr (fRegisterURL f)"
    and x: "fRegisterXToken f = trimSpace (flagXToken flags)"
    using NewRemoteForward_ok [OF k] ks by (metis trimSpace_idem)
  note kind = forward_kind [OF t]
  have rq: "trimSpace req \<noteq> []" "NormalizeProxyMode req = Inr req"
    using NormalizeProxyMode_fixes [OF NormalizeProxyMode_range [OF req]] by auto
  have a: "registerURL a = fRegisterURL f" "targetBase a = fTarget f" "registerXToken a = trimSpace (flagXToken flags)"
    "a = New env (fRegisterURL f) (fRegisterDialAddr f) (fRegisterXToken f) (fRegisterBearerToken f) (fTarget f)"
    by (simp_all add: a_def forward_agent_def New_def x)
  have hl: "length h \<le> 9000" using parseDestination_ok(4) [OF d] assms(5) by linarith
  note nk = NormalizeTargetKind_fixes [OF kind(1)]
  note q = BuildRegisterURL_query [OF b hl rq(1) conjunct1 [OF nk] conjunct2 [OF nk]]
  note reg = assms(7) [unfolded a(1)]
  note on = handleRegister_online [OF reg] and ad = handleRegister_admitted [OF reg]
  have ck: "targetKind c = TargetKindFromTargetURL (Some (fTarget f))"
    using nk by (simp add: c_def on(3) q(3) normalizeRegisterTargetKind_def)
  have cr: "proxyModeRequested c = req" using rq(2) by (simp add: c_def on(4) q(2) normalizeRegisterProxyMode_def)
  have tcp: "targetKind c = TargetKindWebSocket \<longrightarrow> \<not> isTCPTarget (Some (fTarget f))" using kind(2) ck by simp
  note agree = modes_agree [OF reg tcp [unfolded c_def], of env "fRegisterDialAddr f" "fRegisterXToken f" "fRegisterBearerToken f",
      folded a(4) c_def mode_def]
  have h: "agent_handler a mode \<noteq> Unsupported"
    using forward_handler [of "cTargetURL k" "''remote target URL''" a req mode] t v a(2) cr agree effective_requested [OF reg]
    unfolding c_def by auto
  show ?thesis
    using d ad q(1) ck h agree assms(6) a(2,3) by (auto simp: c_def register_token)
qed

definition demo_forward :: RemoteForward where
  "demo_forward =
     \<lparr>fRegisterURL = emptyURL\<lparr>uScheme := ''wss'', uHost := ''gw.example'', uPath := ''/register'',
        uRawQuery := ''proxy_mode=legacy_framed&target_kind=ws&uuid=u1''\<rparr>,
      fRegisterDialAddr = [], fRegisterXToken = ''t'', fRegisterBearerToken = [],
      fTarget = emptyURL\<lparr>uScheme := ''ws'', uHost := ''127.0.0.1:9000'', uPath := ''/x''\<rparr>\<rparr>"

definition demo_flags :: cli_flags where
  "demo_flags = default_flags\<lparr>flagR := ''ws://127.0.0.1:9000/x'', flagXToken := '' t ''\<rparr>"

lemma demo_cli: "cli_main (\<lambda>_. []) (\<lambda>_. None) demo_lookup [''clockbridge-cli''] demo_flags [''u1@gw.example''] = ServeRemote demo_forward"
  by code_simp

theorem cli_registration_witness:
  "\<exists>resp s'. handleRegister (NewServerFromEnv (\<lambda>_. [])) (hset [] ''X-Token'' ''t'')
      (uRawQuery (registerURL (forward_agent (\<lambda>_. []) demo_forward))) True 0 = (RegOnline resp 0, s') \<and>
    uuid (conns s' ! 0) = ''u1'' \<and> getAgent s' ''u1'' = Some 0 \<and> targetKind (conns s' ! 0) = TargetKindWebSocket"
proof -
  let ?a = "forward_agent (\<lambda>_. []) demo_forward" and ?hdr = "hset [] ''X-Token'' ''t''"
  have q: "uRawQuery (registerURL ?a) = ''proxy_mode=legacy_framed&target_kind=ws&uuid=u1''"
    "targetBase ?a = fTarget demo_forward"
    by (simp_all add: forward_agent_def New_def demo_forward_def)
  have u: "qget (fst (ParseQuery ''proxy_mode=legacy_framed&target_kind=ws&uuid=u1'')) ''uuid'' = ''u1''" by code_simp
  have "\<exists>resp s'. handleRegister (NewServerFromEnv (\<lambda>_. [])) ?hdr (uRawQuery (registerURL ?a)) True 0 = (RegOnline resp 0, s')"
    by (simp add: handleRegister_def Let_def q u NewServerFromEnv_empty split: prod.splits)
  then obtain resp s' where on: "handleRegister (NewServerFromEnv (\<lambda>_. [])) ?hdr (uRawQuery (registerURL ?a)) True 0 = (RegOnline resp 0, s')"
    by blast
  have h: "hget ?hdr ''X-Token'' = hget (register_header ?a) ''X-Token''" unfolding register_token
    by (simp add: forward_agent_def New_def demo_forward_def hget_def hvalues_def hlookup_hset)
  have p: "parseDestination ''u1@gw.example'' = Inr (''u1'', ''gw.example'')"
    "TargetKindFromTargetURL (Some (fTarget demo_forward)) = TargetKindWebSocket" by code_simp+
  from cli_registration [OF demo_cli _ h on] p q on show ?thesis by auto
qed

section \<open>From the local listener to the agent\<close>

text \<open>C28. A local forward reaches the agent.  A request to the local listener, whose upstream is the gateway's path of an
  agent, leaves the reverse proxy such that the gateway hands it to the connection of that agent with the path (and,
  as the upstream URL has no query, the query) the client asked for, as a WebSocket or as a plain request, an upgrade
  being asked for if and only if the client asked for one.  The request carries the configured bearer token,
  whatever \<open>Authorization\<close> the client sent, unless the client's \<open>Connection\<close> header names \<open>Authorization\<close>: then the
  library removes the header after the director has set it and the request goes out without a token.  Of the other
  headers, those that are not hop-by-hop and not named by \<open>Connection\<close> have the client's values, but for
  \<open>X-Forwarded-For\<close>, which the gateway removes again (and \<open>User-Agent\<close> when the client sent none).\<close>

theorem local_forward_reaches_agent:
  fixes s q x r
  defines "path \<equiv> ''/'' @ x"
  assumes "u \<noteq> []" and "CHR ''/'' \<notin> set u" and "getAgent s u = Some r"
    and "uPath (upstreamURL p) = ''/'' @ u" and "uRawPath (upstreamURL p) = []" and "bearerToken p \<noteq> []"
    and "uRawQuery (upstreamURL p) = []" and "uPath (dURL q) = path" and "hasPrefix (EscapedPath (dURL q)) ''/''"
    and "proxied_request p q = Some out"
  shows "fst (handleClient_route s (uPath (dURL out)) False) = CHTTP r path \<and>
    fst (handleClient_route s (uPath (dURL out)) True) \<in> {CWebSocket r path, CWebSocketTransparent r path, CWebSocketTransparentRaw r path} \<and>
    uRawQuery (dURL out) = uRawQuery (dURL q) \<and> dHost out = uHost (upstreamURL p) \<and>
    (hlookup (dHeader out) ''Connection'', hlookup (dHeader out) ''Upgrade'') =
      (if upgradeType (dHeader q) = [] then ([], []) else ([''Upgrade''], [upgradeType (dHeader q)])) \<and>
    hlookup (dHeader out) ''Authorization'' =
      (if connection_names (dHeader q) ''Authorization'' then [] else [''Bearer '' @ bearerToken p]) \<and>
    (\<forall>k. k \<notin> {''Connection'', ''Proxy-Connection'', ''Keep-Alive'', ''Proxy-Authenticate'', ''Proxy-Authorization'', ''Te'', ''Trailer'',
          ''Transfer-Encoding'', ''Upgrade'', ''Authorization'', ''X-Forwarded-For''} \<and>
        (k = ''User-Agent'' \<longrightarrow> hlookup (dHeader q) k \<noteq> []) \<and> \<not> connection_names (dHeader q) k \<longrightarrow>
      hlookup (dHeader out) k = hlookup (dHeader q) k) \<and>
    hlookup (stripForwardingIPHeaders (dHeader out)) ''X-Forwarded-For'' = []"
proof -
  note out = proxied_header [OF assms(11)]
  have l: "last (''/'' @ u) \<noteq> CHR ''/''" using assms(2,3) by (metis append_self_conv2 last_appendR last_in_set)
  have "hasPrefix (uPath (dURL q)) ''/''" "''/'' @ u \<noteq> ''*''" using assms(9) by (simp_all add: hasPrefix_def path_def)
  then have p: "uPath (dURL out) = CHR ''/'' # u @ CHR ''/'' # x"
    using rewrite_path [OF assms(6)] l assms(5,9,10) by (simp add: out(2) director_def path_def)
  have "trimPrefix (CHR ''/'' # u @ CHR ''/'' # x) ''/'' = u @ CHR ''/'' # x" by (simp add: trimPrefix_def hasPrefix_def)
  moreover have "splitN2 CHR ''/'' (u @ CHR ''/'' # x) = [u, x]" by (simp add: splitN2_def cutAt_append [OF assms(3)])
  ultimately have route: "fst (handleClient_route s (uPath (dURL out)) False) = CHTTP r path"
    "fst (handleClient_route s (uPath (dURL out)) True) \<in> {CWebSocket r path, CWebSocketTransparent r path, CWebSocketTransparentRaw r path}"
    using assms(4) by (auto simp: p handleClient_route_def Let_def getAgent_def path_def)
  have url: "uRawQuery (dURL out) = uRawQuery (dURL q)" "dHost out = uHost (upstreamURL p)"
    using assms(8) by (simp_all add: out(2,3) director_def rewriteRequestURL_def split: prod.split)
  have k: "hlookup (dHeader out) k = hlookup (dHeader q) k"
    if "k \<notin> set hopHeaders" "k \<notin> {''Authorization'', ''X-Forwarded-For''}" "k = ''User-Agent'' \<longrightarrow> hlookup (dHeader q) k \<noteq> []"
      "\<not> connection_names (dHeader q) k" for k
    using out(1) [of k] that by (auto simp: director_header)
  have a: "hlookup (dHeader out) ''Authorization'' =
      (if connection_names (dHeader q) ''Authorization'' then [] else [''Bearer '' @ bearerToken p])"
    using out(1) [of "''Authorization''"] assms(7) by (simp add: director_header hopHeaders_def)
  have f: "hlookup (stripForwardingIPHeaders (dHeader out)) ''X-Forwarded-For'' = []"
    by (simp add: stripForwardingIPHeaders_def hlookup_hdel hop_key_set)
  show ?thesis
    using route url k a f out(4,5) by (simp add: director_header hopHeaders_def)
qed

theorem local_forward_reaches_agent_witness:
  "let s = (NewServerFromEnv (\<lambda>_. []))\<lparr>agentByUUID := [(''u1'', 0)]\<rparr>;
       p = New_proxy ''127.0.0.1:28789'' (emptyURL\<lparr>uScheme := ''https'', uHost := ''gw'', uPath := ''/u1''\<rparr>) ''tok'';
       q = \<lparr>dURL = emptyURL\<lparr>uPath := ''/a'', uRawQuery := ''b=c''\<rparr>, dHost = ''127.0.0.1:28789'',
            dHeader = [(''Authorization'', [''Basic x'']), (''Accept'', [''y'']), (''Connection'', [''close, X-Hop''])], dRemoteAddr = ''127.0.0.1:5''\<rparr>
   in \<exists>out. proxied_request p q = Some out \<and> fst (handleClient_route s (uPath (dURL out)) False) = CHTTP 0 ''/a'' \<and>
      uRawQuery (dURL out) = ''b=c'' \<and> hlookup (dHeader out) ''Authorization'' = [''Bearer tok''] \<and>
      hlookup (dHeader out) ''Accept'' = [''y''] \<and> hlookup (dHeader out) ''X-Forwarded-For'' = [''127.0.0.1'']"
proof -
  let ?s = "(NewServerFromEnv (\<lambda>_. []))\<lparr>agentByUUID := [(''u1'', 0)]\<rparr>"
    and ?p = "New_proxy ''127.0.0.1:28789'' (emptyURL\<lparr>uScheme := ''https'', uHost := ''gw'', uPath := ''/u1''\<rparr>) ''tok''"
    and ?q = "\<lparr>dURL = emptyURL\<lparr>uPath := ''/a'', uRawQuery := ''b=c''\<rparr>, dHost = ''127.0.0.1:28789'',
            dHeader = [(''Authorization'', [''Basic x'']), (''Accept'', [''y'']), (''Connection'', [''close, X-Hop''])], dRemoteAddr = ''127.0.0.1:5''\<rparr>"
  have "(case proxied_request ?p ?q of None \<Rightarrow> False | Some out \<Rightarrow> hlookup (dHeader out) ''X-Forwarded-For'' = [''127.0.0.1''])" by code_simp
  then obtain out where out: "proxied_request ?p ?q = Some out" "hlookup (dHeader out) ''X-Forwarded-For'' = [''127.0.0.1'']"
    by (auto split: option.splits)
  have c: "\<not> connection_names (dHeader ?q) ''Authorization''" "\<not> connection_names (dHeader ?q) ''Accept''"
    "hlookup (dHeader ?q) ''Accept'' = [''y'']" "hasPrefix (EscapedPath (dURL ?q)) ''/''" by code_simp+
  have g: "getAgent ?s ''u1'' = Some 0" "uPath (upstreamURL ?p) = ''/'' @ ''u1''" "uRawPath (upstreamURL ?p) = []" "bearerToken ?p = ''tok''"
    "uRawQuery (upstreamURL ?p) = []" "uPath (dURL ?q) = ''/'' @ ''a''" "uRawQuery (dURL ?q) = ''b=c''"
    by (simp_all add: getAgent_def New_proxy_def emptyURL_def)
  have "fst (handleClient_route ?s (uPath (dURL out)) False) = CHTTP 0 ''/a'' \<and> uRawQuery (dURL out) = ''b=c'' \<and>
      hlookup (dHeader out) ''Authorization'' = [''Bearer tok''] \<and> hlookup (dHeader out) ''Accept'' = [''y'']"
    using local_forward_reaches_agent [of "''u1''" ?s 0 ?p ?q "''a''" out] out(1) c g by simp
  with out show ?thesis unfolding Let_def by blast
qed

section \<open>Heartbeats\<close>

text \<open>The time of the ping number \<open>k\<close> of a session that started at \<open>t\<close>.\<close>

definition ping_time :: "int \<Rightarrow> nat \<Rightarrow> int" where
  "ping_time t k = t + int k * agentPingInterval"

text \<open>The connection after pings, each with its time, its data and the outcome of the pong's write.\<close>

definition pinged :: "(int \<times> string \<times> bool) list \<Rightarrow> agentConn \<Rightarrow> agentConn" where
  "pinged pings c = fold (\<lambda>(now, appData, ok) c. snd (ping_handler c now appData ok)) pings c"

lemma pings_idle: "bornAt (pinged pings c) = bornAt c \<and>
    lastActive (pinged pings c) = (if pings = [] then lastActive c else last (map fst pings) - bornAt c)"
  unfolding pinged_def by (induction pings arbitrary: c) (auto simp: ping_handler_def markActive_def Let_def)

text \<open>C5. On-time pings keep a session alive on both sides.  Let an agent's session start at most \<open>d\<close> after its registration, its
  pings reach the gateway within \<open>d\<close> and their pongs come back within \<open>2 d\<close>, among any messages the agent
  reads and any pings it writes.  If twice the delay is within the
  gateway's grace and below 70 seconds, and the ping interval the gateway expects is not below the agent's 20 seconds, then
  until the next ping is overdue the gateway never finds the connection idle for longer than its heartbeat timeout, and
  until the next pong is overdue the agent's read deadline has not passed and its read loop has not returned.\<close>

theorem heartbeat_keeps_session:
  fixes t reg d now env pings evs c st u req eff why kind maxS
  defines "ts \<equiv> map fst pings" and "g \<equiv> pinged pings (newAgentConn u req eff why kind maxS reg)"
    and "a \<equiv> session_run (run_start c st t) evs" and "ps \<equiv> List.map_filter pong_time evs"
  assumes "0 < heartbeatTimeout (NewServerFromEnv env)" and "pingIntervalHint env + heartbeatGrace env \<le> i64_max"
    and "agentPingInterval \<le> pingIntervalHint env" and "2 * d \<le> heartbeatGrace env" and "2 * d \<le> 70 * Second"
    and "reg \<le> t" and "t \<le> reg + d"
    and "\<forall>i < length ts. ping_time t (Suc i) \<le> ts ! i \<and> ts ! i \<le> ping_time t (Suc i) + d"
    and "\<forall>i < length ps. ping_time t (Suc i) \<le> ps ! i \<and> ps ! i \<le> ping_time t (Suc i) + 2 * d"
    and "list_all quiet evs"
  shows "(now \<le> ping_time t (Suc (length ts)) + d \<longrightarrow> idleFor g now \<le> heartbeatTimeout (NewServerFromEnv env)) \<and>
    (now \<le> ping_time t (Suc (length ps)) + 2 * d \<longrightarrow> sReturned a = None \<and> now \<le> sDeadline a)"
proof (intro conjI impI)
  have hb: "agentPingInterval + 2 * d \<le> heartbeatTimeout (NewServerFromEnv env)"
    using heartbeat_bound [OF assms(5,6)] assms(7,8) by linarith
  have pos: "0 < agentPingInterval" "agentReadTimeout = agentPingInterval + 70 * Second"
    by (simp_all add: agentPingInterval_def agentReadTimeout_def time_consts)
  have step: "ping_time t (Suc k) = ping_time t k + agentPingInterval" for k by (simp add: ping_time_def algebra_simps)
  have d: "0 \<le> d" using assms(10,11) by linarith
  show "idleFor g now \<le> heartbeatTimeout (NewServerFromEnv env)" if n: "now \<le> ping_time t (Suc (length ts)) + d"
  proof (cases "ts = []")
    case True
    then have "idleFor g now \<le> max 0 (now - reg)"
      by (auto simp: g_def ts_def pinged_def idleFor_def Let_def newAgentConn_def markActive_def)
    then show ?thesis using True n hb pos d assms(11) by (auto simp: ping_time_def)
  next
    case False
    then have "idleFor g now \<le> max 0 (now - last ts)"
      using pings_idle [of pings "newAgentConn u req eff why kind maxS reg"] by (auto simp: g_def ts_def idleFor_def Let_def)
    moreover have "ping_time t (length ts) \<le> last ts"
      using assms(12) [rule_format, of "length ts - 1"] False by (simp add: last_conv_nth)
    ultimately show ?thesis using n step [of "length ts"] hb pos d by auto
  qed
  have "reading a" using quiet_reading [OF assms(14)] by (simp add: a_def run_start_def reading_def)
  then show "sReturned a = None" by (simp add: reading_def)
  have "ping_time t (Suc (length ps)) + 2 * d \<le> sDeadline a"
    unfolding ping_time_def a_def ps_def session_run_def
  proof (rule agent_watch.beats)
    show "reading (fold (\<lambda>ev s. session_step s ev) evs (run_start c st t))"
      using \<open>reading a\<close> by (simp add: a_def session_run_def)
  qed (use assms(9,13) pos in \<open>simp_all add: ps_def ping_time_def run_start_def\<close>)
  then show "now \<le> sDeadline a" if "now \<le> ping_time t (Suc (length ps)) + 2 * d" using that by linarith
qed

theorem heartbeat_keeps_session_witness:
  "idleFor (pinged [(21 * Second, ''p'', True)] (newAgentConn ''u1'' [] [] [] [] 0 0)) (41 * Second)
     \<le> heartbeatTimeout (NewServerFromEnv (\<lambda>_. [])) \<and>
   41 * Second \<le> sDeadline (session_run (run_start (newConnState []) run_init 0) [STick (20 * Second) True, SPong (22 * Second)])"
proof -
  have "heartbeatTimeout (NewServerFromEnv (\<lambda>_. [])) = 60 * Second" "pingIntervalHint (\<lambda>_. []) = 20 * Second"
    "heartbeatGrace (\<lambda>_. []) = 5 * Second" by code_simp+
  then show ?thesis
    using heartbeat_keeps_session [of "\<lambda>_. []" Second 0 0 "[(21 * Second, ''p'', True)]" "[STick (20 * Second) True, SPong (22 * Second)]" "41 * Second" "''u1''" "[]" "[]" "[]" "[]" 0
        "newConnState []" run_init]
    by (simp add: time_consts i64_max_def agentPingInterval_def ping_time_def)
qed

section \<open>Limits\<close>

lemma server_wsReadLimit: "wsReadLimitBytes (NewServerFromEnv env) = WSReadLimitBytes"
  by (simp add: NewServerFromEnv_def Let_def split: prod.splits)

text \<open>A WebSocket message within the message limit, framed by either side, is within the read limit of the other side's
  tunnel connection.\<close>

theorem ws_frames_fit:
  assumes "int (length d) \<le> WSReadLimitBytes"
  shows "int (length (EncodeFrame t i (ws_payload mt d))) \<le> wsReadLimit (New env u da x b target) + int WebSocketFrameOverhead \<and>
         int (length (EncodeFrame t i (ws_payload mt d))) \<le> agentReadLimit (NewServerFromEnv env')"
  using assms
  by (simp add: New_def agentReadLimit_def server_wsReadLimit length_EncodeFrame WebSocketFrameOverhead_def ws_payload_def Let_def)

section \<open>Frames of a stream that is over\<close>

lemma delete_update_fresh: "map_of xs i = None \<Longrightarrow> AList.delete i (AList.update i v xs) = xs"
proof (induction xs)
  case (Cons x xs)
  then show ?case by (cases x) (auto simp: AList.delete_eq split: if_splits)
qed (simp add: AList.delete_eq)

text \<open>C13. A frame for a stream the agent no longer has (a late body chunk of a request it has finished, for instance) is
  settled.  The agent opens a stream for it, its handler refuses the frame, sends one reset and forgets the stream; the
  agent's other streams are as before.  A gateway that has no such stream any more ignores the reset.  A gateway that
  still has it open, because it is still sending the body, gets the reset into that stream's queue, behind everything
  the agent sent before (so behind the end of the response, if the agent had sent that), and nothing else of it
  changes; whatever the state of that stream, the gateway's other streams and their places in the map are
  untouched.\<close>

theorem stale_frame_settles:
  assumes "map_of (aStreams a) i = None" and "t \<noteq> TReqStart" and "length p < 2 ^ 32" and "conn_inv c"
  shows "\<exists>a2 f. agent_poll (length (aObjs a)) (agent_readLoop_msg pick ok a BinaryMessage (EncodeFrame t i p)) = Some (f, a2) \<and>
    handleStream_dispatch mode target f = Refuse ''missing req_start'' \<and>
    (let a3 = handleStream_refuse a2 (length (aObjs a)) ''missing req_start'' True;
         m = EncodeFrame TRst i (bytes_of ''missing req_start'');
         c' = readLoop_msg pick' c now BinaryMessage m
     in aStreams a3 = aStreams a \<and> aWire a3 = aWire a @ [m] \<and> take (length (aObjs a)) (aObjs a3) = aObjs a \<and>
        aClosed (aObjs a3 ! length (aObjs a)) \<and>
        (getStream c i = None \<longrightarrow> c' = markActive c now) \<and>
        (\<forall>q. getStream c i = Some q \<and> \<not> sclosed (objs c ! q) \<and> length (rx (objs c ! q)) < 640 \<longrightarrow>
           c' = (markActive c now)\<lparr>objs := (objs c)[q := (objs c ! q)\<lparr>rx := rx (objs c ! q) @
             [\<lparr>Type = TRst, Stream = i, Payload = bytes_of ''missing req_start''\<rparr>]\<rparr>]\<rparr>) \<and>
        (\<forall>q. q < length (objs c) \<and> sid (objs c ! q) \<noteq> i \<longrightarrow> objs c' ! q = objs c ! q) \<and>
        (\<forall>j. j \<noteq> i \<longrightarrow> getStream c' j = getStream c j))"
proof -
  let ?r = "length (aObjs a)" and ?f = "\<lparr>Type = t, Stream = i, Payload = p\<rparr>"
  define a2 where "a2 = a\<lparr>aObjs := aObjs a @ [\<lparr>aId = i, aRx = [], aClosed = False, aRunning = True\<rparr>],
      aStreams := AList.update i ?r (aStreams a)\<rparr>"
  have "agent_readLoop_msg pick ok a BinaryMessage (EncodeFrame t i p) =
      a\<lparr>aObjs := aObjs a @ [\<lparr>aId = i, aRx = [?f], aClosed = False, aRunning = True\<rparr>], aStreams := AList.update i ?r (aStreams a)\<rparr>"
    using assms(1) Decode_EncodeFrame [OF assms(3), of t i]
    by (simp add: agent_readLoop_msg_def getOrCreateStream_def deliverFrame_def agentReceiveQueueFrames_def updA_def Let_def)
  then have 1: "agent_poll ?r (agent_readLoop_msg pick ok a BinaryMessage (EncodeFrame t i p)) = Some (?f, a2)"
    by (simp add: agent_poll_def updA_def a2_def)
  have 2: "handleStream_dispatch mode target ?f = Refuse ''missing req_start''"
    using assms(2) by (simp add: handleStream_dispatch_def)
  have len: "length (bytes_of ''missing req_start'') < 2 ^ 32" by (simp add: bytes_of_def)
  let ?rst = "\<lparr>Type = TRst, Stream = i, Payload = bytes_of ''missing req_start''\<rparr>"
  define c' where "c' = readLoop_msg pick' c now BinaryMessage (EncodeFrame TRst i (bytes_of ''missing req_start''))"
  have c': "c' = (case getStream c i of None \<Rightarrow> markActive c now | Some q \<Rightarrow> stream_deliver pick' (markActive c now) q ?rst)"
    using Decode_EncodeFrame [OF len, of TRst i]
    by (simp add: c'_def readLoop_msg_def Let_def getStream_def markActive_def split: option.split)
  then have 3: "getStream c i = None \<longrightarrow> c' = markActive c now"
    "\<And>q. getStream c i = Some q \<and> \<not> sclosed (objs c ! q) \<and> length (rx (objs c ! q)) < 640 \<Longrightarrow>
       c' = (markActive c now)\<lparr>objs := (objs c)[q := (objs c ! q)\<lparr>rx := rx (objs c ! q) @ [?rst]\<rparr>]\<rparr>"
    by (auto simp: stream_deliver_def streamReceiveQueueFrames_def updStream_def markActive_def Let_def)
  have 4: "q < length (objs c) \<and> sid (objs c ! q) \<noteq> i \<Longrightarrow> objs c' ! q = objs c ! q"
    "j \<noteq> i \<Longrightarrow> getStream c' j = getStream c j" for q j
    unfolding c' using deliver_isolated [OF assms(4), of ?rst _ _ pick' now] by (auto simp: getStream_def split: option.split)
  have "map_of (AList.update i ?r (aStreams a)) i = Some ?r" by (simp add: AList.update_conv')
  then have 5: "aStreams (handleStream_refuse a2 ?r ''missing req_start'' True) = aStreams a"
    "aWire (handleStream_refuse a2 ?r ''missing req_start'' True) = aWire a @ [EncodeFrame TRst i (bytes_of ''missing req_start'')]"
    "take ?r (aObjs (handleStream_refuse a2 ?r ''missing req_start'' True)) = aObjs a"
    "aClosed (aObjs (handleStream_refuse a2 ?r ''missing req_start'' True) ! ?r)"
    using delete_update_fresh [OF assms(1)]
    by (simp_all add: handleStream_refuse_def handler_exit_def agent_forgetStream_def astream_close_def agent_send_def
        a2_def updA_def Let_def)
  show ?thesis
    by (rule exI [of _ a2], rule exI [of _ ?f], unfold Let_def, fold c'_def, intro conjI allI impI 1 2 3 4 5) (assumption | blast)+
qed

theorem stale_frame_settles_witness:
  "\<exists>a2 f. agent_poll 0 (agent_readLoop_msg True True (newConnState ProxyModeLegacyFramed) BinaryMessage (EncodeFrame TReqData 7 [1])) = Some (f, a2) \<and>
     handleStream_dispatch ProxyModeLegacyFramed (Some demo_target) f = Refuse ''missing req_start'' \<and>
     aWire (handleStream_refuse a2 0 ''missing req_start'' True) = [EncodeFrame TRst 7 (bytes_of ''missing req_start'')]"
proof -
  have "map_of (aStreams (newConnState ProxyModeLegacyFramed)) 7 = None" "TReqData \<noteq> TReqStart" "length ([1] :: bytes) < 2 ^ 32"
    "conn_inv (newAgentConn ''u1'' [] [] [] [] 0 0)"
    by (simp_all add: newConnState_def frame_types conn_inv_newAgentConn)
  from stale_frame_settles [OF this, of True True ProxyModeLegacyFramed "Some demo_target" True 5]
  obtain a2 f where "agent_poll 0 (agent_readLoop_msg True True (newConnState ProxyModeLegacyFramed) BinaryMessage (EncodeFrame TReqData 7 [1])) = Some (f, a2)"
    "handleStream_dispatch ProxyModeLegacyFramed (Some demo_target) f = Refuse ''missing req_start''"
    "aWire (handleStream_refuse a2 0 ''missing req_start'' True) = [EncodeFrame TRst 7 (bytes_of ''missing req_start'')]"
    by (auto simp: Let_def newConnState_def)
  then show ?thesis by (intro exI conjI)
qed

end
